(* ===== verification/Prelude.thy ===== *)
theory Prelude
  imports Main "HOL-Library.Word" "HOL-Library.List_Lexorder" "HOL-Library.Char_ord"
begin

text \<open>
  Shared vocabulary of the development: the result type of fallible code with its bind, the
  decimal conversions of the C and C++ standard libraries that several components use
  (\<^verbatim>\<open>std::to_string\<close>, the \<^verbatim>\<open>%0Nd\<close> conversion of \<^verbatim>\<open>printf\<close>, reading of digit strings),
  C strings, and the range checks of the fixed-width signed integers.
\<close>

section \<open>Collections of facts\<close>

named_theorems status_simps \<open>observers of StatusOr\<close>
named_theorems future_simps \<open>locked sections of the shared state\<close>
named_theorems cq_simps \<open>member functions and callbacks of operations on a completion queue\<close>
named_theorems log_simps \<open>severities\<close>

section \<open>Results\<close>

text \<open>\<open>Inl\<close> is the abnormal outcome, \<open>Inr\<close> the normal one; the bind stops at the first \<open>Inl\<close>.\<close>

type_synonym ('e, 'a) result = "'e + 'a"

definition bindR :: "('e, 'a) result \<Rightarrow> ('a \<Rightarrow> ('e, 'b) result) \<Rightarrow> ('e, 'b) result" where
  "bindR m f = (case m of Inl e \<Rightarrow> Inl e | Inr x \<Rightarrow> f x)"

lemma bindR_simps [simp]:
  "bindR (Inl e) f = Inl e"
  "bindR (Inr x) f = f x"
  by (simp_all add: bindR_def)

lemma bindR_eq_Inr_iff [simp]: "bindR m f = Inr y \<longleftrightarrow> (\<exists>x. m = Inr x \<and> f x = Inr y)"
  by (cases m) auto

lemma bindR_eq_Inl_iff:
  "bindR m f = Inl e \<longleftrightarrow> m = Inl e \<or> (\<exists>x. m = Inr x \<and> f x = Inl e)"
  by (cases m) auto

lemma bindR_assoc: "bindR (bindR m f) g = bindR m (\<lambda>x. bindR (f x) g)"
  by (cases m) auto

section \<open>Splitting at a separator\<close>

lemma length_tl_dropWhile: "c \<in> set s \<Longrightarrow> length (dropWhile (\<lambda>x. x \<noteq> c) s) - Suc 0 < length s"
proof -
  assume "c \<in> set s"
  then have "0 < length s" by (cases s) auto
  with length_dropWhile_le [of "\<lambda>x. x \<noteq> c" s] show ?thesis by linarith
qed

lemma split_at:
  assumes "c \<notin> set a"
  shows "takeWhile (\<lambda>x. x \<noteq> c) (a @ c # b) = a" "dropWhile (\<lambda>x. x \<noteq> c) (a @ c # b) = c # b"
    "takeWhile (\<lambda>x. x \<noteq> c) a = a" "dropWhile (\<lambda>x. x \<noteq> c) a = []"
  using assms by (induction a) auto

section \<open>Fixed-width signed integers\<close>

text \<open>
  Signed overflow is undefined behaviour in C++; where a computation can leave the range the
  model checks it instead of wrapping.
\<close>

definition in_int32 :: "int \<Rightarrow> bool" where
  "in_int32 x \<longleftrightarrow> - (2 ^ 31) \<le> x \<and> x < 2 ^ 31"

definition in_int64 :: "int \<Rightarrow> bool" where
  "in_int64 x \<longleftrightarrow> - (2 ^ 63) \<le> x \<and> x < 2 ^ 63"

text \<open>Division of \<^verbatim>\<open>std::lldiv\<close> and \<^verbatim>\<open>duration_cast\<close>: the quotient is truncated toward zero.\<close>

definition trunc_div :: "int \<Rightarrow> int \<Rightarrow> int" where
  "trunc_div a b = sgn a * sgn b * (\<bar>a\<bar> div \<bar>b\<bar>)"

definition trunc_rem :: "int \<Rightarrow> int \<Rightarrow> int" where
  "trunc_rem a b = a - b * trunc_div a b"

lemma trunc_div_nonneg: "0 \<le> a \<Longrightarrow> 0 < b \<Longrightarrow> trunc_div a b = a div b"
  by (cases "a = 0") (auto simp: trunc_div_def)

lemma trunc_rem_nonneg: "0 \<le> a \<Longrightarrow> 0 < b \<Longrightarrow> trunc_rem a b = a mod b"
  by (simp add: trunc_rem_def trunc_div_nonneg minus_mult_div_eq_mod)

section \<open>White space and signs\<close>

definition is_space :: "char \<Rightarrow> bool" where
  "is_space c \<longleftrightarrow> (of_char c :: nat) = 32 \<or> (9 \<le> (of_char c :: nat) \<and> (of_char c :: nat) \<le> 13)"

definition is_sign :: "char \<Rightarrow> bool" where
  "is_sign c \<longleftrightarrow> c = CHR ''+'' \<or> c = CHR ''-''"

section \<open>Decimal digits\<close>

definition digit_char :: "nat \<Rightarrow> char" where
  "digit_char d = char_of (48 + d)"

definition is_digit :: "char \<Rightarrow> bool" where
  "is_digit c \<longleftrightarrow> 48 \<le> (of_char c :: nat) \<and> (of_char c :: nat) \<le> 57"

definition digit_val :: "char \<Rightarrow> nat" where
  "digit_val c = of_char c - 48"

lemma digit_char_props [simp]:
  assumes "d < 10"
  shows "is_digit (digit_char d)" "digit_val (digit_char d) = d"
  using assms by (auto simp: is_digit_def digit_char_def digit_val_def)

lemma digit_char_neq [simp]:
  assumes "d < 10" "\<not> is_digit c"
  shows "digit_char d \<noteq> c" "c \<noteq> digit_char d"
  using assms digit_char_props(1) by auto

lemma digit_not_space [simp]: "is_digit c \<Longrightarrow> \<not> is_space c"
  by (auto simp: is_digit_def is_space_def)

lemma digit_not_sign [simp]: "is_digit c \<Longrightarrow> \<not> is_sign c"
  by (auto simp: is_digit_def is_sign_def)

text \<open>\<^verbatim>\<open>std::to_string\<close> on unsigned and signed values.\<close>

fun nat_to_dec :: "nat \<Rightarrow> string" where
  "nat_to_dec n = (if n < 10 then [digit_char n] else nat_to_dec (n div 10) @ [digit_char (n mod 10)])"

declare nat_to_dec.simps [simp del]

definition int_to_dec :: "int \<Rightarrow> string" where
  "int_to_dec i = (if i < 0 then CHR ''-'' # nat_to_dec (nat (- i)) else nat_to_dec (nat i))"

text \<open>The value of a string of digits, most significant first.\<close>

definition digits_val :: "string \<Rightarrow> nat" where
  "digits_val s = foldl (\<lambda>n c. 10 * n + digit_val c) 0 s"

lemma foldl_digits_from:
  "foldl (\<lambda>n c. 10 * n + digit_val c) a s = a * 10 ^ length s + digits_val s"
proof (induction s arbitrary: a)
  case Nil
  then show ?case by (simp add: digits_val_def)
next
  case (Cons c s)
  show ?case
    using Cons.IH [of "10 * a + digit_val c"] Cons.IH [of "digit_val c"]
    by (simp add: digits_val_def algebra_simps)
qed

lemma digits_val_append: "digits_val (s @ t) = digits_val s * 10 ^ length t + digits_val t"
  using foldl_digits_from [of "digits_val s" t] by (simp add: digits_val_def)

lemma digits_val_Nil [simp]: "digits_val [] = 0"
  by (simp add: digits_val_def)

lemma digits_val_single [simp]: "digits_val [c] = digit_val c"
  by (simp add: digits_val_def)

lemma digits_val_nat_to_dec [simp]: "digits_val (nat_to_dec n) = n"
proof (induction n rule: nat_to_dec.induct)
  case (1 n)
  show ?case
  proof (cases "n < 10")
    case True
    then show ?thesis by (simp add: nat_to_dec.simps [of n])
  next
    case False
    with "1.IH" show ?thesis
      by (simp add: nat_to_dec.simps [of n] digits_val_append)
  qed
qed

lemma digits_val_less: "(\<And>c. c \<in> set s \<Longrightarrow> is_digit c) \<Longrightarrow> digits_val s < 10 ^ length s"
proof (induction s rule: rev_induct)
  case Nil
  then show ?case by simp
next
  case (snoc c s)
  have "digit_val c < 10" using snoc.prems [of c] by (auto simp: is_digit_def digit_val_def)
  moreover have "digits_val s < 10 ^ length s" using snoc by simp
  ultimately show ?case by (simp add: digits_val_append)
qed

lemma nat_to_dec_digits: "c \<in> set (nat_to_dec n) \<Longrightarrow> is_digit c"
proof (induction n rule: nat_to_dec.induct)
  case (1 n)
  then show ?case
    by (cases "n < 10") (auto simp: nat_to_dec.simps [of n])
qed

lemma length_nat_to_dec_gt: "10 ^ k \<le> n \<Longrightarrow> k < length (nat_to_dec n)"
proof -
  assume k: "10 ^ k \<le> n"
  have "n < 10 ^ length (nat_to_dec n)"
    using digits_val_less [of "nat_to_dec n"] nat_to_dec_digits by simp
  with k have "(10 :: nat) ^ k < 10 ^ length (nat_to_dec n)" by (rule order_le_less_trans)
  then show ?thesis by (rule power_less_imp_less_exp [rotated]) simp
qed

lemma nat_to_dec_not_Nil [simp]: "nat_to_dec n \<noteq> []"
  by (subst nat_to_dec.simps) simp

lemma nat_to_dec_inj [simp]: "nat_to_dec m = nat_to_dec n \<longleftrightarrow> m = n"
  using digits_val_nat_to_dec by metis

lemma is_digit_minus [simp]: "\<not> is_digit (CHR ''-'')"
  by (simp add: is_digit_def)

lemma nat_to_dec_no_minus [simp]: "nat_to_dec n \<noteq> CHR ''-'' # s" "CHR ''-'' # s \<noteq> nat_to_dec n"
proof -
  have "nat_to_dec n = CHR ''-'' # s \<Longrightarrow> False"
    using nat_to_dec_digits [of "CHR ''-''" n] by simp
  then show "nat_to_dec n \<noteq> CHR ''-'' # s" "CHR ''-'' # s \<noteq> nat_to_dec n"
    by metis+
qed

lemma int_to_dec_inj [simp]: "int_to_dec i = int_to_dec j \<longleftrightarrow> i = j"
  by (auto simp: int_to_dec_def)

lemma length_nat_to_dec_le: "n < 10 ^ k \<Longrightarrow> 0 < k \<Longrightarrow> length (nat_to_dec n) \<le> k"
proof (induction k arbitrary: n)
  case 0
  then show ?case by simp
next
  case (Suc k)
  show ?case
  proof (cases "n < 10")
    case True
    then show ?thesis by (simp add: nat_to_dec.simps [of n])
  next
    case False
    with Suc.prems have "n div 10 < 10 ^ k" "0 < k"
      by (auto simp: less_mult_imp_div_less mult.commute intro: Suc_lessI gr0I)
    then have "length (nat_to_dec (n div 10)) \<le> k" by (rule Suc.IH)
    with False show ?thesis by (simp add: nat_to_dec.simps [of n])
  qed
qed

text \<open>The \<^verbatim>\<open>%0Nd\<close> conversion: at least \<open>w\<close> characters, zeros after the sign.\<close>

definition zeros :: "nat \<Rightarrow> string" where
  "zeros n = replicate n (CHR ''0'')"

definition pad0_nat :: "nat \<Rightarrow> nat \<Rightarrow> string" where
  "pad0_nat w n = zeros (w - length (nat_to_dec n)) @ nat_to_dec n"

definition pad0 :: "nat \<Rightarrow> int \<Rightarrow> string" where
  "pad0 w i = (if i < 0 then CHR ''-'' # pad0_nat (w - 1) (nat (- i)) else pad0_nat w (nat i))"

lemma digits_val_zeros [simp]: "digits_val (zeros n @ s) = digits_val s"
proof (induction n)
  case 0
  then show ?case by (simp add: zeros_def)
next
  case (Suc n)
  have "digits_val ([CHR ''0''] @ (zeros n @ s)) = digits_val (zeros n @ s)"
    by (simp add: digits_val_append [of "[CHR ''0'']"] digit_val_def del: append_Cons)
  with Suc show ?case by (simp add: zeros_def)
qed

lemma digits_val_pad0_nat [simp]: "digits_val (pad0_nat w n) = n"
  by (simp add: pad0_nat_def)

lemma pad0_nat_digits: "c \<in> set (pad0_nat w n) \<Longrightarrow> is_digit c"
  by (auto simp: pad0_nat_def zeros_def is_digit_def dest: nat_to_dec_digits [unfolded is_digit_def]
      split: if_splits)

lemma length_pad0_nat: "n < 10 ^ w \<Longrightarrow> 0 < w \<Longrightarrow> length (pad0_nat w n) = w"
  using length_nat_to_dec_le [of n w] by (simp add: pad0_nat_def zeros_def)

lemma pad0_nonneg: "0 \<le> i \<Longrightarrow> pad0 w i = pad0_nat w (nat i)"
  by (simp add: pad0_def)

section \<open>C strings\<close>

text \<open>A C string ends at the first NUL byte.\<close>

definition c_str :: "string \<Rightarrow> string" where
  "c_str s = takeWhile (\<lambda>c. c \<noteq> CHR 0x00) s"

lemma c_str_no_nul: "CHR 0x00 \<notin> set s \<Longrightarrow> c_str s = s"
  unfolding c_str_def by simp metis

end
