(* ===== verification/Status.thy ===== *)
theory Status
  imports Prelude
begin

text \<open>
  The error reporting values of the library: \<^verbatim>\<open>StatusCode\<close>, \<^verbatim>\<open>Status\<close> and their printers
  (\<^verbatim>\<open>google/cloud/status.h\<close>, \<^verbatim>\<open>status.cc\<close>), and the conversions from gRPC and protobuf statuses
  (\<^verbatim>\<open>grpc_error_delegate.cc\<close>). The enumerators of \<^verbatim>\<open>grpc::StatusCode\<close> are those the switch of
  \<^verbatim>\<open>MapStatusCode\<close> names; any other value of that type is \<open>GRPC_OTHER\<close>.
\<close>

section \<open>Status codes\<close>

text \<open>
  A C++ \<^verbatim>\<open>enum class\<close> object may hold any value of its underlying \<^verbatim>\<open>int\<close>; the values without an
  enumerator are \<open>StatusCodeValue n\<close>.
\<close>

datatype StatusCode =
    kOk | kCancelled | kUnknown | kInvalidArgument | kDeadlineExceeded | kNotFound
  | kAlreadyExists | kPermissionDenied | kUnauthenticated | kResourceExhausted
  | kFailedPrecondition | kAborted | kOutOfRange | kUnimplemented | kInternal
  | kUnavailable | kDataLoss | StatusCodeValue int

text \<open>\<^verbatim>\<open>static_cast<int>(code)\<close>, with the values the enumeration declares.\<close>

fun StatusCode_to_int :: "StatusCode \<Rightarrow> int" where
  "StatusCode_to_int kOk = 0"
| "StatusCode_to_int kCancelled = 1"
| "StatusCode_to_int kUnknown = 2"
| "StatusCode_to_int kInvalidArgument = 3"
| "StatusCode_to_int kDeadlineExceeded = 4"
| "StatusCode_to_int kNotFound = 5"
| "StatusCode_to_int kAlreadyExists = 6"
| "StatusCode_to_int kPermissionDenied = 7"
| "StatusCode_to_int kUnauthenticated = 16"
| "StatusCode_to_int kResourceExhausted = 8"
| "StatusCode_to_int kFailedPrecondition = 9"
| "StatusCode_to_int kAborted = 10"
| "StatusCode_to_int kOutOfRange = 11"
| "StatusCode_to_int kUnimplemented = 12"
| "StatusCode_to_int kInternal = 13"
| "StatusCode_to_int kUnavailable = 14"
| "StatusCode_to_int kDataLoss = 15"
| "StatusCode_to_int (StatusCodeValue n) = n"

text \<open>\<^verbatim>\<open>static_cast<StatusCode>(n)\<close>.\<close>

definition StatusCode_of_int :: "int \<Rightarrow> StatusCode" where
  "StatusCode_of_int n =
     (if n = 0 then kOk else if n = 1 then kCancelled else if n = 2 then kUnknown
      else if n = 3 then kInvalidArgument else if n = 4 then kDeadlineExceeded
      else if n = 5 then kNotFound else if n = 6 then kAlreadyExists
      else if n = 7 then kPermissionDenied else if n = 8 then kResourceExhausted
      else if n = 9 then kFailedPrecondition else if n = 10 then kAborted
      else if n = 11 then kOutOfRange else if n = 12 then kUnimplemented
      else if n = 13 then kInternal else if n = 14 then kUnavailable
      else if n = 15 then kDataLoss else if n = 16 then kUnauthenticated
      else StatusCodeValue n)"

text \<open>Each value of the C++ type has one representation: \<open>StatusCodeValue\<close> is for the others only.\<close>

definition wf_StatusCode :: "StatusCode \<Rightarrow> bool" where
  "wf_StatusCode c \<longleftrightarrow> (case c of StatusCodeValue n \<Rightarrow> n < 0 \<or> 16 < n | _ \<Rightarrow> True)"

definition named_StatusCode :: "StatusCode \<Rightarrow> bool" where
  "named_StatusCode c \<longleftrightarrow> (case c of StatusCodeValue n \<Rightarrow> False | _ \<Rightarrow> True)"

text \<open>\<^verbatim>\<open>std::string StatusCodeToString(StatusCode code)\<close>.\<close>

fun StatusCodeToString :: "StatusCode \<Rightarrow> string" where
  "StatusCodeToString kOk = ''OK''"
| "StatusCodeToString kCancelled = ''CANCELLED''"
| "StatusCodeToString kUnknown = ''UNKNOWN''"
| "StatusCodeToString kInvalidArgument = ''INVALID_ARGUMENT''"
| "StatusCodeToString kDeadlineExceeded = ''DEADLINE_EXCEEDED''"
| "StatusCodeToString kNotFound = ''NOT_FOUND''"
| "StatusCodeToString kAlreadyExists = ''ALREADY_EXISTS''"
| "StatusCodeToString kPermissionDenied = ''PERMISSION_DENIED''"
| "StatusCodeToString kUnauthenticated = ''UNAUTHENTICATED''"
| "StatusCodeToString kResourceExhausted = ''RESOURCE_EXHAUSTED''"
| "StatusCodeToString kFailedPrecondition = ''FAILED_PRECONDITION''"
| "StatusCodeToString kAborted = ''ABORTED''"
| "StatusCodeToString kOutOfRange = ''OUT_OF_RANGE''"
| "StatusCodeToString kUnimplemented = ''UNIMPLEMENTED''"
| "StatusCodeToString kInternal = ''INTERNAL''"
| "StatusCodeToString kUnavailable = ''UNAVAILABLE''"
| "StatusCodeToString kDataLoss = ''DATA_LOSS''"
| "StatusCodeToString (StatusCodeValue n) = ''UNEXPECTED_STATUS_CODE='' @ int_to_dec n"

section \<open>Status\<close>

record Status =
  st_code :: StatusCode
  st_message :: string

text \<open>The two constructors, \<^verbatim>\<open>ok()\<close>, the comparison and the streaming operator.\<close>

definition Status_default :: Status where
  "Status_default = \<lparr>st_code = kOk, st_message = []\<rparr>"

definition mk_Status :: "StatusCode \<Rightarrow> string \<Rightarrow> Status" where
  "mk_Status c m = \<lparr>st_code = c, st_message = m\<rparr>"

definition Status_ok :: "Status \<Rightarrow> bool" where
  "Status_ok s \<longleftrightarrow> st_code s = kOk"

definition Status_eq :: "Status \<Rightarrow> Status \<Rightarrow> bool" where
  "Status_eq a b \<longleftrightarrow> st_code a = st_code b \<and> st_message a = st_message b"

definition StatusWhat :: "Status \<Rightarrow> string" where
  "StatusWhat s = st_message s @ '' ['' @ StatusCodeToString (st_code s) @ '']''"

section \<open>Conversions from RPC errors\<close>

datatype grpc_StatusCode =
    GRPC_OK | GRPC_CANCELLED | GRPC_UNKNOWN | GRPC_INVALID_ARGUMENT | GRPC_DEADLINE_EXCEEDED
  | GRPC_NOT_FOUND | GRPC_ALREADY_EXISTS | GRPC_PERMISSION_DENIED | GRPC_UNAUTHENTICATED
  | GRPC_RESOURCE_EXHAUSTED | GRPC_FAILED_PRECONDITION | GRPC_ABORTED | GRPC_OUT_OF_RANGE
  | GRPC_UNIMPLEMENTED | GRPC_INTERNAL | GRPC_UNAVAILABLE | GRPC_DATA_LOSS | GRPC_OTHER int

record grpc_Status =
  error_code :: grpc_StatusCode
  error_message :: string

record rpc_Status =
  rpc_code :: int
  rpc_message :: string

fun MapStatusCode :: "grpc_StatusCode \<Rightarrow> StatusCode" where
  "MapStatusCode GRPC_OK = kOk"
| "MapStatusCode GRPC_CANCELLED = kCancelled"
| "MapStatusCode GRPC_UNKNOWN = kUnknown"
| "MapStatusCode GRPC_INVALID_ARGUMENT = kInvalidArgument"
| "MapStatusCode GRPC_DEADLINE_EXCEEDED = kDeadlineExceeded"
| "MapStatusCode GRPC_NOT_FOUND = kNotFound"
| "MapStatusCode GRPC_ALREADY_EXISTS = kAlreadyExists"
| "MapStatusCode GRPC_PERMISSION_DENIED = kPermissionDenied"
| "MapStatusCode GRPC_UNAUTHENTICATED = kUnauthenticated"
| "MapStatusCode GRPC_RESOURCE_EXHAUSTED = kResourceExhausted"
| "MapStatusCode GRPC_FAILED_PRECONDITION = kFailedPrecondition"
| "MapStatusCode GRPC_ABORTED = kAborted"
| "MapStatusCode GRPC_OUT_OF_RANGE = kOutOfRange"
| "MapStatusCode GRPC_UNIMPLEMENTED = kUnimplemented"
| "MapStatusCode GRPC_INTERNAL = kInternal"
| "MapStatusCode GRPC_UNAVAILABLE = kUnavailable"
| "MapStatusCode GRPC_DATA_LOSS = kDataLoss"
| "MapStatusCode (GRPC_OTHER _) = kUnknown"

text \<open>The three overloads of \<^verbatim>\<open>MakeStatusFromRpcError\<close>.\<close>

definition MakeStatusFromRpcError_code :: "grpc_StatusCode \<Rightarrow> string \<Rightarrow> Status" where
  "MakeStatusFromRpcError_code c what = mk_Status (MapStatusCode c) what"

definition MakeStatusFromRpcError :: "grpc_Status \<Rightarrow> Status" where
  "MakeStatusFromRpcError s = MakeStatusFromRpcError_code (error_code s) (error_message s)"

definition MakeStatusFromRpcError_proto :: "rpc_Status \<Rightarrow> Status" where
  "MakeStatusFromRpcError_proto s =
     mk_Status
       (if 0 \<le> rpc_code s \<and> rpc_code s \<le> StatusCode_to_int kUnauthenticated
        then StatusCode_of_int (rpc_code s) else kUnknown)
       (rpc_message s)"

section \<open>Lemmas\<close>

lemma Status_simps [simp]:
  "st_code (mk_Status c m) = c" "st_message (mk_Status c m) = m"
  "Status_ok (mk_Status c m) \<longleftrightarrow> c = kOk" "Status_ok Status_default"
  by (simp_all add: mk_Status_def Status_ok_def Status_default_def)

lemma Status_eq_iff [simp]: "Status_eq a b \<longleftrightarrow> a = b"
  by (auto simp: Status_eq_def)

lemma StatusCode_to_of_int [simp]: "StatusCode_to_int (StatusCode_of_int n) = n"
  by (simp add: StatusCode_of_int_def)

lemma StatusCode_of_to_int: "wf_StatusCode c \<Longrightarrow> StatusCode_of_int (StatusCode_to_int c) = c"
  by (cases c) (auto simp: StatusCode_of_int_def wf_StatusCode_def)

lemma wf_StatusCode_of_int: "wf_StatusCode (StatusCode_of_int n)"
proof -
  have "n < 0 \<or> 16 < n" if "n \<notin> {0..16}" using that by auto
  moreover have "n \<in> set [0..16]" if "n \<in> {0..16}" using that by simp
  ultimately show ?thesis
    by (fastforce simp: StatusCode_of_int_def wf_StatusCode_def upto.simps)
qed

lemma named_StatusCode_of_int: "named_StatusCode (StatusCode_of_int n) \<longleftrightarrow> 0 \<le> n \<and> n \<le> 16"
  unfolding StatusCode_of_int_def named_StatusCode_def by (simp split: if_split) presburger

lemma named_MapStatusCode: "named_StatusCode (MapStatusCode c)"
  by (cases c) (simp_all add: named_StatusCode_def)

lemma StatusCodeToString_named_inj:
  assumes "named_StatusCode c"
  shows "StatusCodeToString c = StatusCodeToString d \<longleftrightarrow> c = d"
  using assms by (cases c; cases d) (simp_all add: named_StatusCode_def)

lemma StatusCodeToString_inj: "StatusCodeToString c = StatusCodeToString d \<longleftrightarrow> c = d"
proof (cases "named_StatusCode c \<or> named_StatusCode d")
  case True
  then show ?thesis
    using StatusCodeToString_named_inj [of c d] StatusCodeToString_named_inj [of d c] by metis
next
  case False
  then show ?thesis by (cases c; cases d) (simp_all add: named_StatusCode_def)
qed

section \<open>Properties\<close>

text \<open>The numbers that the gRPC protocol assigns to its codes, which \<^verbatim>\<open>google::rpc::Status\<close> shares.\<close>

fun grpc_StatusCode_value :: "grpc_StatusCode \<Rightarrow> int" where
  "grpc_StatusCode_value GRPC_OK = 0"
| "grpc_StatusCode_value GRPC_CANCELLED = 1"
| "grpc_StatusCode_value GRPC_UNKNOWN = 2"
| "grpc_StatusCode_value GRPC_INVALID_ARGUMENT = 3"
| "grpc_StatusCode_value GRPC_DEADLINE_EXCEEDED = 4"
| "grpc_StatusCode_value GRPC_NOT_FOUND = 5"
| "grpc_StatusCode_value GRPC_ALREADY_EXISTS = 6"
| "grpc_StatusCode_value GRPC_PERMISSION_DENIED = 7"
| "grpc_StatusCode_value GRPC_RESOURCE_EXHAUSTED = 8"
| "grpc_StatusCode_value GRPC_FAILED_PRECONDITION = 9"
| "grpc_StatusCode_value GRPC_ABORTED = 10"
| "grpc_StatusCode_value GRPC_OUT_OF_RANGE = 11"
| "grpc_StatusCode_value GRPC_UNIMPLEMENTED = 12"
| "grpc_StatusCode_value GRPC_INTERNAL = 13"
| "grpc_StatusCode_value GRPC_UNAVAILABLE = 14"
| "grpc_StatusCode_value GRPC_DATA_LOSS = 15"
| "grpc_StatusCode_value GRPC_UNAUTHENTICATED = 16"
| "grpc_StatusCode_value (GRPC_OTHER n) = n"

lemma MapStatusCode_value:
  "StatusCode_to_int (MapStatusCode c) = (case c of GRPC_OTHER n \<Rightarrow> 2 | _ \<Rightarrow> grpc_StatusCode_value c)"
  by (cases c) simp_all

text \<open>
  C36: status codes survive every conversion. Distinct codes print differently, values without an
  enumerator included. A status made from a \<^verbatim>\<open>google::rpc::Status\<close> has the number of the proto's code if it is one
  of the 17, and \<^verbatim>\<open>kUnknown\<close> (2) otherwise; a status made from a \<^verbatim>\<open>grpc::Status\<close> has, for each of the 17 codes of gRPC,
  the code with the same number, and \<^verbatim>\<open>kUnknown\<close> for any other value. Both always have a named code and the
  message of the error, and are OK exactly if the error was.
\<close>

theorem Status_conversions_faithful:
  "(StatusCodeToString c = StatusCodeToString d \<longleftrightarrow> c = d) \<and>
   StatusCode_to_int (st_code (MakeStatusFromRpcError_proto p)) =
     (if 0 \<le> rpc_code p \<and> rpc_code p \<le> 16 then rpc_code p else StatusCode_to_int kUnknown) \<and>
   named_StatusCode (st_code (MakeStatusFromRpcError_proto p)) \<and>
   (Status_ok (MakeStatusFromRpcError_proto p) \<longleftrightarrow> rpc_code p = 0) \<and>
   st_message (MakeStatusFromRpcError_proto p) = rpc_message p \<and>
   StatusCode_to_int (st_code (MakeStatusFromRpcError s)) =
     (case error_code s of GRPC_OTHER n \<Rightarrow> 2 | _ \<Rightarrow> grpc_StatusCode_value (error_code s)) \<and>
   named_StatusCode (st_code (MakeStatusFromRpcError s)) \<and>
   (Status_ok (MakeStatusFromRpcError s) \<longleftrightarrow> error_code s = GRPC_OK) \<and>
   st_message (MakeStatusFromRpcError s) = error_message s"
proof -
  have "named_StatusCode kUnknown" by (simp add: named_StatusCode_def)
  then have "named_StatusCode (st_code (MakeStatusFromRpcError_proto p))"
    by (simp add: MakeStatusFromRpcError_proto_def named_StatusCode_of_int)
  moreover have "Status_ok (MakeStatusFromRpcError_proto p) \<longleftrightarrow> rpc_code p = 0"
    by (simp add: MakeStatusFromRpcError_proto_def StatusCode_of_int_def)
  moreover have "MapStatusCode e = kOk \<longleftrightarrow> e = GRPC_OK" for e by (cases e) simp_all
  ultimately show ?thesis
    by (simp add: StatusCodeToString_inj MakeStatusFromRpcError_proto_def named_MapStatusCode
        MakeStatusFromRpcError_def MakeStatusFromRpcError_code_def MapStatusCode_value)
qed

end
