(* ===== verification/Throw_Delegate.thy ===== *)
theory Throw_Delegate
  imports Status
begin

text \<open>
  Abnormal termination of the library's functions: the exceptions it raises
  (\<^verbatim>\<open>internal/throw_delegate.cc\<close>, \<^verbatim>\<open>internal/future_impl.cc\<close>) and the handler that replaces
  them when the library is compiled without exceptions (\<^verbatim>\<open>terminate_handler.cc\<close>). The compile-time
  switch \<^verbatim>\<open>GOOGLE_CLOUD_CPP_HAVE_EXCEPTIONS\<close> is the first argument, a boolean. The text that
  \<^verbatim>\<open>std::error_code::message()\<close> gives is up to the platform and is an argument.
\<close>

section \<open>Exceptions\<close>

datatype future_errc =
    broken_promise | future_already_retrieved | promise_already_satisfied | no_state

text \<open>
  The exceptions the library raises itself, those the standard library functions it calls raise
  (\<^verbatim>\<open>std::out_of_range\<close>, \<^verbatim>\<open>std::bad_function_call\<close>, \<^verbatim>\<open>std::length_error\<close>), and those of user code, known only by an
  identity.
\<close>

datatype cpp_exception =
    invalid_argument string
  | range_error string
  | runtime_error string
  | system_error int string
  | logic_error string
  | RuntimeStatusError Status
  | future_error future_errc
  | out_of_range string
  | bad_function_call
  | length_error string
  | user_exception nat

text \<open>How a function that does not return normally ends.\<close>

datatype abnormal =
    Thrown cpp_exception
  | Terminated string

definition ThrowException :: "bool \<Rightarrow> (string \<Rightarrow> cpp_exception) \<Rightarrow> string \<Rightarrow> abnormal" where
  "ThrowException have_ex mk msg = (if have_ex then Thrown (mk msg) else Terminated msg)"

definition ThrowException_ec ::
  "bool \<Rightarrow> (int \<Rightarrow> string) \<Rightarrow> (int \<Rightarrow> string \<Rightarrow> cpp_exception) \<Rightarrow> int \<Rightarrow> string \<Rightarrow> abnormal" where
  "ThrowException_ec have_ex ec_message mk ec msg =
     (if have_ex then Thrown (mk ec msg)
      else Terminated (c_str (ec_message ec @ '': '' @ msg)))"

text \<open>The \<^verbatim>\<open>char const*\<close> overloads; the \<^verbatim>\<open>std::string\<close> ones pass \<^verbatim>\<open>msg.c_str()\<close>.\<close>

definition ThrowInvalidArgument :: "bool \<Rightarrow> string \<Rightarrow> abnormal" where
  "ThrowInvalidArgument have_ex msg = ThrowException have_ex invalid_argument (c_str msg)"

definition ThrowRangeError :: "bool \<Rightarrow> string \<Rightarrow> abnormal" where
  "ThrowRangeError have_ex msg = ThrowException have_ex range_error (c_str msg)"

definition ThrowRuntimeError :: "bool \<Rightarrow> string \<Rightarrow> abnormal" where
  "ThrowRuntimeError have_ex msg = ThrowException have_ex runtime_error (c_str msg)"

definition ThrowSystemError :: "bool \<Rightarrow> (int \<Rightarrow> string) \<Rightarrow> int \<Rightarrow> string \<Rightarrow> abnormal" where
  "ThrowSystemError have_ex ec_message ec msg =
     ThrowException_ec have_ex ec_message system_error ec (c_str msg)"

definition ThrowLogicError :: "bool \<Rightarrow> string \<Rightarrow> abnormal" where
  "ThrowLogicError have_ex msg = ThrowException have_ex logic_error (c_str msg)"

definition ThrowStatus :: "bool \<Rightarrow> Status \<Rightarrow> abnormal" where
  "ThrowStatus have_ex st =
     (if have_ex then Thrown (RuntimeStatusError st) else Terminated (c_str (StatusWhat st)))"

text \<open>\<^verbatim>\<open>ThrowFutureError\<close>: with exceptions the message is dropped.\<close>

definition ThrowFutureError :: "bool \<Rightarrow> (future_errc \<Rightarrow> string) \<Rightarrow> future_errc \<Rightarrow> string \<Rightarrow> abnormal" where
  "ThrowFutureError have_ex errc_message ec msg =
     (if have_ex then Thrown (future_error ec)
      else Terminated (c_str (''future_error['' @ errc_message ec @ '']: '' @ msg)))"

section \<open>The terminate handler\<close>

text \<open>
  A handler writes to \<^verbatim>\<open>std::cerr\<close> and then either returns (which its contract forbids), aborts
  the process or leaves in some other way (an exception, \<^verbatim>\<open>std::exit\<close>).
\<close>

datatype handler_end = HandlerReturned | HandlerAborted | HandlerLeft

type_synonym TerminateHandler = "string \<Rightarrow> string \<times> handler_end"

record TerminateFunction =
  handler_f :: TerminateHandler

definition TerminateFunction_Get :: "TerminateFunction \<Rightarrow> TerminateHandler" where
  "TerminateFunction_Get h = handler_f h"

text \<open>\<^verbatim>\<open>f.swap(f_); return f;\<close> installs the argument and returns the previous handler.\<close>

definition TerminateFunction_Set ::
  "TerminateHandler \<Rightarrow> TerminateFunction \<Rightarrow> TerminateHandler \<times> TerminateFunction" where
  "TerminateFunction_Set f h = (handler_f h, h\<lparr>handler_f := f\<rparr>)"

definition default_terminate_handler :: TerminateHandler where
  "default_terminate_handler msg =
     (''Aborting because exceptions are disabled: '' @ msg @ ''\<newline>'', HandlerAborted)"

text \<open>The function-local static of \<^verbatim>\<open>GetTerminateHolder\<close>, before any call of \<^verbatim>\<open>Set\<close>.\<close>

definition GetTerminateHolder :: TerminateFunction where
  "GetTerminateHolder = \<lparr>handler_f = default_terminate_handler\<rparr>"

definition SetTerminateHandler ::
  "TerminateHandler \<Rightarrow> TerminateFunction \<Rightarrow> TerminateHandler \<times> TerminateFunction" where
  "SetTerminateHandler f holder = TerminateFunction_Set f holder"

definition GetTerminateHandler :: "TerminateFunction \<Rightarrow> TerminateHandler" where
  "GetTerminateHandler holder = TerminateFunction_Get holder"

definition Terminate :: "TerminateFunction \<Rightarrow> string \<Rightarrow> string \<times> handler_end" where
  "Terminate holder msg =
     (case TerminateFunction_Get holder msg of
        (out, HandlerReturned) \<Rightarrow>
          (out @ ''Aborting because the installed terminate handler returned. Error details: ''
               @ msg @ ''\<newline>'', HandlerAborted)
      | (out, e) \<Rightarrow> (out, e))"

section \<open>Lemmas\<close>

lemma set_get_TerminateHandler:
  "GetTerminateHandler (snd (SetTerminateHandler f h)) = f"
  "fst (SetTerminateHandler f h) = GetTerminateHandler h"
  by (simp_all add: GetTerminateHandler_def SetTerminateHandler_def TerminateFunction_Get_def
      TerminateFunction_Set_def)

lemma set_TerminateHandler_restore:
  "snd (SetTerminateHandler (fst (SetTerminateHandler f h)) (snd (SetTerminateHandler f h))) = h"
  by (simp add: SetTerminateHandler_def TerminateFunction_Set_def)

lemma Terminate_never_returns: "snd (Terminate h msg) \<noteq> HandlerReturned"
  by (auto simp: Terminate_def split: prod.splits handler_end.splits)

lemma Terminate_well_behaved:
  "snd (GetTerminateHandler h msg) \<noteq> HandlerReturned \<Longrightarrow> Terminate h msg = GetTerminateHandler h msg"
  by (auto simp: Terminate_def GetTerminateHandler_def split: prod.splits handler_end.splits)

lemma Throw_have_exceptions:
  "ThrowStatus True st = Thrown (RuntimeStatusError st)"
  "ThrowFutureError True em ec msg = Thrown (future_error ec)"
  "ThrowInvalidArgument True msg = Thrown (invalid_argument (c_str msg))"
  "ThrowRuntimeError True msg = Thrown (runtime_error (c_str msg))"
  "ThrowLogicError True msg = Thrown (logic_error (c_str msg))"
  by (simp_all add: ThrowStatus_def ThrowFutureError_def ThrowInvalidArgument_def
      ThrowRuntimeError_def ThrowLogicError_def ThrowException_def)

section \<open>Properties\<close>

text \<open>
  \<^verbatim>\<open>Terminate\<close> never returns, whatever handler is installed: a handler that returns is followed
  by an abort, and any other handler's way of leaving is kept. Installing a handler returns the
  previous one, which can be restored.
\<close>

theorem Terminate_handler_contract:
  "snd (Terminate h msg) \<noteq> HandlerReturned \<and>
   (snd (GetTerminateHandler h msg) = HandlerReturned \<longleftrightarrow> Terminate h msg \<noteq> GetTerminateHandler h msg) \<and>
   GetTerminateHandler (snd (SetTerminateHandler f h)) = f \<and>
   fst (SetTerminateHandler f h) = GetTerminateHandler h \<and>
   snd (SetTerminateHandler (fst (SetTerminateHandler f h)) (snd (SetTerminateHandler f h))) = h"
proof -
  have "Terminate h msg \<noteq> GetTerminateHandler h msg" if "snd (GetTerminateHandler h msg) = HandlerReturned"
    using that Terminate_never_returns [of h msg] by auto
  with Terminate_well_behaved [of h msg] Terminate_never_returns [of h msg] show ?thesis
    using set_TerminateHandler_restore [of f h] by (auto simp: set_get_TerminateHandler)
qed

end
