(* ===== verification/Lifetime.thy ===== *)
theory Lifetime
  imports Throw_Delegate
begin

text \<open>
  Manually managed storage. \<^verbatim>\<open>optional<T>\<close> and \<^verbatim>\<open>StatusOr<T>\<close> keep their value in raw storage and
  construct and destroy it by hand (placement new, explicit destructor calls). A cell is such
  storage; using it against its state is undefined behaviour, which the model reports as a fault.
  The locale \<open>tagged_storage\<close> states what a class that pairs a cell with a tag promises its
  users, and what follows for any sequence of assignments.
\<close>

section \<open>Cells\<close>

datatype 'a cell = Uninit | Live 'a

datatype ub = DoubleConstruct | DestroyDead | UseDead | NullDeref | SignedOverflow | OutOfBounds

text \<open>A call ends in undefined behaviour, or abnormally in a defined way.\<close>

datatype fault = UB ub | Abn abnormal

text \<open>Placement new over a live object would leak it.\<close>

definition cell_new :: "'a \<Rightarrow> 'a cell \<Rightarrow> fault + 'a cell" where
  "cell_new x c = (case c of Uninit \<Rightarrow> Inr (Live x) | Live _ \<Rightarrow> Inl (UB DoubleConstruct))"

definition cell_destroy :: "'a cell \<Rightarrow> fault + 'a cell" where
  "cell_destroy c = (case c of Uninit \<Rightarrow> Inl (UB DestroyDead) | Live _ \<Rightarrow> Inr Uninit)"

definition cell_get :: "'a cell \<Rightarrow> fault + 'a" where
  "cell_get c = (case c of Uninit \<Rightarrow> Inl (UB UseDead) | Live x \<Rightarrow> Inr x)"

definition cell_set :: "'a \<Rightarrow> 'a cell \<Rightarrow> fault + 'a cell" where
  "cell_set x c = (case c of Uninit \<Rightarrow> Inl (UB UseDead) | Live _ \<Rightarrow> Inr (Live x))"

lemma cell_simps [simp]:
  "cell_new x Uninit = Inr (Live x)" "cell_new x (Live y) = Inl (UB DoubleConstruct)"
  "cell_destroy (Live y) = Inr Uninit" "cell_destroy Uninit = Inl (UB DestroyDead)"
  "cell_get (Live y) = Inr y" "cell_get Uninit = Inl (UB UseDead)"
  "cell_set x (Live y) = Inr (Live x)" "cell_set x Uninit = Inl (UB UseDead)"
  by (simp_all add: cell_new_def cell_destroy_def cell_get_def cell_set_def)

definition alive :: "'a cell \<Rightarrow> bool" where
  "alive c \<longleftrightarrow> c \<noteq> Uninit"

lemma alive_simps [simp]: "alive (Live x)" "\<not> alive Uninit"
  by (simp_all add: alive_def)

lemma aliveE: "alive c \<Longrightarrow> (\<And>x. c = Live x \<Longrightarrow> P) \<Longrightarrow> P"
  by (cases c) auto

lemma not_alive_iff [simp]: "\<not> alive c \<longleftrightarrow> c = Uninit"
  by (simp add: alive_def)

section \<open>The contract of a tagged storage\<close>

text \<open>The three kinds of assignment these classes offer.\<close>

datatype ('s, 'a) assignment = CopyFrom 's | MoveFrom 's | SetValue 'a

text \<open>A sequence of assignments, over the three assignment operators of a class.\<close>

fun assign_step ::
  "('s \<Rightarrow> 's \<Rightarrow> fault + 's) \<Rightarrow> ('s \<Rightarrow> 's \<Rightarrow> fault + 's \<times> 's) \<Rightarrow> ('s \<Rightarrow> 'a \<Rightarrow> fault + 's)
   \<Rightarrow> 's \<Rightarrow> ('s, 'a) assignment \<Rightarrow> fault + 's" where
  "assign_step cp mo va s (CopyFrom r) = cp s r"
| "assign_step cp mo va s (MoveFrom r) = bindR (mo s r) (\<lambda>p. Inr (fst p))"
| "assign_step cp mo va s (SetValue x) = va s x"

fun assign_run ::
  "('s \<Rightarrow> 's \<Rightarrow> fault + 's) \<Rightarrow> ('s \<Rightarrow> 's \<Rightarrow> fault + 's \<times> 's) \<Rightarrow> ('s \<Rightarrow> 'a \<Rightarrow> fault + 's)
   \<Rightarrow> 's \<Rightarrow> ('s, 'a) assignment list \<Rightarrow> fault + 's" where
  "assign_run cp mo va s [] = Inr s"
| "assign_run cp mo va s (a # as) =
     bindR (assign_step cp mo va s a) (\<lambda>s'. assign_run cp mo va s' as)"

text \<open>What the user sees after one assignment, and the objects an assignment reads from.\<close>

fun assigned_view :: "('s \<Rightarrow> 'e + 'a) \<Rightarrow> ('s, 'a) assignment \<Rightarrow> 'e + 'a" where
  "assigned_view view (CopyFrom r) = view r"
| "assigned_view view (MoveFrom r) = view r"
| "assigned_view view (SetValue x) = Inr x"

fun source_ok :: "('s \<Rightarrow> bool) \<Rightarrow> ('s, 'a) assignment \<Rightarrow> bool" where
  "source_ok invar (CopyFrom r) = invar r"
| "source_ok invar (MoveFrom r) = invar r"
| "source_ok invar (SetValue x) = True"

text \<open>
  \<open>view\<close> is what a user sees of an object: the value, or why there is none. Copy and move
  assignment make the views equal; assigning a value makes it the view. None of them faults on
  objects that satisfy the invariant, and destruction leaves no live object behind.
\<close>

locale tagged_storage =
  fixes invar :: "'s \<Rightarrow> bool"
    and view :: "'s \<Rightarrow> 'e + 'a"
    and copy_assign :: "'s \<Rightarrow> 's \<Rightarrow> fault + 's"
    and move_assign :: "'s \<Rightarrow> 's \<Rightarrow> fault + 's \<times> 's"
    and value_assign :: "'s \<Rightarrow> 'a \<Rightarrow> fault + 's"
    and deref :: "'s \<Rightarrow> fault + 'a"
    and destruct :: "'s \<Rightarrow> fault + 's"
    and storage :: "'s \<Rightarrow> 'a cell"
  assumes copy_assign_law:
      "invar s \<Longrightarrow> invar r \<Longrightarrow> \<exists>s'. copy_assign s r = Inr s' \<and> invar s' \<and> view s' = view r"
    and move_assign_law:
      "invar s \<Longrightarrow> invar r \<Longrightarrow>
       \<exists>s' r'. move_assign s r = Inr (s', r') \<and> invar s' \<and> view s' = view r \<and> invar r'"
    and value_assign_law:
      "invar s \<Longrightarrow> \<exists>s'. value_assign s x = Inr s' \<and> invar s' \<and> view s' = Inr x"
    and deref_law: "invar s \<Longrightarrow> view s = Inr x \<Longrightarrow> deref s = Inr x"
    and destruct_law: "invar s \<Longrightarrow> \<exists>s'. destruct s = Inr s' \<and> storage s' = Uninit"
begin

lemma assign_step_ok:
  assumes "invar s" "source_ok invar a"
  shows "\<exists>s'. assign_step copy_assign move_assign value_assign s a = Inr s' \<and> invar s' \<and> view s' = assigned_view view a"
proof (cases a)
  case (CopyFrom r)
  with assms copy_assign_law show ?thesis by simp
next
  case (MoveFrom r)
  with assms move_assign_law [of s r] show ?thesis by auto
next
  case (SetValue x)
  with assms value_assign_law show ?thesis by simp
qed

lemma assign_run_ok:
  assumes "invar s" "\<forall>a \<in> set as. source_ok invar a"
  shows "\<exists>s'. assign_run copy_assign move_assign value_assign s as = Inr s' \<and> invar s' \<and>
         view s' = (if as = [] then view s else assigned_view view (last as))"
  using assms
proof (induction as arbitrary: s)
  case Nil
  then show ?case by simp
next
  case (Cons a as)
  from Cons.prems assign_step_ok [of s a]
  obtain s1 where s1: "assign_step copy_assign move_assign value_assign s a = Inr s1" "invar s1" "view s1 = assigned_view view a" by auto
  from Cons.IH [OF s1(2)] Cons.prems(2) s1 show ?case by auto
qed

lemma assign_run_deref:
  assumes "invar s" "\<forall>a \<in> set as. source_ok invar a" "as \<noteq> []" "assigned_view view (last as) = Inr x"
  shows "bindR (assign_run copy_assign move_assign value_assign s as) deref = Inr x"
  using assign_run_ok [OF assms(1,2)] assms(3,4) deref_law by auto

lemma assign_run_no_leak:
  assumes "invar s" "\<forall>a \<in> set as. source_ok invar a"
  shows "\<exists>s'. bindR (assign_run copy_assign move_assign value_assign s as) destruct = Inr s' \<and> storage s' = Uninit"
  using assign_run_ok [OF assms] destruct_law by auto

end

end
