(* ===== verification/Optional.thy ===== *)
theory Optional
  imports Lifetime
begin

text \<open>
  \<^verbatim>\<open>google::cloud::optional<T>\<close> of \<^verbatim>\<open>google/cloud/optional.h\<close>: raw storage for a \<^verbatim>\<open>T\<close> and the flag
  \<^verbatim>\<open>has_value_\<close>. Moving out of a \<^verbatim>\<open>T\<close> leaves it in some valid state of the type's choosing; the
  argument \<open>mv\<close> gives that state. Constructors of \<^verbatim>\<open>T\<close> are taken not to raise.
\<close>

record 'a optional =
  opt_buffer :: "'a cell"
  opt_has_value :: bool

section \<open>Construction\<close>

definition optional_default :: "'a optional" where
  "optional_default = \<lparr>opt_buffer = Uninit, opt_has_value = False\<rparr>"

definition optional_deref :: "'a optional \<Rightarrow> fault + 'a" where
  "optional_deref s = cell_get (opt_buffer s)"

definition optional_copy :: "'a optional \<Rightarrow> fault + 'a optional" where
  "optional_copy rhs =
     (let s = \<lparr>opt_buffer = Uninit, opt_has_value = opt_has_value rhs\<rparr> in
      if opt_has_value s then
        bindR (optional_deref rhs) (\<lambda>x.
        bindR (cell_new x (opt_buffer s)) (\<lambda>b. Inr (s\<lparr>opt_buffer := b\<rparr>)))
      else Inr s)"

definition optional_move :: "('a \<Rightarrow> 'a) \<Rightarrow> 'a optional \<Rightarrow> fault + 'a optional \<times> 'a optional" where
  "optional_move mv rhs =
     (let s = \<lparr>opt_buffer = Uninit, opt_has_value = opt_has_value rhs\<rparr> in
      if opt_has_value s then
        bindR (optional_deref rhs) (\<lambda>x.
        bindR (cell_new x (opt_buffer s)) (\<lambda>b.
        bindR (cell_set (mv x) (opt_buffer rhs)) (\<lambda>rb.
        Inr (s\<lparr>opt_buffer := b\<rparr>, rhs\<lparr>opt_buffer := rb\<rparr>))))
      else Inr (s, rhs))"

definition optional_of :: "'a \<Rightarrow> 'a optional" where
  "optional_of x = \<lparr>opt_buffer = Live x, opt_has_value = True\<rparr>"

definition make_optional :: "'a \<Rightarrow> 'a optional" where
  "make_optional t = optional_of t"

section \<open>Modifiers\<close>

definition optional_reset :: "'a optional \<Rightarrow> fault + 'a optional" where
  "optional_reset s =
     (if opt_has_value s then
        bindR (cell_destroy (opt_buffer s)) (\<lambda>b. Inr \<lparr>opt_buffer = b, opt_has_value = False\<rparr>)
      else Inr s)"

definition optional_destruct :: "'a optional \<Rightarrow> fault + 'a optional" where
  "optional_destruct s = optional_reset s"

definition optional_assign_copy :: "'a optional \<Rightarrow> 'a optional \<Rightarrow> fault + 'a optional" where
  "optional_assign_copy s rhs =
     (if \<not> opt_has_value s then
        (if \<not> opt_has_value rhs then Inr s
         else
           bindR (optional_deref rhs) (\<lambda>x.
           bindR (cell_new x (opt_buffer s)) (\<lambda>b.
           Inr \<lparr>opt_buffer = b, opt_has_value = True\<rparr>)))
      else if \<not> opt_has_value rhs then optional_reset s
      else
        bindR (optional_deref rhs) (\<lambda>x.
        bindR (cell_set x (opt_buffer s)) (\<lambda>b.
        Inr \<lparr>opt_buffer = b, opt_has_value = True\<rparr>)))"

text \<open>Moving out of \<^verbatim>\<open>rhs\<close> empties neither its flag nor its storage.\<close>

definition optional_assign_move ::
  "('a \<Rightarrow> 'a) \<Rightarrow> 'a optional \<Rightarrow> 'a optional \<Rightarrow> fault + 'a optional \<times> 'a optional" where
  "optional_assign_move mv s rhs =
     (if \<not> opt_has_value s then
        (if \<not> opt_has_value rhs then Inr (s, rhs)
         else
           bindR (optional_deref rhs) (\<lambda>x.
           bindR (cell_new x (opt_buffer s)) (\<lambda>b.
           bindR (cell_set (mv x) (opt_buffer rhs)) (\<lambda>rb.
           Inr (\<lparr>opt_buffer = b, opt_has_value = True\<rparr>, rhs\<lparr>opt_buffer := rb\<rparr>)))))
      else if \<not> opt_has_value rhs then bindR (optional_reset s) (\<lambda>s'. Inr (s', rhs))
      else
        bindR (optional_deref rhs) (\<lambda>x.
        bindR (cell_set x (opt_buffer s)) (\<lambda>b.
        bindR (cell_set (mv x) (opt_buffer rhs)) (\<lambda>rb.
        Inr (\<lparr>opt_buffer = b, opt_has_value = True\<rparr>, rhs\<lparr>opt_buffer := rb\<rparr>)))))"

text \<open>
  The same operator when \<^verbatim>\<open>rhs\<close> is the object itself: with a value, the move assignment of \<^verbatim>\<open>T\<close> is applied
  to the value and itself, and leaves \<open>smv x\<close> for \<open>x\<close>.
\<close>

definition optional_assign_move_self :: "('a \<Rightarrow> 'a) \<Rightarrow> 'a optional \<Rightarrow> fault + 'a optional" where
  "optional_assign_move_self smv s =
     (if \<not> opt_has_value s then Inr s
      else
        bindR (optional_deref s) (\<lambda>x.
        bindR (cell_set (smv x) (opt_buffer s)) (\<lambda>b.
        Inr \<lparr>opt_buffer = b, opt_has_value = True\<rparr>)))"

definition optional_assign_value :: "'a optional \<Rightarrow> 'a \<Rightarrow> fault + 'a optional" where
  "optional_assign_value s x =
     (if \<not> opt_has_value s then
        bindR (cell_new x (opt_buffer s)) (\<lambda>b. Inr \<lparr>opt_buffer = b, opt_has_value = True\<rparr>)
      else
        bindR (cell_set x (opt_buffer s)) (\<lambda>b. Inr \<lparr>opt_buffer = b, opt_has_value = True\<rparr>))"

definition optional_emplace :: "'a optional \<Rightarrow> 'a \<Rightarrow> fault + 'a optional" where
  "optional_emplace s x =
     bindR (optional_reset s) (\<lambda>s1.
     bindR (cell_new x (opt_buffer s1)) (\<lambda>b.
     Inr (s1\<lparr>opt_buffer := b, opt_has_value := True\<rparr>)))"

section \<open>Observers\<close>

definition optional_check_access :: "bool \<Rightarrow> 'a optional \<Rightarrow> fault + unit" where
  "optional_check_access have_ex s =
     (if opt_has_value s then Inr ()
      else Inl (Abn (ThrowLogicError have_ex ''access unset optional'')))"

definition optional_value :: "bool \<Rightarrow> 'a optional \<Rightarrow> fault + 'a" where
  "optional_value have_ex s = bindR (optional_check_access have_ex s) (\<lambda>_. optional_deref s)"

definition optional_value_or :: "'a optional \<Rightarrow> 'a \<Rightarrow> fault + 'a" where
  "optional_value_or s d = (if opt_has_value s then optional_deref s else Inr d)"

section \<open>Comparison\<close>

definition optional_eq :: "'a optional \<Rightarrow> 'a optional \<Rightarrow> fault + bool" where
  "optional_eq lhs rhs =
     (if opt_has_value lhs \<noteq> opt_has_value rhs then Inr False
      else if \<not> opt_has_value lhs then Inr True
      else bindR (optional_deref lhs) (\<lambda>a. bindR (optional_deref rhs) (\<lambda>b. Inr (a = b))))"

definition optional_less :: "('a::linorder) optional \<Rightarrow> 'a optional \<Rightarrow> fault + bool" where
  "optional_less lhs rhs =
     (if opt_has_value lhs then
        (if \<not> opt_has_value rhs then Inr False
         else bindR (optional_deref lhs) (\<lambda>a. bindR (optional_deref rhs) (\<lambda>b. Inr (a < b))))
      else Inr (opt_has_value rhs))"

text \<open>The derived operators go through \<^verbatim>\<open>std::rel_ops\<close>.\<close>

definition optional_neq :: "'a optional \<Rightarrow> 'a optional \<Rightarrow> fault + bool" where
  "optional_neq lhs rhs = bindR (optional_eq lhs rhs) (\<lambda>b. Inr (\<not> b))"

definition optional_greater :: "('a::linorder) optional \<Rightarrow> 'a optional \<Rightarrow> fault + bool" where
  "optional_greater lhs rhs = optional_less rhs lhs"

definition optional_geq :: "('a::linorder) optional \<Rightarrow> 'a optional \<Rightarrow> fault + bool" where
  "optional_geq lhs rhs = bindR (optional_less lhs rhs) (\<lambda>b. Inr (\<not> b))"

definition optional_leq :: "('a::linorder) optional \<Rightarrow> 'a optional \<Rightarrow> fault + bool" where
  "optional_leq lhs rhs = bindR (optional_less rhs lhs) (\<lambda>b. Inr (\<not> b))"

section \<open>Invariant and view\<close>

text \<open>The storage holds an object exactly when the flag says so.\<close>

definition optional_inv :: "'a optional \<Rightarrow> bool" where
  "optional_inv s \<longleftrightarrow> (opt_has_value s \<longleftrightarrow> alive (opt_buffer s))"

definition optional_view :: "'a optional \<Rightarrow> unit + 'a" where
  "optional_view s = (case opt_buffer s of Uninit \<Rightarrow> Inl () | Live x \<Rightarrow> Inr x)"

definition optional_abs :: "'a optional \<Rightarrow> 'a option" where
  "optional_abs s = (case opt_buffer s of Uninit \<Rightarrow> None | Live x \<Rightarrow> Some x)"

text \<open>The objects that satisfy the invariant are the default one and those holding a value.\<close>

lemma optional_inv_cases:
  assumes "optional_inv s"
  obtains (unset) "s = optional_default" | (set) x where "s = optional_of x"
  using assms
  by (cases s; cases "opt_buffer s") (auto simp: optional_inv_def optional_default_def optional_of_def)

lemma optional_basic [simp]:
  "optional_inv optional_default" "optional_inv (optional_of x)"
  "optional_view optional_default = Inl ()" "optional_view (optional_of x) = Inr x"
  "optional_abs optional_default = None" "optional_abs (optional_of x) = Some x"
  "opt_has_value (optional_of x)" "\<not> opt_has_value optional_default"
  "opt_buffer (optional_of x) = Live x" "opt_buffer optional_default = Uninit"
  "optional_deref (optional_of x) = Inr x"
  by (simp_all add: optional_inv_def optional_default_def optional_of_def optional_view_def
      optional_abs_def optional_deref_def)

lemma optional_build [simp]:
  "\<lparr>opt_buffer = Live x, opt_has_value = True\<rparr> = optional_of x"
  "\<lparr>opt_buffer = Uninit, opt_has_value = False\<rparr> = optional_default"
  "(optional_of x)\<lparr>opt_buffer := Live y\<rparr> = optional_of y"
  "optional_default\<lparr>opt_buffer := Live y, opt_has_value := True\<rparr> = optional_of y"
  by (simp_all add: optional_of_def optional_default_def)

lemma optional_assign_copy_simps [simp]:
  "optional_assign_copy optional_default optional_default = Inr optional_default"
  "optional_assign_copy optional_default (optional_of y) = Inr (optional_of y)"
  "optional_assign_copy (optional_of x) optional_default = Inr optional_default"
  "optional_assign_copy (optional_of x) (optional_of y) = Inr (optional_of y)"
  by (simp_all add: optional_assign_copy_def optional_reset_def)

lemma optional_assign_move_simps [simp]:
  "optional_assign_move mv optional_default optional_default = Inr (optional_default, optional_default)"
  "optional_assign_move mv optional_default (optional_of y) = Inr (optional_of y, optional_of (mv y))"
  "optional_assign_move mv (optional_of x) optional_default = Inr (optional_default, optional_default)"
  "optional_assign_move mv (optional_of x) (optional_of y) = Inr (optional_of y, optional_of (mv y))"
  by (simp_all add: optional_assign_move_def optional_reset_def)

lemma optional_assign_value_simps [simp]:
  "optional_assign_value optional_default y = Inr (optional_of y)"
  "optional_assign_value (optional_of x) y = Inr (optional_of y)"
  by (simp_all add: optional_assign_value_def)

lemma optional_reset_simps [simp]:
  "optional_reset optional_default = Inr optional_default"
  "optional_reset (optional_of x) = Inr optional_default"
  by (simp_all add: optional_reset_def)

text \<open>Assigning an optional to itself, by copy or by move, keeps the invariant and whether there is a value.\<close>

lemma optional_self_assign:
  assumes "optional_inv s"
  shows "optional_assign_copy s s = Inr s"
    "\<exists>s'. optional_assign_move_self smv s = Inr s' \<and> optional_inv s' \<and> opt_has_value s' = opt_has_value s \<and>
       (\<forall>x. optional_deref s = Inr x \<longrightarrow> optional_deref s' = Inr (smv x))"
  using assms by (cases s; cases "opt_buffer s";
      auto simp: optional_inv_def optional_assign_copy_def optional_assign_move_self_def optional_deref_def)+

interpretation opt: tagged_storage optional_inv optional_view optional_assign_copy
  "optional_assign_move mv" optional_assign_value optional_deref optional_destruct opt_buffer
proof (unfold_locales, goal_cases)
  case (1 s r)
  then show ?case by (elim optional_inv_cases) simp_all
next
  case (2 s r)
  then show ?case by (elim optional_inv_cases) simp_all
next
  case (3 s x)
  then show ?case by (elim optional_inv_cases) simp_all
next
  case (4 s x)
  then show ?case by (elim optional_inv_cases) simp_all
next
  case (5 s)
  then show ?case by (elim optional_inv_cases) (simp_all add: optional_destruct_def)
qed

section \<open>Behaviour of the remaining operations\<close>

lemma optional_copy_ok: "optional_inv r \<Longrightarrow> optional_copy r = Inr r"
  by (elim optional_inv_cases) (simp_all add: optional_copy_def Let_def)

lemma optional_move_ok:
  "optional_inv r \<Longrightarrow> \<exists>r'. optional_move mv r = Inr (r, r') \<and> optional_inv r'"
  by (elim optional_inv_cases) (simp_all add: optional_move_def Let_def)

lemma optional_emplace_ok: "optional_inv s \<Longrightarrow> optional_emplace s x = Inr (optional_of x)"
  by (elim optional_inv_cases) (simp_all add: optional_emplace_def)

lemma optional_value_ok:
  "optional_inv s \<Longrightarrow>
   optional_value have_ex s =
     (case optional_abs s of Some x \<Rightarrow> Inr x
      | None \<Rightarrow> Inl (Abn (ThrowLogicError have_ex ''access unset optional'')))"
  by (elim optional_inv_cases) (simp_all add: optional_value_def optional_check_access_def)

lemma optional_value_or_ok:
  "optional_inv s \<Longrightarrow> optional_value_or s d = Inr (case optional_abs s of Some x \<Rightarrow> x | None \<Rightarrow> d)"
  by (elim optional_inv_cases) (simp_all add: optional_value_or_def)

text \<open>Comparison agrees with the order on options in which the unset one is least.\<close>

fun option_less :: "('a::linorder) option \<Rightarrow> 'a option \<Rightarrow> bool" where
  "option_less (Some a) (Some b) = (a < b)"
| "option_less None (Some b) = True"
| "option_less a None = False"

lemma optional_eq_ok:
  "optional_inv a \<Longrightarrow> optional_inv b \<Longrightarrow> optional_eq a b = Inr (optional_abs a = optional_abs b)"
  by (elim optional_inv_cases) (simp_all add: optional_eq_def)

lemma optional_less_ok:
  "optional_inv a \<Longrightarrow> optional_inv b \<Longrightarrow>
   optional_less a b = Inr (option_less (optional_abs a) (optional_abs b))"
  by (elim optional_inv_cases) (simp_all add: optional_less_def)

lemma option_less_total:
  "option_less a b \<or> a = b \<or> option_less b a"
  by (cases a; cases b) auto

lemma option_less_irrefl: "\<not> option_less a a"
  by (cases a) auto

lemma option_less_trans: "option_less a b \<Longrightarrow> option_less b c \<Longrightarrow> option_less a c"
  by (cases a; cases b; cases c) auto

section \<open>Properties\<close>

text \<open>
  C24: starting from any \<^verbatim>\<open>optional\<close> whose flag agrees with its storage, every sequence of copy, move
  and value assignments runs without undefined behaviour, keeps the agreement, and leaves the
  object showing what was assigned last; destroying it afterwards leaves no live object.
\<close>

theorem optional_assignments_safe:
  assumes "optional_inv s" "\<forall>a \<in> set as. source_ok optional_inv a" "as \<noteq> []"
  shows "\<exists>s' s''. assign_run optional_assign_copy (optional_assign_move mv) optional_assign_value s as
            = Inr s' \<and> optional_inv s' \<and> optional_view s' = assigned_view optional_view (last as) \<and>
          optional_destruct s' = Inr s'' \<and> opt_buffer s'' = Uninit"
  using opt.assign_run_ok [OF assms(1,2), of mv] opt.assign_run_no_leak [OF assms(1,2), of mv] assms(3)
  by auto

theorem optional_assignments_safe_witness:
  "\<exists>s' s''. assign_run optional_assign_copy (optional_assign_move (\<lambda>x. 0)) optional_assign_value
             optional_default [SetValue (7 :: nat), MoveFrom (optional_of 9), CopyFrom optional_default]
            = Inr s' \<and> optional_inv s' \<and> optional_view s' = Inl () \<and>
          optional_destruct s' = Inr s'' \<and> opt_buffer s'' = Uninit"
  using optional_assignments_safe
    [of optional_default "[SetValue (7 :: nat), MoveFrom (optional_of 9), CopyFrom optional_default]"
      "\<lambda>x. 0"]
  by simp

text \<open>
  The comparison operators of \<^verbatim>\<open>optional\<close> never touch dead storage and implement the total
  order in which an unset object is below every set one.
\<close>

theorem optional_comparisons_total_order:
  assumes "optional_inv a" "optional_inv b"
  shows "optional_eq a b = Inr (optional_abs a = optional_abs b) \<and>
    optional_neq a b = Inr (optional_abs a \<noteq> optional_abs b) \<and>
    optional_less a b = Inr (option_less (optional_abs a) (optional_abs b)) \<and>
    optional_greater a b = Inr (option_less (optional_abs b) (optional_abs a)) \<and>
    optional_leq a b = Inr (optional_abs a = optional_abs b \<or> option_less (optional_abs a) (optional_abs b)) \<and>
    optional_geq a b = Inr (optional_abs a = optional_abs b \<or> option_less (optional_abs b) (optional_abs a))"
  using assms option_less_total [of "optional_abs a" "optional_abs b"] option_less_irrefl
    option_less_trans [of "optional_abs a" "optional_abs b" "optional_abs a"]
  by (auto simp: optional_eq_ok optional_less_ok optional_neq_def optional_greater_def
      optional_leq_def optional_geq_def)

theorem optional_comparisons_total_order_witness:
  "optional_less optional_default (optional_of (3 :: nat)) = Inr True"
  using optional_comparisons_total_order [of optional_default "optional_of (3 :: nat)"] by simp

end
