(* ===== verification/Status_Or.thy ===== *)
theory Status_Or
  imports Lifetime
begin

text \<open>
  \<^verbatim>\<open>google::cloud::StatusOr<T>\<close> of \<^verbatim>\<open>google/cloud/status_or.h\<close>: a \<^verbatim>\<open>Status\<close> and a union holding the
  value when the status is OK. \<open>mv\<close> is the state a moved-from \<^verbatim>\<open>T\<close> is left in and \<open>mvs\<close> that of a
  moved-from \<^verbatim>\<open>std::string\<close> (the message; the code of a moved-from status is unchanged).
  Constructors of \<^verbatim>\<open>T\<close> are taken not to raise.
\<close>

record 'a StatusOr =
  so_status :: Status
  so_value :: "'a cell"

definition Status_moved :: "(string \<Rightarrow> string) \<Rightarrow> Status \<Rightarrow> Status" where
  "Status_moved mvs st = st\<lparr>st_message := mvs (st_message st)\<rparr>"

section \<open>Construction\<close>

definition StatusOr_ok :: "'a StatusOr \<Rightarrow> bool" where
  "StatusOr_ok s = Status_ok (so_status s)"

text \<open>The explicit destructor calls, the dereference and the placement new act on the union.\<close>

definition StatusOr_deref :: "'a StatusOr \<Rightarrow> fault + 'a" where
  "StatusOr_deref s = cell_get (so_value s)"

definition StatusOr_of_status :: "bool \<Rightarrow> Status \<Rightarrow> fault + 'a StatusOr" where
  "StatusOr_of_status have_ex rhs =
     (if Status_ok rhs then Inl (Abn (ThrowInvalidArgument have_ex ''StatusOr''))
      else Inr \<lparr>so_status = rhs, so_value = Uninit\<rparr>)"

definition StatusOr_default :: "bool \<Rightarrow> fault + 'a StatusOr" where
  "StatusOr_default have_ex = StatusOr_of_status have_ex (mk_Status kUnknown ''default'')"

definition StatusOr_of_value :: "'a \<Rightarrow> 'a StatusOr" where
  "StatusOr_of_value x = \<lparr>so_status = Status_default, so_value = Live x\<rparr>"

definition make_status_or :: "'a \<Rightarrow> 'a StatusOr" where
  "make_status_or x = StatusOr_of_value x"

definition StatusOr_copy :: "'a StatusOr \<Rightarrow> fault + 'a StatusOr" where
  "StatusOr_copy rhs =
     (let s = \<lparr>so_status = so_status rhs, so_value = Uninit\<rparr> in
      if Status_ok (so_status s) then
        bindR (StatusOr_deref rhs) (\<lambda>x.
        bindR (cell_new x (so_value s)) (\<lambda>b. Inr (s\<lparr>so_value := b\<rparr>)))
      else Inr s)"

definition StatusOr_move ::
  "('a \<Rightarrow> 'a) \<Rightarrow> (string \<Rightarrow> string) \<Rightarrow> 'a StatusOr \<Rightarrow> fault + 'a StatusOr \<times> 'a StatusOr" where
  "StatusOr_move mv mvs rhs =
     (let s = \<lparr>so_status = so_status rhs, so_value = Uninit\<rparr>;
          r = rhs\<lparr>so_status := Status_moved mvs (so_status rhs)\<rparr> in
      if Status_ok (so_status s) then
        bindR (StatusOr_deref r) (\<lambda>x.
        bindR (cell_new x (so_value s)) (\<lambda>b.
        bindR (cell_set (mv x) (so_value r)) (\<lambda>rb.
        Inr (s\<lparr>so_value := b\<rparr>, r\<lparr>so_value := rb\<rparr>))))
      else Inr (s, r))"

section \<open>Assignment and destruction\<close>

definition StatusOr_assign_copy :: "'a StatusOr \<Rightarrow> 'a StatusOr \<Rightarrow> fault + 'a StatusOr" where
  "StatusOr_assign_copy s rhs =
     (if \<not> StatusOr_ok s then
        (if \<not> StatusOr_ok rhs then Inr (s\<lparr>so_status := so_status rhs\<rparr>)
         else
           bindR (StatusOr_deref rhs) (\<lambda>x.
           bindR (cell_new x (so_value s)) (\<lambda>b.
           Inr \<lparr>so_status = so_status rhs, so_value = b\<rparr>)))
      else if \<not> StatusOr_ok rhs then
        bindR (cell_destroy (so_value s)) (\<lambda>b.
        Inr \<lparr>so_status = so_status rhs, so_value = b\<rparr>)
      else
        bindR (StatusOr_deref rhs) (\<lambda>x.
        bindR (cell_set x (so_value s)) (\<lambda>b.
        Inr \<lparr>so_status = so_status rhs, so_value = b\<rparr>)))"

definition StatusOr_assign_move ::
  "('a \<Rightarrow> 'a) \<Rightarrow> (string \<Rightarrow> string) \<Rightarrow> 'a StatusOr \<Rightarrow> 'a StatusOr
   \<Rightarrow> fault + 'a StatusOr \<times> 'a StatusOr" where
  "StatusOr_assign_move mv mvs s rhs =
     (if \<not> StatusOr_ok s then
        (if \<not> StatusOr_ok rhs then
           Inr (s\<lparr>so_status := so_status rhs\<rparr>,
                rhs\<lparr>so_status := Status_moved mvs (so_status rhs)\<rparr>)
         else
           bindR (StatusOr_deref rhs) (\<lambda>x.
           bindR (cell_new x (so_value s)) (\<lambda>b.
           bindR (cell_set (mv x) (so_value rhs)) (\<lambda>rb.
           Inr (\<lparr>so_status = Status_default, so_value = b\<rparr>, rhs\<lparr>so_value := rb\<rparr>)))))
      else if \<not> StatusOr_ok rhs then
        bindR (cell_destroy (so_value s)) (\<lambda>b.
        Inr (\<lparr>so_status = so_status rhs, so_value = b\<rparr>,
             rhs\<lparr>so_status := Status_moved mvs (so_status rhs)\<rparr>))
      else
        bindR (StatusOr_deref rhs) (\<lambda>x.
        bindR (cell_set x (so_value s)) (\<lambda>b.
        bindR (cell_set (mv x) (so_value rhs)) (\<lambda>rb.
        Inr (\<lparr>so_status = Status_default, so_value = b\<rparr>, rhs\<lparr>so_value := rb\<rparr>)))))"

definition StatusOr_assign_value :: "'a StatusOr \<Rightarrow> 'a \<Rightarrow> fault + 'a StatusOr" where
  "StatusOr_assign_value s x =
     (if \<not> StatusOr_ok s then
        bindR (cell_new x (so_value s)) (\<lambda>b. Inr \<lparr>so_status = Status_default, so_value = b\<rparr>)
      else
        bindR (cell_set x (so_value s)) (\<lambda>b. Inr \<lparr>so_status = Status_default, so_value = b\<rparr>))"

definition StatusOr_destruct :: "'a StatusOr \<Rightarrow> fault + 'a StatusOr" where
  "StatusOr_destruct s =
     (if StatusOr_ok s then bindR (cell_destroy (so_value s)) (\<lambda>b. Inr (s\<lparr>so_value := b\<rparr>))
      else Inr s)"

text \<open>\<^verbatim>\<open>*this = StatusOr(std::move(status))\<close>: a temporary, moved from, then destroyed.\<close>

definition StatusOr_assign_status ::
  "bool \<Rightarrow> ('a \<Rightarrow> 'a) \<Rightarrow> (string \<Rightarrow> string) \<Rightarrow> 'a StatusOr \<Rightarrow> Status \<Rightarrow> fault + 'a StatusOr" where
  "StatusOr_assign_status have_ex mv mvs s st =
     bindR (StatusOr_of_status have_ex st) (\<lambda>tmp.
     bindR (StatusOr_assign_move mv mvs s tmp) (\<lambda>(s', tmp').
     bindR (StatusOr_destruct tmp') (\<lambda>_. Inr s')))"

section \<open>Observers\<close>

definition StatusOr_CheckHasValue :: "bool \<Rightarrow> 'a StatusOr \<Rightarrow> fault + unit" where
  "StatusOr_CheckHasValue have_ex s =
     (if \<not> StatusOr_ok s then Inl (Abn (ThrowStatus have_ex (so_status s))) else Inr ())"

definition StatusOr_value :: "bool \<Rightarrow> 'a StatusOr \<Rightarrow> fault + 'a" where
  "StatusOr_value have_ex s = bindR (StatusOr_CheckHasValue have_ex s) (\<lambda>_. StatusOr_deref s)"

definition StatusOr_eq :: "'a StatusOr \<Rightarrow> 'a StatusOr \<Rightarrow> fault + bool" where
  "StatusOr_eq a b =
     (if \<not> StatusOr_ok a \<or> \<not> StatusOr_ok b then Inr (Status_eq (so_status a) (so_status b))
      else bindR (StatusOr_deref a) (\<lambda>x. bindR (StatusOr_deref b) (\<lambda>y. Inr (x = y))))"

definition StatusOr_neq :: "'a StatusOr \<Rightarrow> 'a StatusOr \<Rightarrow> fault + bool" where
  "StatusOr_neq a b = bindR (StatusOr_eq a b) (\<lambda>e. Inr (\<not> e))"

section \<open>Invariant and view\<close>

text \<open>The union holds a live value exactly when the status is OK.\<close>

definition StatusOr_inv :: "'a StatusOr \<Rightarrow> bool" where
  "StatusOr_inv s \<longleftrightarrow> (StatusOr_ok s \<longleftrightarrow> alive (so_value s))"

definition StatusOr_view :: "'a StatusOr \<Rightarrow> Status + 'a" where
  "StatusOr_view s = (case so_value s of Uninit \<Rightarrow> Inl (so_status s) | Live x \<Rightarrow> Inr x)"

text \<open>The two shapes of an object that satisfies the invariant.\<close>

abbreviation (input) SO_err :: "Status \<Rightarrow> 'a StatusOr" where
  "SO_err st \<equiv> \<lparr>so_status = st, so_value = Uninit\<rparr>"

abbreviation (input) SO_val :: "Status \<Rightarrow> 'a \<Rightarrow> 'a StatusOr" where
  "SO_val st x \<equiv> \<lparr>so_status = st, so_value = Live x\<rparr>"

lemma StatusOr_inv_cases:
  assumes "StatusOr_inv s"
  obtains (err) st where "s = SO_err st" "\<not> Status_ok st"
    | (val) st x where "s = SO_val st x" "Status_ok st"
  using assms
  by (cases s; cases "so_value s") (auto simp: StatusOr_inv_def StatusOr_ok_def)

lemma Status_ok_moved [simp]: "Status_ok (Status_moved mvs st) = Status_ok st"
  by (simp add: Status_moved_def Status_ok_def)

lemmas StatusOr_obs [status_simps] = StatusOr_inv_def StatusOr_ok_def StatusOr_view_def StatusOr_deref_def

lemma StatusOr_of_value_inv [simp]: "StatusOr_inv (StatusOr_of_value x)"
  "StatusOr_view (StatusOr_of_value x) = Inr x" "StatusOr_ok (StatusOr_of_value x)"
  by (simp_all add: StatusOr_of_value_def status_simps)

lemma StatusOr_shapes [simp]:
  "StatusOr_inv (SO_err st) \<longleftrightarrow> \<not> Status_ok st" "StatusOr_inv (SO_val st x) \<longleftrightarrow> Status_ok st"
  "StatusOr_view (SO_err st) = Inl st" "StatusOr_view (SO_val st x) = Inr x"
  by (simp_all add: status_simps)

interpretation statusor: tagged_storage StatusOr_inv StatusOr_view StatusOr_assign_copy
  "StatusOr_assign_move mv mvs" StatusOr_assign_value StatusOr_deref StatusOr_destruct so_value
proof (unfold_locales, goal_cases)
  case (1 s r)
  then show ?case
    by (elim StatusOr_inv_cases) (simp_all add: StatusOr_assign_copy_def status_simps)
next
  case (2 s r)
  then show ?case
    by (elim StatusOr_inv_cases) (simp_all add: StatusOr_assign_move_def status_simps)
next
  case (3 s x)
  then show ?case
    by (elim StatusOr_inv_cases) (simp_all add: StatusOr_assign_value_def status_simps)
next
  case (4 s x)
  then show ?case
    by (elim StatusOr_inv_cases) (simp_all add: status_simps)
next
  case (5 s)
  then show ?case
    by (elim StatusOr_inv_cases) (simp_all add: StatusOr_destruct_def status_simps)
qed

section \<open>Behaviour of the remaining operations\<close>

lemma StatusOr_of_status_spec:
  "StatusOr_of_status have_ex st =
     (if Status_ok st then Inl (Abn (ThrowInvalidArgument have_ex ''StatusOr'')) else Inr (SO_err st))"
  by (simp add: StatusOr_of_status_def)

lemma StatusOr_default_spec: "StatusOr_default have_ex = Inr (SO_err (mk_Status kUnknown ''default''))"
  by (simp add: StatusOr_default_def StatusOr_of_status_def)

lemma StatusOr_copy_ok: "StatusOr_inv r \<Longrightarrow> StatusOr_copy r = Inr r"
  by (elim StatusOr_inv_cases) (simp_all add: StatusOr_copy_def status_simps Let_def)

lemma StatusOr_move_ok:
  "StatusOr_inv r \<Longrightarrow> \<exists>r'. StatusOr_move mv mvs r = Inr (r, r') \<and> StatusOr_inv r'"
  by (elim StatusOr_inv_cases) (simp_all add: StatusOr_move_def status_simps Let_def)

lemma StatusOr_assign_status_ok:
  assumes "StatusOr_inv s" "\<not> Status_ok st"
  shows "StatusOr_assign_status have_ex mv mvs s st = Inr (SO_err st)"
  using assms(1)
proof (cases rule: StatusOr_inv_cases)
  case (err st')
  with assms(2) show ?thesis
    by (simp add: StatusOr_assign_status_def StatusOr_of_status_def StatusOr_assign_move_def
        StatusOr_destruct_def status_simps)
next
  case (val st' x)
  with assms(2) show ?thesis
    by (simp add: StatusOr_assign_status_def StatusOr_of_status_def StatusOr_assign_move_def
        StatusOr_destruct_def status_simps)
qed

lemma StatusOr_value_ok:
  "StatusOr_inv s \<Longrightarrow>
   StatusOr_value have_ex s =
     (case StatusOr_view s of Inr x \<Rightarrow> Inr x | Inl st \<Rightarrow> Inl (Abn (ThrowStatus have_ex st)))"
  by (elim StatusOr_inv_cases)
    (simp_all add: StatusOr_value_def StatusOr_CheckHasValue_def status_simps)

lemma StatusOr_view_Inl_not_ok:
  "StatusOr_inv s \<Longrightarrow> StatusOr_view s = Inl st \<Longrightarrow> \<not> Status_ok st"
  by (elim StatusOr_inv_cases) (auto simp: status_simps)

lemma StatusOr_eq_ok:
  "StatusOr_inv a \<Longrightarrow> StatusOr_inv b \<Longrightarrow>
   StatusOr_eq a b = Inr (StatusOr_view a = StatusOr_view b)"
  by (elim StatusOr_inv_cases) (auto simp: StatusOr_eq_def status_simps)

section \<open>The abstract result carried by a StatusOr\<close>

text \<open>
  The other components pass \<^verbatim>\<open>StatusOr<T>\<close> values around without looking at the storage: they use
  the view, with a non-OK status on the left.
\<close>

type_synonym 'a status_or = "Status + 'a"

definition StatusOr_rep :: "'a status_or \<Rightarrow> 'a StatusOr" where
  "StatusOr_rep r = (case r of Inl st \<Rightarrow> SO_err st | Inr x \<Rightarrow> StatusOr_of_value x)"

lemma StatusOr_view_rep [simp]: "StatusOr_view (StatusOr_rep r) = r"
  by (cases r) (simp_all add: StatusOr_rep_def StatusOr_of_value_def StatusOr_view_def)

lemma StatusOr_inv_rep: "(\<And>st. r = Inl st \<Longrightarrow> \<not> Status_ok st) \<Longrightarrow> StatusOr_inv (StatusOr_rep r)"
  by (cases r) (simp_all add: StatusOr_rep_def status_simps StatusOr_of_value_def)

section \<open>Properties\<close>

text \<open>
  C25: starting from any \<^verbatim>\<open>StatusOr\<close> in which the union is alive exactly when the status is OK, every
  sequence of copy, move and value assignments runs without undefined behaviour, keeps that
  agreement, and leaves the object showing what was assigned last; destroying it afterwards
  leaves no live value behind.
\<close>

theorem StatusOr_assignments_safe:
  assumes "StatusOr_inv s" "\<forall>a \<in> set as. source_ok StatusOr_inv a" "as \<noteq> []"
  shows "\<exists>s' s''. assign_run StatusOr_assign_copy (StatusOr_assign_move mv mvs) StatusOr_assign_value s as
            = Inr s' \<and> StatusOr_inv s' \<and> StatusOr_view s' = assigned_view StatusOr_view (last as) \<and>
          StatusOr_destruct s' = Inr s'' \<and> so_value s'' = Uninit"
  using statusor.assign_run_ok [OF assms(1,2), of mv mvs]
    statusor.assign_run_no_leak [OF assms(1,2), of mv mvs] assms(3)
  by auto

theorem StatusOr_assignments_safe_witness:
  "\<exists>s' s''. assign_run StatusOr_assign_copy (StatusOr_assign_move (\<lambda>x. 0) (\<lambda>m. [])) StatusOr_assign_value
             (SO_err (mk_Status kNotFound ''a'')) [SetValue (7 :: nat), MoveFrom (StatusOr_of_value 9)]
            = Inr s' \<and> StatusOr_inv s' \<and> StatusOr_view s' = Inr 9 \<and>
          StatusOr_destruct s' = Inr s'' \<and> so_value s'' = Uninit"
  using StatusOr_assignments_safe
    [of "SO_err (mk_Status kNotFound ''a'')" "[SetValue (7 :: nat), MoveFrom (StatusOr_of_value 9)]"
      "\<lambda>x. 0" "\<lambda>m. []"]
  by simp

text \<open>
  C32: a \<^verbatim>\<open>StatusOr\<close> can be built from a status exactly when that status is an error; assigning an
  error status replaces the contents, and assigning an OK status raises
  \<^verbatim>\<open>std::invalid_argument\<close> (or terminates) and \<^verbatim>\<open>value()\<close> on an error raises that error.
\<close>

theorem StatusOr_error_contract:
  fixes s :: "'a StatusOr"
  assumes "StatusOr_inv s"
  shows "(StatusOr_of_status have_ex st = (Inr r :: fault + 'a StatusOr) \<longleftrightarrow>
            \<not> Status_ok st \<and> StatusOr_view r = Inl st \<and> r = SO_err st) \<and>
         StatusOr_assign_status have_ex mv mvs s st =
           (if Status_ok st then Inl (Abn (ThrowInvalidArgument have_ex ''StatusOr''))
            else Inr (SO_err st)) \<and>
         StatusOr_value have_ex s =
           (case StatusOr_view s of Inr x \<Rightarrow> Inr x | Inl e \<Rightarrow> Inl (Abn (ThrowStatus have_ex e)))"
proof -
  have "Status_ok st \<Longrightarrow> StatusOr_assign_status have_ex mv mvs s st =
      Inl (Abn (ThrowInvalidArgument have_ex ''StatusOr''))"
    by (simp add: StatusOr_assign_status_def StatusOr_of_status_def)
  then show ?thesis
    using StatusOr_assign_status_ok [OF assms] StatusOr_value_ok [OF assms]
    by (auto simp: StatusOr_of_status_def StatusOr_view_def)
qed

theorem StatusOr_error_contract_witness:
  "StatusOr_value True (SO_err (mk_Status kAborted ''x'') :: nat StatusOr)
     = Inl (Abn (Thrown (RuntimeStatusError (mk_Status kAborted ''x''))))"
  using StatusOr_error_contract [of "SO_err (mk_Status kAborted ''x'') :: nat StatusOr" True
      Status_default "SO_err Status_default" id id]
  by (simp add: ThrowStatus_def)

end
