(* ===== verification/Big_Endian.thy ===== *)
theory Big_Endian
  imports Status_Or
begin

unbundle bit_operations_syntax

text \<open>
  The fixed-width integer codec of \<^verbatim>\<open>google/cloud/internal/big_endian.h\<close>. An object of an integral
  type \<^verbatim>\<open>T\<close> is its bit pattern, a word of \<^verbatim>\<open>T\<close>'s width: the casts to and from the unsigned type in
  the source read the same bits, and signed values are read off with \<^term>\<open>sint\<close>. A
  \<^verbatim>\<open>std::string\<close> of encoded data is a list of bytes.
\<close>

type_synonym bytes = "8 word list"

definition sizeof :: "'a::len word itself \<Rightarrow> nat" where
  "sizeof _ = LENGTH('a) div 8"

text \<open>The loop over the array: \<open>k\<close> bytes are still to be written.\<close>

fun encode_loop :: "'a::len word \<Rightarrow> nat \<Rightarrow> nat \<Rightarrow> bytes" where
  "encode_loop n shift 0 = []"
| "encode_loop n shift (Suc k) =
     (let shift' = shift - 8 in ucast (drop_bit shift' n) # encode_loop n shift' k)"

definition EncodeBigEndian :: "'a::len word \<Rightarrow> bytes" where
  "EncodeBigEndian value = encode_loop value (sizeof TYPE('a word) * 8) (sizeof TYPE('a word))"

fun decode_loop :: "bytes \<Rightarrow> nat \<Rightarrow> 'a::len word \<Rightarrow> 'a word" where
  "decode_loop [] shift result = result"
| "decode_loop (c # cs) shift result =
     (let shift' = shift - 8 in decode_loop cs shift' (result OR push_bit shift' (ucast c)))"

definition DecodeBigEndian :: "bytes \<Rightarrow> 'a::len word status_or" where
  "DecodeBigEndian value =
     (if length value \<noteq> sizeof TYPE('a word) then
        Inl (mk_Status kInvalidArgument
          (''Given value with '' @ nat_to_dec (length value) @ '' bytes; expected ''
             @ nat_to_dec (sizeof TYPE('a word))))
      else Inr (decode_loop value (sizeof TYPE('a word) * 8) 0))"

section \<open>Lemmas\<close>

lemma length_encode_loop [simp]: "length (encode_loop n s k) = k"
  by (induction k arbitrary: s) (simp_all add: Let_def)

lemma byte_at_top:
  fixes n :: "'a::len word"
  assumes "8 * k + 8 \<le> LENGTH('a)"
  shows "push_bit (8 * k) (ucast (ucast (drop_bit (8 * k) n) :: 8 word)) OR take_bit (8 * k) n
         = take_bit (8 * k + 8) n"
  by (rule bit_eqI) (use assms in \<open>auto simp: bit_simps\<close>)

lemma decode_encode_loop:
  fixes n r :: "'a::len word"
  assumes "8 * k \<le> LENGTH('a)"
  shows "decode_loop (encode_loop n (8 * k) k) (8 * k) r = r OR take_bit (8 * k) n"
  using assms
proof (induction k arbitrary: r)
  case 0
  then show ?case by simp
next
  case (Suc k)
  then have le: "8 * k \<le> LENGTH('a)" and top: "8 * k + 8 \<le> LENGTH('a)" by simp_all
  from Suc.IH [OF le] byte_at_top [OF top, of n] show ?case
    by (simp add: Let_def or.assoc add.commute)
qed

lemma decode_loop_acc:
  "decode_loop cs s (r :: 'a::len word) = r OR decode_loop cs s 0"
proof (induction cs arbitrary: s r)
  case Nil
  then show ?case by simp
next
  case (Cons c cs)
  show ?case
    by (simp add: Let_def Cons.IH [of "s - 8" "r OR push_bit (s - 8) (ucast c)"]
        Cons.IH [of "s - 8" "push_bit (s - 8) (ucast c)"] or.assoc)
qed

lemma decode_loop_Cons:
  "decode_loop (c # cs) (8 * length (c # cs)) (0 :: 'a::len word)
   = push_bit (8 * length cs) (ucast c) OR decode_loop cs (8 * length cs) 0"
  by (simp add: Let_def decode_loop_acc [of cs _ "push_bit _ _"])

lemma decode_loop_high_bits:
  "8 * length cs \<le> i \<Longrightarrow> \<not> bit (decode_loop cs (8 * length cs) (0 :: 'a::len word)) i"
proof (induction cs)
  case Nil
  then show ?case by simp
next
  case (Cons c cs)
  have "\<not> bit c (i - 8 * length cs)"
    using Cons.prems bit_imp_le_length [of c "i - 8 * length cs"] by auto
  with Cons show ?case
    unfolding decode_loop_Cons by (simp add: bit_simps)
qed

lemma encode_loop_low_bits:
  fixes m n :: "'a::len word"
  assumes "\<And>i. i < 8 * k \<Longrightarrow> bit m i = bit n i"
  shows "encode_loop m (8 * k) k = encode_loop n (8 * k) k"
  using assms
proof (induction k)
  case 0
  then show ?case by simp
next
  case (Suc k)
  have "(ucast (drop_bit (8 * k) m) :: 8 word) = ucast (drop_bit (8 * k) n)"
    by (rule bit_eqI) (use Suc.prems in \<open>auto simp: bit_simps\<close>)
  with Suc show ?case by (simp add: Let_def add.commute)
qed

lemma encode_decode_loop:
  assumes "8 * length cs \<le> LENGTH('a)"
  shows "encode_loop (decode_loop cs (8 * length cs) (0 :: 'a::len word)) (8 * length cs) (length cs) = cs"
  using assms
proof (induction cs)
  case Nil
  then show ?case by simp
next
  case (Cons c cs)
  let ?k = "length cs"
  let ?d = "decode_loop cs (8 * ?k) (0 :: 'a word)"
  let ?D = "push_bit (8 * ?k) (ucast c) OR ?d"
  have head: "ucast (drop_bit (8 * ?k) ?D) = c"
    by (rule bit_eqI) (use Cons.prems in \<open>auto simp: bit_simps decode_loop_high_bits\<close>)
  have "encode_loop ?D (8 * ?k) ?k = encode_loop ?d (8 * ?k) ?k"
    by (rule encode_loop_low_bits) (simp add: bit_simps)
  also have "\<dots> = cs" using Cons by simp
  finally have tail: "encode_loop ?D (8 * ?k) ?k = cs" .
  have "encode_loop ?D (8 * length (c # cs)) (length (c # cs)) = c # cs"
    using head tail by (simp add: Let_def)
  then show ?case unfolding decode_loop_Cons .
qed

section \<open>Properties\<close>

text \<open>
  C34: for every integral type of a whole number of bytes, decoding what \<^verbatim>\<open>EncodeBigEndian\<close> wrote
  gives the value back, and re-encoding what \<^verbatim>\<open>DecodeBigEndian\<close> accepted gives the bytes back;
  the decoder accepts exactly the strings of the type's size.
\<close>

theorem big_endian_roundtrip:
  assumes "8 dvd LENGTH('a::len)"
  shows "DecodeBigEndian (EncodeBigEndian (x :: 'a word)) = Inr x \<and>
         (DecodeBigEndian bs = Inr x \<longrightarrow> EncodeBigEndian x = bs) \<and>
         ((\<exists>y :: 'a word. DecodeBigEndian bs = Inr y) \<longleftrightarrow> length bs = sizeof TYPE('a word))"
proof -
  let ?k = "sizeof TYPE('a word)"
  have k: "?k * 8 = LENGTH('a)" "8 * ?k = LENGTH('a)" using assms by (simp_all add: sizeof_def)
  have "decode_loop (encode_loop x (8 * ?k) ?k) (8 * ?k) 0 = x"
    using k(2) by (subst decode_encode_loop) simp_all
  then have 1: "DecodeBigEndian (EncodeBigEndian x) = Inr x"
    by (simp add: DecodeBigEndian_def EncodeBigEndian_def mult.commute)
  have 2: "EncodeBigEndian x = bs" if "DecodeBigEndian bs = Inr x"
  proof -
    from that have len: "length bs = ?k" and x: "x = decode_loop bs (8 * ?k) 0"
      by (auto simp: DecodeBigEndian_def mult.commute split: if_splits)
    show ?thesis
      using encode_decode_loop [of bs, where 'a = 'a] k(2)
      unfolding EncodeBigEndian_def x len by (simp add: mult.commute)
  qed
  from 1 2 show ?thesis by (auto simp: DecodeBigEndian_def)
qed

theorem big_endian_roundtrip_witness:
  "DecodeBigEndian (EncodeBigEndian (0x12345678 :: 32 word)) = Inr (0x12345678 :: 32 word)"
  using big_endian_roundtrip [of "0x12345678 :: 32 word" "[]"] by simp

text \<open>
  A signed value survives the round trip: the decoder of the signed type returns the encoded
  number, for every value of the type's range.
\<close>

theorem big_endian_signed_roundtrip:
  assumes "8 dvd LENGTH('a::len)" "- (2 ^ (LENGTH('a) - 1)) \<le> i" "i < 2 ^ (LENGTH('a) - 1)"
  shows "\<exists>y :: 'a word. DecodeBigEndian (EncodeBigEndian (word_of_int i :: 'a word)) = Inr y \<and> sint y = i"
proof -
  have "sint (word_of_int i :: 'a word) = i"
    using assms(2,3) by (simp add: sint_sbintrunc' signed_take_bit_int_eq_self)
  moreover have "DecodeBigEndian (EncodeBigEndian (word_of_int i :: 'a word)) = Inr (word_of_int i :: 'a word)"
    using decode_encode_loop [of "sizeof TYPE('a word)" "word_of_int i :: 'a word" 0] assms(1)
    by (simp add: DecodeBigEndian_def EncodeBigEndian_def sizeof_def mult.commute)
  ultimately show ?thesis by blast
qed

theorem big_endian_signed_roundtrip_witness:
  "\<exists>y :: 16 word. DecodeBigEndian (EncodeBigEndian (word_of_int (- 300) :: 16 word)) = Inr y \<and>
     sint y = - 300"
  using big_endian_signed_roundtrip [of "- 300", where 'a = 16] by simp

end
