(* ===== verification/Civil_Time.thy ===== *)
theory Civil_Time
  imports Prelude
begin

text \<open>
  The calendar functions of the C library that the time conversions call: \<^verbatim>\<open>struct tm\<close>, the
  proleptic Gregorian calendar, \<^verbatim>\<open>gmtime_r\<close>, \<^verbatim>\<open>mktime\<close>, and the integral seconds of
  \<^verbatim>\<open>std::chrono::system_clock\<close> (nanosecond ticks kept in 64 bits, as in libstdc++). \<^verbatim>\<open>mktime\<close> reads
  local time. The local zone is a parameter \<open>zone\<close>: the offset of its standard time, in seconds east
  of UTC, that \<^verbatim>\<open>mktime\<close> applies to a civil time (given as its seconds count). It may change over
  the years, as the zones of the time zone database do; both callers leave \<^verbatim>\<open>tm_isdst\<close> at 0, so that
  daylight saving time is never applied.
\<close>

record tm =
  tm_year :: int
  tm_mon :: nat
  tm_mday :: int
  tm_hour :: int
  tm_min :: int
  tm_sec :: int

definition leap :: "int \<Rightarrow> bool" where
  "leap y \<longleftrightarrow> y mod 4 = 0 \<and> (y mod 100 \<noteq> 0 \<or> y mod 400 = 0)"

definition days_in_year :: "int \<Rightarrow> int" where
  "days_in_year y = (if leap y then 366 else 365)"

definition days_in_month :: "int \<Rightarrow> nat \<Rightarrow> int" where
  "days_in_month y m =
     (if m = 1 then (if leap y then 29 else 28)
      else if m \<in> {3, 5, 8, 10} then 30 else 31)"

text \<open>Days from the start of year 1 to the start of year \<open>y\<close>.\<close>

definition year_days :: "int \<Rightarrow> int" where
  "year_days y = 365 * (y - 1) + (y - 1) div 4 - (y - 1) div 100 + (y - 1) div 400"

text \<open>Days from the start of the year to the start of month \<open>m\<close>, counted from 0.\<close>

fun month_days :: "int \<Rightarrow> nat \<Rightarrow> int" where
  "month_days y 0 = 0"
| "month_days y (Suc m) = month_days y m + days_in_month y m"

definition civil_days :: "int \<Rightarrow> nat \<Rightarrow> int \<Rightarrow> int" where
  "civil_days y m d = year_days y - year_days 1970 + month_days y m + (d - 1)"

definition timegm :: "tm \<Rightarrow> int" where
  "timegm t = civil_days (tm_year t + 1900) (tm_mon t) (tm_mday t) * 86400
     + tm_hour t * 3600 + tm_min t * 60 + tm_sec t"

definition mktime :: "(int \<Rightarrow> int) \<Rightarrow> tm \<Rightarrow> int" where
  "mktime zone t = timegm t - zone (timegm t)"

text \<open>No zone is a day or more away from UTC.\<close>

definition zone_ok :: "(int \<Rightarrow> int) \<Rightarrow> bool" where
  "zone_ok zone \<longleftrightarrow> (\<forall>c. \<bar>zone c\<bar> \<le> 86400)"

text \<open>The year and month of a day number: step one year (month) at a time.\<close>

function civil_year :: "int \<Rightarrow> int \<Rightarrow> int \<times> int" where
  "civil_year y d =
     (if d < 0 then civil_year (y - 1) (d + days_in_year (y - 1))
      else if days_in_year y \<le> d then civil_year (y + 1) (d - days_in_year y)
      else (y, d))"
  by pat_completeness auto
termination
  by (relation "measure (\<lambda>(y, d). if d < 0 then nat (- d) else if days_in_year y \<le> d then nat d else 0)")
    (auto simp: days_in_year_def split: if_splits)

declare civil_year.simps [simp del]

function civil_month :: "int \<Rightarrow> nat \<Rightarrow> int \<Rightarrow> nat \<times> int" where
  "civil_month y m d =
     (if m < 11 \<and> days_in_month y m \<le> d then civil_month y (Suc m) (d - days_in_month y m)
      else (m, d))"
  by pat_completeness auto
termination
  by (relation "measure (\<lambda>(y, m, d). 11 - m)") auto

declare civil_month.simps [simp del]

definition gmtime :: "int \<Rightarrow> tm" where
  "gmtime t =
     (let (y, yd) = civil_year 1970 (t div 86400);
          (m, d) = civil_month y 0 yd;
          s = t mod 86400
      in \<lparr>tm_year = y - 1900, tm_mon = m, tm_mday = d + 1,
          tm_hour = s div 3600, tm_min = (s div 60) mod 60, tm_sec = s mod 60\<rparr>)"

section \<open>Lemmas\<close>

lemma div_pred:
  fixes y k :: int
  assumes "0 < k"
  shows "(y - 1) div k = (if y mod k = 0 then y div k - 1 else y div k)"
proof (cases "y mod k = 0")
  case True
  then have "y - 1 = k * (y div k - 1) + (k - 1)"
    using mult_div_mod_eq [of k y] by (simp add: algebra_simps)
  from int_div_pos_eq [OF this] assms True show ?thesis by simp
next
  case False
  have "y - 1 = k * (y div k) + (y mod k - 1)"
    using mult_div_mod_eq [of k y] by simp
  moreover have "0 \<le> y mod k - 1" "y mod k - 1 < k"
    using False pos_mod_bound [OF assms, of y] pos_mod_sign [OF assms, of y] by linarith+
  ultimately have "(y - 1) div k = y div k" by (rule int_div_pos_eq)
  with False show ?thesis by simp
qed

lemma mod_dvd_zero:
  fixes y :: int
  shows "y mod 100 = 0 \<Longrightarrow> y mod 4 = 0" "y mod 400 = 0 \<Longrightarrow> y mod 100 = 0"
  using mod_mod_cancel [of 4 100 y] mod_mod_cancel [of 100 400 y] by simp_all

lemma leap_rule:
  "(b \<Longrightarrow> a) \<Longrightarrow> (c \<Longrightarrow> b) \<Longrightarrow>
   365 + (if a then 1 else 0) - (if b then 1 else 0) + (if c then 1 else 0)
   = (if a \<and> (\<not> b \<or> c) then 366 else (365 :: int))"
  by (cases a; cases b; cases c) simp_all

lemma year_days_Suc: "year_days (y + 1) = year_days y + days_in_year y"
proof -
  have eq: "year_days (y + 1) - year_days y =
      365 + (y div 4 - (y - 1) div 4) - (y div 100 - (y - 1) div 100) + (y div 400 - (y - 1) div 400)"
    by (simp add: year_days_def)
  have "year_days (y + 1) - year_days y = 365 + (if y mod 4 = 0 then 1 else 0)
      - (if y mod 100 = 0 then 1 else 0) + (if y mod 400 = 0 then 1 else 0)"
    unfolding eq div_pred [of 4 y, simplified] div_pred [of 100 y, simplified]
      div_pred [of 400 y, simplified] by simp
  also have "\<dots> = days_in_year y"
    unfolding days_in_year_def leap_def by (rule leap_rule) (fact mod_dvd_zero)+
  finally show ?thesis by linarith
qed

lemma days_in_year_pos: "0 < days_in_year y"
  by (simp add: days_in_year_def)

lemma year_days_mono: "y \<le> z \<Longrightarrow> year_days y \<le> year_days z"
proof (induction z rule: int_ge_induct)
  case base
  then show ?case by simp
next
  case (step z)
  then show ?case using year_days_Suc [of z] days_in_year_pos [of z] by simp
qed

lemma civil_year_spec:
  "civil_year y d = (y', d') \<Longrightarrow>
   year_days y' + d' = year_days y + d \<and> 0 \<le> d' \<and> d' < days_in_year y'"
proof (induction y d rule: civil_year.induct)
  case (1 y d)
  consider "d < 0" | "0 \<le> d" "days_in_year y \<le> d" | "0 \<le> d" "d < days_in_year y"
    by linarith
  then show ?case
  proof cases
    case a: 1
    then show ?thesis
      using "1.IH"(1) "1.prems" year_days_Suc [of "y - 1"] by (simp add: civil_year.simps [of y d])
  next
    case 2
    then show ?thesis
      using "1.IH"(2) "1.prems" year_days_Suc [of y] by (simp add: civil_year.simps [of y d])
  next
    case 3
    then show ?thesis using "1.prems" by (simp add: civil_year.simps [of y d])
  qed
qed

lemma days_in_month_pos: "0 < days_in_month y m"
  by (simp add: days_in_month_def)

lemma days_in_month_le: "days_in_month y m \<le> 31"
  by (simp add: days_in_month_def)

lemma month_days_12: "month_days y 12 = days_in_year y"
  by (simp add: eval_nat_numeral days_in_month_def days_in_year_def)

lemma month_days_11: "month_days y 11 + days_in_month y 11 = days_in_year y"
  using month_days_12 [of y] month_days.simps(2) [of y 11] by simp

lemma civil_month_spec:
  "civil_month y m d = (m', d') \<Longrightarrow> m \<le> 11 \<Longrightarrow> 0 \<le> d \<Longrightarrow> month_days y m + d < days_in_year y \<Longrightarrow>
   month_days y m' + d' = month_days y m + d \<and> m' \<le> 11 \<and> 0 \<le> d' \<and> d' < days_in_month y m'"
proof (induction y m d rule: civil_month.induct)
  case (1 y m d)
  show ?case
  proof (cases "m < 11 \<and> days_in_month y m \<le> d")
    case True
    with 1 show ?thesis by (simp add: civil_month.simps [of y m d])
  next
    case False
    have "d < days_in_month y m"
    proof (cases "m = 11")
      case True
      with "1.prems" month_days_11 [of y] show ?thesis by simp
    next
      case m: False
      with False "1.prems" show ?thesis by simp
    qed
    with False "1.prems" show ?thesis by (simp add: civil_month.simps [of y m d])
  qed
qed

text \<open>The broken-down time of \<^verbatim>\<open>gmtime_r\<close> is in range, and \<^verbatim>\<open>timegm\<close> undoes it.\<close>

definition tm_ok :: "tm \<Rightarrow> bool" where
  "tm_ok t \<longleftrightarrow> tm_mon t \<le> 11 \<and> 1 \<le> tm_mday t \<and> tm_mday t \<le> days_in_month (tm_year t + 1900) (tm_mon t) \<and>
     0 \<le> tm_hour t \<and> tm_hour t < 24 \<and> 0 \<le> tm_min t \<and> tm_min t < 60 \<and> 0 \<le> tm_sec t \<and> tm_sec t < 60"

lemma gmtime_date:
  "let Y = tm_year (gmtime t) + 1900; D = tm_mday (gmtime t) - 1 in
   year_days Y + month_days Y (tm_mon (gmtime t)) + D = year_days 1970 + t div 86400 \<and>
   tm_mon (gmtime t) \<le> 11 \<and> 0 \<le> D \<and> D < days_in_month Y (tm_mon (gmtime t)) \<and>
   year_days Y \<le> year_days 1970 + t div 86400 \<and> year_days 1970 + t div 86400 < year_days (Y + 1)"
proof -
  obtain y yd where y: "civil_year 1970 (t div 86400) = (y, yd)" by fastforce
  obtain m d where m: "civil_month y 0 yd = (m, d)" by fastforce
  from civil_year_spec [OF y] civil_month_spec [OF m] y m show ?thesis
    by (simp add: gmtime_def Let_def year_days_Suc)
qed

lemma gmtime_ok: "tm_ok (gmtime t)"
proof -
  have "0 \<le> tm_hour (gmtime t)" "tm_hour (gmtime t) < 24" "0 \<le> tm_min (gmtime t)"
    "tm_min (gmtime t) < 60" "0 \<le> tm_sec (gmtime t)" "tm_sec (gmtime t) < 60"
    by (auto simp: gmtime_def Let_def split: prod.splits)
  with gmtime_date [of t] show ?thesis by (auto simp: tm_ok_def Let_def)
qed

lemma timegm_gmtime: "timegm (gmtime t) = t"
proof -
  have "civil_days (tm_year (gmtime t) + 1900) (tm_mon (gmtime t)) (tm_mday (gmtime t)) = t div 86400"
    using gmtime_date [of t] by (simp add: civil_days_def Let_def)
  moreover have "tm_hour (gmtime t) * 3600 + tm_min (gmtime t) * 60 + tm_sec (gmtime t) = t mod 86400"
  proof -
    have "s div 3600 * 3600 + s div 60 mod 60 * 60 + s mod 60 = s" for s :: int
    proof -
      have "s div 3600 = s div 60 div 60" using zdiv_zmult2_eq [of 60 s 60] by simp
      moreover have "s div 60 div 60 * 60 + s div 60 mod 60 = s div 60" "s div 60 * 60 + s mod 60 = s"
        by (simp_all only: div_mult_mod_eq)
      ultimately show ?thesis by linarith
    qed
    then show ?thesis by (simp add: gmtime_def Let_def split: prod.splits)
  qed
  ultimately show ?thesis
    unfolding timegm_def using div_mult_mod_eq [of t 86400] by linarith
qed

lemma gmtime_year_bounds:
  assumes "year_days a * 86400 \<le> year_days 1970 * 86400 + t" "year_days 1970 * 86400 + t < year_days b * 86400"
  shows "a \<le> tm_year (gmtime t) + 1900" "tm_year (gmtime t) + 1900 < b"
proof -
  let ?Y = "tm_year (gmtime t) + 1900"
  have lo: "year_days ?Y \<le> year_days 1970 + t div 86400" and hi: "year_days 1970 + t div 86400 < year_days (?Y + 1)"
    using gmtime_date [of t] by (simp_all add: Let_def)
  from assms(1) have "year_days a \<le> year_days 1970 + t div 86400" by linarith
  with hi year_days_mono [of "?Y + 1" a] show "a \<le> ?Y" by linarith
  from assms(2) have "year_days 1970 + t div 86400 < year_days b" by linarith
  with lo year_days_mono [of b ?Y] show "?Y < b" by linarith
qed

text \<open>Every instant from the epoch on that fits the clock falls in the years 1970 to 2262.\<close>

lemma gmtime_year_clock:
  assumes "0 \<le> t" "t \<le> 9223372036"
  shows "1970 \<le> tm_year (gmtime t) + 1900" "tm_year (gmtime t) + 1900 < 2263"
proof -
  have "year_days 1970 * 86400 \<le> year_days 1970 * 86400 + t" using assms by simp
  moreover have "year_days 1970 * 86400 + t < year_days 2263 * 86400"
    using assms(2) by (simp add: year_days_def)
  ultimately show "1970 \<le> tm_year (gmtime t) + 1900" "tm_year (gmtime t) + 1900 < 2263"
    using gmtime_year_bounds by blast+
qed

section \<open>Conversions of the system clock\<close>

text \<open>A time point is its count of nanoseconds since the epoch; \<^verbatim>\<open>to_time_t\<close> truncates.\<close>

definition ns_per_s :: int where
  "ns_per_s = 1000000000"

definition to_time_t :: "int \<Rightarrow> int" where
  "to_time_t tp = trunc_div tp ns_per_s"

lemma to_time_t_nonneg: "0 \<le> tp \<Longrightarrow> to_time_t tp = tp div ns_per_s"
  by (simp add: to_time_t_def trunc_div_nonneg ns_per_s_def)

section \<open>Formatting of broken-down time\<close>

text \<open>The \<^verbatim>\<open>strftime\<close> conversions in use: \<^verbatim>\<open>%Y\<close>, and \<^verbatim>\<open>%m\<close>, \<^verbatim>\<open>%d\<close>, \<^verbatim>\<open>%H\<close>, \<^verbatim>\<open>%M\<close>, \<^verbatim>\<open>%S\<close> of two digits.\<close>

definition fmt_Y :: "tm \<Rightarrow> string" where
  "fmt_Y t = int_to_dec (tm_year t + 1900)"

definition fmt_m :: "tm \<Rightarrow> string" where
  "fmt_m t = pad0_nat 2 (tm_mon t + 1)"

definition fmt_d :: "tm \<Rightarrow> string" where
  "fmt_d t = pad0 2 (tm_mday t)"

definition fmt_H :: "tm \<Rightarrow> string" where
  "fmt_H t = pad0 2 (tm_hour t)"

definition fmt_M :: "tm \<Rightarrow> string" where
  "fmt_M t = pad0 2 (tm_min t)"

definition fmt_S :: "tm \<Rightarrow> string" where
  "fmt_S t = pad0 2 (tm_sec t)"

end
