(* ===== verification/Rfc3339.thy ===== *)
theory Rfc3339
  imports Civil_Time Lifetime
begin

text \<open>
  Timestamps: \<^verbatim>\<open>ParseRfc3339\<close> of \<^verbatim>\<open>google/cloud/internal/parse_rfc3339.cc\<close> and the formatters of
  \<^verbatim>\<open>google/cloud/internal/format_time_point.cc\<close>. The buffer pointer of the parser is the rest of
  the C string. \<^verbatim>\<open>sscanf\<close> is modelled for the directives the parser uses: an integer conversion
  skips white space, takes an optional sign and at most its width of characters, and \<^verbatim>\<open>%n\<close> counts
  every character read. Times are nanosecond counts; a step that leaves the 64-bit range of the
  clock is the fault \<open>SignedOverflow\<close>.
\<close>

section \<open>Scanning\<close>

text \<open>\<^verbatim>\<open>%<width>d\<close>: the value and the rest of the input, or \<open>None\<close> on a matching failure.\<close>

definition scan_int :: "nat \<Rightarrow> string \<Rightarrow> (int \<times> string) option" where
  "scan_int width s =
     (let s1 = dropWhile is_space s;
          signed = (s1 \<noteq> [] \<and> is_sign (hd s1));
          s2 = (if signed then tl s1 else s1);
          w = (if signed then width - 1 else width);
          ds = takeWhile is_digit (take w s2)
      in if ds = [] then None
         else Some (if signed \<and> hd s1 = CHR ''-'' then - int (digits_val ds) else int (digits_val ds),
                    drop (length ds) s2))"

text \<open>A literal character of the format, and \<^verbatim>\<open>%c\<close>.\<close>

definition scan_lit :: "char \<Rightarrow> string \<Rightarrow> string option" where
  "scan_lit c s = (case s of [] \<Rightarrow> None | d # ds \<Rightarrow> if d = c then Some ds else None)"

definition scan_char :: "string \<Rightarrow> (char \<times> string) option" where
  "scan_char s = (case s of [] \<Rightarrow> None | d # ds \<Rightarrow> Some (d, ds))"

definition peek :: "string \<Rightarrow> char" where
  "peek s = (case s of [] \<Rightarrow> CHR 0x00 | c # _ \<Rightarrow> c)"

section \<open>ParseRfc3339\<close>

definition ReportError :: "bool \<Rightarrow> string \<Rightarrow> string \<Rightarrow> fault" where
  "ReportError have_ex timestamp msg =
     Abn (ThrowInvalidArgument have_ex
       (''Error parsing RFC 3339 timestamp: '' @ msg
        @ '' Valid format is YYYY-MM-DD[Tt]HH:MM:SS[.s+](Z|[+-]HH:MM), got='' @ timestamp))"

text \<open>The C remainder of a non-negative year agrees with \<open>mod\<close>; \<^verbatim>\<open>%\<close> truncates for a negative one.\<close>

definition IsLeapYear :: "int \<Rightarrow> bool" where
  "IsLeapYear year \<longleftrightarrow>
     trunc_rem year 4 = 0 \<and> (trunc_rem year 100 \<noteq> 0 \<or> trunc_rem year 400 = 0)"

text \<open>Fields of \<^verbatim>\<open>sscanf(buffer, "%4d-%2d-%2d%c%2d:%2d:%2d%n", ...)\<close>, when all seven convert.\<close>

record date_time =
  dt_year :: int
  dt_month :: int
  dt_day :: int
  dt_sep :: char
  dt_hours :: int
  dt_minutes :: int
  dt_seconds :: int

definition scan_date_time :: "string \<Rightarrow> (date_time \<times> string) option" where
  "scan_date_time s =
     Option.bind (scan_int 4 s) (\<lambda>(year, s).
     Option.bind (scan_lit (CHR ''-'') s) (\<lambda>s.
     Option.bind (scan_int 2 s) (\<lambda>(month, s).
     Option.bind (scan_lit (CHR ''-'') s) (\<lambda>s.
     Option.bind (scan_int 2 s) (\<lambda>(day, s).
     Option.bind (scan_char s) (\<lambda>(sep, s).
     Option.bind (scan_int 2 s) (\<lambda>(hours, s).
     Option.bind (scan_lit (CHR '':'') s) (\<lambda>s.
     Option.bind (scan_int 2 s) (\<lambda>(minutes, s).
     Option.bind (scan_lit (CHR '':'') s) (\<lambda>s.
     Option.bind (scan_int 2 s) (\<lambda>(seconds, s).
     Some (\<lparr>dt_year = year, dt_month = month, dt_day = day, dt_sep = sep,
            dt_hours = hours, dt_minutes = minutes, dt_seconds = seconds\<rparr>, s))))))))))))"

definition kMaxDaysInMonth :: "int list" where
  "kMaxDaysInMonth = [31, 29, 31, 30, 31, 30, 31, 31, 30, 31, 30, 31]"

text \<open>The range checks, in the order of the source; \<open>None\<close> when all pass.\<close>

definition date_time_error :: "date_time \<Rightarrow> string option" where
  "date_time_error f =
     (if dt_sep f \<noteq> CHR ''T'' \<and> dt_sep f \<noteq> CHR ''t'' then
        Some ''Invalid date-time separator, expected 'T' or 't'.''
      else if dt_month f < 1 \<or> 12 < dt_month f then Some ''Out of range month.''
      else if dt_day f < 1 \<or> kMaxDaysInMonth ! nat (dt_month f - 1) < dt_day f then
        Some ''Out of range day for given month.''
      else if dt_month f = 2 \<and> kMaxDaysInMonth ! 1 - 1 < dt_day f \<and> \<not> IsLeapYear (dt_year f) then
        Some ''Out of range day for given month.''
      else if dt_hours f < 0 \<or> 24 \<le> dt_hours f then Some ''Out of range hour.''
      else if dt_minutes f < 0 \<or> 60 \<le> dt_minutes f then Some ''Out of range minute.''
      else if dt_seconds f < 0 \<or> 60 < dt_seconds f then Some ''Out of range second.''
      else None)"

definition check_clock :: "int \<Rightarrow> fault + int" where
  "check_clock ns = (if in_int64 ns then Inr ns else Inl (UB SignedOverflow))"

definition from_time_t :: "int \<Rightarrow> fault + int" where
  "from_time_t t = check_clock (t * ns_per_s)"

definition date_time_tm :: "date_time \<Rightarrow> tm" where
  "date_time_tm f =
     \<lparr>tm_year = dt_year f - 1900, tm_mon = nat (dt_month f - 1), tm_mday = dt_day f,
      tm_hour = dt_hours f, tm_min = dt_minutes f, tm_sec = dt_seconds f\<rparr>"

definition ParseDateTime :: "bool \<Rightarrow> (int \<Rightarrow> int) \<Rightarrow> string \<Rightarrow> string \<Rightarrow> fault + int \<times> string" where
  "ParseDateTime have_ex zone buffer timestamp =
     (case scan_date_time buffer of
        None \<Rightarrow> Inl (ReportError have_ex timestamp
          ''Invalid format for RFC 3339 timestamp detected while parsing the base date and time portion.'')
      | Some (f, rest) \<Rightarrow>
          if length buffer - length rest \<noteq> 19 then
            Inl (ReportError have_ex timestamp
              ''Invalid format for RFC 3339 timestamp detected while parsing the base date and time portion.'')
          else (case date_time_error f of
             Some msg \<Rightarrow> Inl (ReportError have_ex timestamp msg)
           | None \<Rightarrow>
               bindR (from_time_t (mktime zone (date_time_tm f))) (\<lambda>tp. Inr (tp, rest))))"

text \<open>The loop that scales the digits read to nanoseconds.\<close>

function scale_fraction :: "nat \<Rightarrow> int \<Rightarrow> int" where
  "scale_fraction digits x = (if digits < 9 then scale_fraction (Suc digits) (x * 10) else x)"
  by pat_completeness auto
termination
  by (relation "measure (\<lambda>(digits, x). 9 - digits)") auto

declare scale_fraction.simps [simp del]

definition ParseFractionalSeconds :: "bool \<Rightarrow> string \<Rightarrow> string \<Rightarrow> fault + int \<times> string" where
  "ParseFractionalSeconds have_ex buffer timestamp =
     (if peek buffer \<noteq> CHR ''.'' then Inr (0, buffer)
      else
        (let b = tl buffer in
         case scan_int 9 b of
           None \<Rightarrow> Inl (ReportError have_ex timestamp ''Invalid fractional seconds component.'')
         | Some (x, rest) \<Rightarrow>
             Inr (scale_fraction (length b - length rest) x, dropWhile is_digit rest)))"

definition ParseOffset :: "bool \<Rightarrow> string \<Rightarrow> string \<Rightarrow> fault + int \<times> string" where
  "ParseOffset have_ex buffer timestamp =
     (if peek buffer = CHR ''+'' \<or> peek buffer = CHR ''-'' then
        (let positive = (peek buffer = CHR ''+''); b = tl buffer;
             scanned =
               Option.bind (scan_int 2 b) (\<lambda>(hours, s).
               Option.bind (scan_lit (CHR '':'') s) (\<lambda>s.
               Option.bind (scan_int 2 s) (\<lambda>(minutes, s). Some (hours, minutes, s))))
         in case scanned of
              None \<Rightarrow> Inl (ReportError have_ex timestamp ''Invalid timezone offset, expected [+-]HH:MM.'')
            | Some (hours, minutes, rest) \<Rightarrow>
                if length b - length rest \<noteq> 5 then
                  Inl (ReportError have_ex timestamp ''Invalid timezone offset, expected [+-]HH:MM.'')
                else if hours < 0 \<or> 24 \<le> hours then
                  Inl (ReportError have_ex timestamp ''Out of range offset hour.'')
                else if minutes < 0 \<or> 60 \<le> minutes then
                  Inl (ReportError have_ex timestamp ''Out of range offset minute.'')
                else Inr (if positive then hours * 3600 + minutes * 60
                          else - (hours * 3600) - minutes * 60, rest))
      else if peek buffer \<noteq> CHR ''Z'' \<and> peek buffer \<noteq> CHR ''z'' then
        Inl (ReportError have_ex timestamp ''Invalid timezone offset, expected 'Z' or 'z'.'')
      else Inr (0, tl buffer))"

text \<open>The lambda that initializes \<^verbatim>\<open>kLocalTimeOffset\<close>, at the time of the first call.\<close>

definition kLocalTimeOffset :: "(int \<Rightarrow> int) \<Rightarrow> int \<Rightarrow> int" where
  "kLocalTimeOffset zone now = mktime zone (gmtime now) - now"

definition ParseRfc3339 :: "bool \<Rightarrow> (int \<Rightarrow> int) \<Rightarrow> int \<Rightarrow> string \<Rightarrow> fault + int" where
  "ParseRfc3339 have_ex zone now timestamp =
     bindR (ParseDateTime have_ex zone (c_str timestamp) timestamp) (\<lambda>(time_point, buffer).
     bindR (ParseFractionalSeconds have_ex buffer timestamp) (\<lambda>(fractional_seconds, buffer).
     bindR (ParseOffset have_ex buffer timestamp) (\<lambda>(offset, buffer).
     if peek buffer \<noteq> CHR 0x00 then
       Inl (ReportError have_ex timestamp ''Additional text after RFC 3339 date.'')
     else
       bindR (check_clock (time_point + fractional_seconds)) (\<lambda>tp.
       bindR (check_clock (tp - offset * ns_per_s)) (\<lambda>tp.
       check_clock (tp - kLocalTimeOffset zone now * ns_per_s))))))"

section \<open>Formatting\<close>

definition FormatFractional :: "int \<Rightarrow> string" where
  "FormatFractional ns =
     (if ns = 0 then []
      else if trunc_rem ns 1000000 = 0 then CHR ''.'' # pad0 3 (trunc_div ns 1000000)
      else if trunc_rem ns 1000 = 0 then CHR ''.'' # pad0 6 (trunc_div ns 1000)
      else CHR ''.'' # pad0 9 ns)"

definition AsUtcTm :: "int \<Rightarrow> tm" where
  "AsUtcTm tp = gmtime (to_time_t tp)"

definition FormatRfc3339 :: "int \<Rightarrow> string" where
  "FormatRfc3339 tp =
     (let t = AsUtcTm tp in
      fmt_Y t @ ''-'' @ fmt_m t @ ''-'' @ fmt_d t @ ''T'' @ fmt_H t @ '':'' @ fmt_M t @ '':'' @ fmt_S t
      @ FormatFractional (tp - trunc_div tp ns_per_s * ns_per_s) @ ''Z'')"

definition FormatV4SignedUrlTimestamp :: "int \<Rightarrow> string" where
  "FormatV4SignedUrlTimestamp tp =
     (let t = AsUtcTm tp in
      fmt_Y t @ fmt_m t @ fmt_d t @ ''T'' @ fmt_H t @ fmt_M t @ fmt_S t @ ''Z'')"

definition FormatV4SignedUrlScope :: "int \<Rightarrow> string" where
  "FormatV4SignedUrlScope tp = (let t = AsUtcTm tp in fmt_Y t @ fmt_m t @ fmt_d t)"

section \<open>Lemmas on scanning\<close>

lemma takeWhile_digits:
  assumes "\<forall>c \<in> set ds. is_digit c" "length ds \<le> w"
    "length ds = w \<or> rest = [] \<or> \<not> is_digit (hd rest)"
  shows "takeWhile is_digit (take w (ds @ rest)) = ds"
proof (cases "length ds = w")
  case True
  with assms(1) show ?thesis by (simp add: takeWhile_eq_all_conv)
next
  case False
  with assms have "takeWhile is_digit (take (w - length ds) rest) = []"
    by (cases rest; cases "w - length ds") auto
  with assms show ?thesis by (simp add: takeWhile_append2)
qed

text \<open>A run of digits that fills the width, or ends where the digits end, reads as its value.\<close>

lemma scan_int_digits:
  assumes "ds \<noteq> []" "\<forall>c \<in> set ds. is_digit c" "length ds \<le> w"
    "length ds = w \<or> rest = [] \<or> \<not> is_digit (hd rest)"
  shows "scan_int w (ds @ rest) = Some (int (digits_val ds), rest)"
proof -
  obtain c cs where ds: "ds = c # cs" using assms(1) by (cases ds) auto
  with assms(2) have c: "is_digit c" by simp
  have "dropWhile is_space (ds @ rest) = ds @ rest" "\<not> is_sign (hd (ds @ rest))"
    using c ds by simp_all
  with takeWhile_digits [OF assms(2-4)] assms(1) show ?thesis
    by (simp add: scan_int_def Let_def)
qed

lemma scan_lit_Cons [simp]: "scan_lit c (c # s) = Some s"
  by (simp add: scan_lit_def)

lemma scan_char_Cons [simp]: "scan_char (c # s) = Some (c, s)"
  by (simp add: scan_char_def)

lemma peek_Cons [simp]: "peek (c # s) = c" "peek [] = CHR 0x00"
  by (simp_all add: peek_def)

lemma scan_pad0:
  assumes "0 \<le> i" "i < 10 ^ w" "0 < w"
  shows "scan_int w (pad0 w i @ rest) = Some (i, rest)" "length (pad0 w i) = w"
proof -
  have "nat i < 10 ^ w" using assms by (simp add: nat_less_iff)
  then have len: "length (pad0_nat w (nat i)) = w" using assms(3) by (rule length_pad0_nat)
  then show "length (pad0 w i) = w" using assms(1) by (simp add: pad0_def)
  have "scan_int w (pad0_nat w (nat i) @ rest) = Some (int (nat i), rest)"
    using len assms(3) scan_int_digits [of "pad0_nat w (nat i)" w rest] pad0_nat_digits
    by force
  then show "scan_int w (pad0 w i @ rest) = Some (i, rest)" using assms(1) by (simp add: pad0_def)
qed

section \<open>Calendar validity\<close>

lemma trunc_rem_eq_0_iff: "0 < b \<Longrightarrow> trunc_rem a b = 0 \<longleftrightarrow> a mod b = 0"
proof -
  assume b: "0 < b"
  have "trunc_rem a b = sgn a * (\<bar>a\<bar> mod b)"
  proof -
    have "\<bar>a\<bar> mod b = \<bar>a\<bar> - b * (\<bar>a\<bar> div b)" by (simp add: minus_mult_div_eq_mod)
    then have "sgn a * (\<bar>a\<bar> mod b) = sgn a * \<bar>a\<bar> - b * (sgn a * (\<bar>a\<bar> div b))"
      by (simp add: right_diff_distrib)
    moreover have "sgn a * \<bar>a\<bar> = a" by (rule sgn_mult_abs)
    ultimately show ?thesis using b by (simp add: trunc_rem_def trunc_div_def)
  qed
  moreover have "\<bar>a\<bar> mod b = 0 \<longleftrightarrow> a mod b = 0"
    by (simp flip: dvd_eq_mod_eq_0)
  ultimately show ?thesis by (auto simp: sgn_if split: if_splits)
qed

lemma IsLeapYear_leap: "IsLeapYear y = leap y"
  by (simp add: IsLeapYear_def leap_def trunc_rem_eq_0_iff)

lemma kMaxDaysInMonth_nth:
  assumes "m \<le> 11"
  shows "kMaxDaysInMonth ! m = (if m = 1 then 29 else days_in_month y m)"
proof -
  from assms have "m \<in> {0, 1, 2, 3, 4, 5, 6, 7, 8, 9, 10, 11}"
    unfolding insert_iff empty_iff by arith
  then show ?thesis by (auto simp: kMaxDaysInMonth_def days_in_month_def)
qed

text \<open>
  The checks pass exactly on calendar dates with a time of day in which the second may be 60.
\<close>

lemma date_time_error_None_iff:
  "date_time_error f = None \<longleftrightarrow>
     dt_sep f \<in> {CHR ''T'', CHR ''t''} \<and> 1 \<le> dt_month f \<and> dt_month f \<le> 12 \<and>
     1 \<le> dt_day f \<and> dt_day f \<le> days_in_month (dt_year f) (nat (dt_month f - 1)) \<and>
     0 \<le> dt_hours f \<and> dt_hours f < 24 \<and> 0 \<le> dt_minutes f \<and> dt_minutes f < 60 \<and>
     0 \<le> dt_seconds f \<and> dt_seconds f \<le> 60"
proof (cases "1 \<le> dt_month f \<and> dt_month f \<le> 12")
  case False
  then show ?thesis by (auto simp: date_time_error_def)
next
  case True
  let ?m = "nat (dt_month f - 1)"
  have m: "?m \<le> 11" using True by auto
  have nth1: "kMaxDaysInMonth ! Suc 0 = 29" by (simp add: kMaxDaysInMonth_def)
  have days: "(\<not> (kMaxDaysInMonth ! ?m < dt_day f) \<and>
      \<not> (dt_month f = 2 \<and> 28 < dt_day f \<and> \<not> leap (dt_year f)))
      \<longleftrightarrow> dt_day f \<le> days_in_month (dt_year f) ?m"
    using kMaxDaysInMonth_nth [OF m, of "dt_year f"] True
    by (cases "dt_month f = 2") (auto simp: days_in_month_def split: if_splits)
  show ?thesis
    unfolding date_time_error_def using True days
    by (auto simp: nth1 IsLeapYear_leap)
qed

section \<open>The value of an accepted timestamp\<close>

lemma kLocalTimeOffset_eq: "kLocalTimeOffset zone now = - zone now"
  by (simp add: kLocalTimeOffset_def mktime_def timegm_gmtime)

lemma check_clock_Inr [simp]: "check_clock x = Inr y \<longleftrightarrow> in_int64 x \<and> y = x"
  by (auto simp: check_clock_def)

lemma ParseRfc3339_value:
  assumes "ParseRfc3339 have_ex zone now ts = Inr tp"
  shows "\<exists>f frac off rest1 rest2 rest3.
     scan_date_time (c_str ts) = Some (f, rest1) \<and> date_time_error f = None \<and>
     ParseFractionalSeconds have_ex rest1 ts = Inr (frac, rest2) \<and>
     ParseOffset have_ex rest2 ts = Inr (off, rest3) \<and>
     tp = (timegm (date_time_tm f) - off + (zone now - zone (timegm (date_time_tm f)))) * ns_per_s + frac"
proof -
  from assms obtain tp1 rest1 frac rest2 off rest3 where
      d: "ParseDateTime have_ex zone (c_str ts) ts = Inr (tp1, rest1)"
    and p: "ParseFractionalSeconds have_ex rest1 ts = Inr (frac, rest2)"
    and o: "ParseOffset have_ex rest2 ts = Inr (off, rest3)"
    and tp: "tp = tp1 + frac - off * ns_per_s - kLocalTimeOffset zone now * ns_per_s"
    unfolding ParseRfc3339_def by (auto split: if_splits)
  from d obtain f where f: "scan_date_time (c_str ts) = Some (f, rest1)" "date_time_error f = None"
      "from_time_t (mktime zone (date_time_tm f)) = Inr tp1"
    unfolding ParseDateTime_def by (auto split: option.splits if_splits prod.splits)
  from f(3) have "tp1 = (timegm (date_time_tm f) - zone (timegm (date_time_tm f))) * ns_per_s"
    by (simp add: from_time_t_def mktime_def)
  with tp have "tp = (timegm (date_time_tm f) - off + (zone now - zone (timegm (date_time_tm f)))) * ns_per_s + frac"
    by (simp add: kLocalTimeOffset_eq algebra_simps)
  with f p o show ?thesis by blast
qed

section \<open>Reading back what the formatter wrote\<close>

lemma fmt_fields:
  assumes "tm_ok t" "1000 \<le> tm_year t + 1900" "tm_year t + 1900 < 10000"
  shows "scan_int 4 (fmt_Y t @ r) = Some (tm_year t + 1900, r)" "length (fmt_Y t) = 4"
    "scan_int 2 (fmt_m t @ r) = Some (int (tm_mon t) + 1, r)" "length (fmt_m t) = 2"
    "scan_int 2 (fmt_d t @ r) = Some (tm_mday t, r)" "length (fmt_d t) = 2"
    "scan_int 2 (fmt_H t @ r) = Some (tm_hour t, r)" "length (fmt_H t) = 2"
    "scan_int 2 (fmt_M t @ r) = Some (tm_min t, r)" "length (fmt_M t) = 2"
    "scan_int 2 (fmt_S t @ r) = Some (tm_sec t, r)" "length (fmt_S t) = 2"
proof -
  let ?y = "nat (tm_year t + 1900)"
  have y: "1000 \<le> ?y" "?y < 10 ^ 4" using assms(2,3) by auto
  have "pad0_nat 4 ?y = nat_to_dec ?y"
  proof -
    have "3 < length (nat_to_dec ?y)" using y(1) by (intro length_nat_to_dec_gt) simp
    then show ?thesis by (simp add: pad0_nat_def zeros_def)
  qed
  then have Y: "fmt_Y t = pad0 4 (tm_year t + 1900)"
    using assms(2) by (simp add: fmt_Y_def int_to_dec_def pad0_def)
  show "scan_int 4 (fmt_Y t @ r) = Some (tm_year t + 1900, r)" "length (fmt_Y t) = 4"
    unfolding Y using scan_pad0 [of "tm_year t + 1900" 4] assms(2,3) by simp_all
  have "fmt_m t = pad0 2 (int (tm_mon t) + 1)"
    by (simp add: fmt_m_def pad0_def nat_add_distrib)
  then show "scan_int 2 (fmt_m t @ r) = Some (int (tm_mon t) + 1, r)" "length (fmt_m t) = 2"
    using scan_pad0 [of "int (tm_mon t) + 1" 2] assms(1) by (simp_all add: tm_ok_def)
  have "tm_mday t < 100"
    using assms(1) days_in_month_le [of "tm_year t + 1900" "tm_mon t"] by (auto simp: tm_ok_def)
  then show "scan_int 2 (fmt_d t @ r) = Some (tm_mday t, r)" "length (fmt_d t) = 2"
    using scan_pad0 [of "tm_mday t" 2] assms(1) by (simp_all add: tm_ok_def fmt_d_def)
  show "scan_int 2 (fmt_H t @ r) = Some (tm_hour t, r)" "length (fmt_H t) = 2"
    "scan_int 2 (fmt_M t @ r) = Some (tm_min t, r)" "length (fmt_M t) = 2"
    "scan_int 2 (fmt_S t @ r) = Some (tm_sec t, r)" "length (fmt_S t) = 2"
    using scan_pad0 [of "tm_hour t" 2] scan_pad0 [of "tm_min t" 2] scan_pad0 [of "tm_sec t" 2]
      assms(1) by (simp_all add: tm_ok_def fmt_H_def fmt_M_def fmt_S_def)
qed

lemma scan_date_time_fmt:
  assumes "tm_ok t" "1000 \<le> tm_year t + 1900" "tm_year t + 1900 < 10000"
  shows "scan_date_time (fmt_Y t @ ''-'' @ fmt_m t @ ''-'' @ fmt_d t @ ''T'' @ fmt_H t @ '':'' @ fmt_M t
           @ '':'' @ fmt_S t @ rest)
         = Some (\<lparr>dt_year = tm_year t + 1900, dt_month = int (tm_mon t) + 1, dt_day = tm_mday t,
                  dt_sep = CHR ''T'', dt_hours = tm_hour t, dt_minutes = tm_min t,
                  dt_seconds = tm_sec t\<rparr>, rest)"
  unfolding scan_date_time_def by (simp add: fmt_fields [OF assms])

lemma ParseDateTime_fmt:
  assumes "tm_ok t" "1000 \<le> tm_year t + 1900" "tm_year t + 1900 < 10000"
  shows "ParseDateTime have_ex zone (fmt_Y t @ ''-'' @ fmt_m t @ ''-'' @ fmt_d t @ ''T'' @ fmt_H t @ '':''
           @ fmt_M t @ '':'' @ fmt_S t @ rest) ts
         = bindR (from_time_t (timegm t - zone (timegm t))) (\<lambda>tp. Inr (tp, rest))"
proof -
  let ?f = "\<lparr>dt_year = tm_year t + 1900, dt_month = int (tm_mon t) + 1, dt_day = tm_mday t,
             dt_sep = CHR ''T'', dt_hours = tm_hour t, dt_minutes = tm_min t, dt_seconds = tm_sec t\<rparr>"
  have "date_time_error ?f = None"
    using assms(1) by (simp add: date_time_error_None_iff tm_ok_def)
  moreover have "date_time_tm ?f = t" by (simp add: date_time_tm_def)
  ultimately show ?thesis
    unfolding ParseDateTime_def scan_date_time_fmt [OF assms]
    by (simp add: fmt_fields [OF assms] mktime_def)
qed

lemma scale_fraction_3: "scale_fraction 3 x = x * 1000000"
  by (simp add: scale_fraction.simps)

lemma scale_fraction_6: "scale_fraction 6 x = x * 1000"
  by (simp add: scale_fraction.simps)

lemma scale_fraction_9: "scale_fraction 9 x = x"
  by (simp add: scale_fraction.simps)

lemma ParseFractional_digits:
  assumes "0 \<le> x" "x < 10 ^ w" "0 < w" "w \<le> 9"
  shows "ParseFractionalSeconds have_ex (CHR ''.'' # pad0 w x @ ''Z'') ts
         = Inr (scale_fraction w x, ''Z'')"
proof -
  have Z: "\<not> is_digit (CHR ''Z'')" by (simp add: is_digit_def)
  have "scan_int 9 (pad0 w x @ ''Z'') = Some (x, ''Z'')"
    using scan_int_digits [of "pad0_nat w (nat x)" 9 "''Z''"] assms Z pad0_nat_digits
      length_pad0_nat [of "nat x" w]
    by (force simp: pad0_def nat_less_iff)
  with scan_pad0(2) [OF assms(1-3)] Z show ?thesis
    by (simp add: ParseFractionalSeconds_def Let_def)
qed

lemma ParseFractional_Format:
  assumes "0 \<le> ns" "ns < ns_per_s"
  shows "ParseFractionalSeconds have_ex (FormatFractional ns @ ''Z'') ts = Inr (ns, ''Z'')"
proof -
  consider "ns = 0" | "ns \<noteq> 0" "ns mod 1000000 = 0" | "ns mod 1000000 \<noteq> 0" "ns mod 1000 = 0"
    | "ns mod 1000000 \<noteq> 0" "ns mod 1000 \<noteq> 0"
    by blast
  then show ?thesis
  proof cases
    case 1
    then show ?thesis by (simp add: FormatFractional_def ParseFractionalSeconds_def)
  next
    case 2
    then have "ns div 1000000 * 1000000 = ns" by (simp add: mod_0_imp_dvd)
    moreover have "0 \<le> ns div 1000000" "ns div 1000000 < 10 ^ 3"
      using assms by (simp_all add: ns_per_s_def pos_imp_zdiv_nonneg_iff)
    ultimately show ?thesis
      using 2 assms ParseFractional_digits [of "ns div 1000000" 3]
      by (simp add: FormatFractional_def trunc_rem_nonneg trunc_div_nonneg scale_fraction_3)
  next
    case 3
    then have "ns div 1000 * 1000 = ns" by (simp add: mod_0_imp_dvd)
    moreover have "0 \<le> ns div 1000" "ns div 1000 < 10 ^ 6"
      using assms by (simp_all add: ns_per_s_def pos_imp_zdiv_nonneg_iff)
    ultimately show ?thesis
      using 3 assms ParseFractional_digits [of "ns div 1000" 6]
      by (auto simp: FormatFractional_def trunc_rem_nonneg trunc_div_nonneg scale_fraction_6)
  next
    case 4
    then show ?thesis
      using assms ParseFractional_digits [of ns 9]
      by (auto simp: FormatFractional_def trunc_rem_nonneg scale_fraction_9 ns_per_s_def)
  qed
qed

lemma FormatRfc3339_no_nul: "c_str (FormatRfc3339 tp) = FormatRfc3339 tp"
proof (rule c_str_no_nul)
  have nul: "\<not> is_digit (CHR 0x00)" by (simp add: is_digit_def)
  have dec: "CHR 0x00 \<notin> set (nat_to_dec n)" "CHR 0x00 \<notin> set (pad0_nat w n)" for w n
    using nul nat_to_dec_digits pad0_nat_digits by blast+
  then have "CHR 0x00 \<notin> set (int_to_dec i)" "CHR 0x00 \<notin> set (pad0 w i)" for w i
    by (simp_all add: int_to_dec_def pad0_def)
  with dec show "CHR 0x00 \<notin> set (FormatRfc3339 tp)"
    by (simp add: FormatRfc3339_def Let_def fmt_Y_def fmt_m_def fmt_d_def fmt_H_def fmt_M_def
        fmt_S_def FormatFractional_def)
qed

lemma trunc_ns_remainder:
  "0 \<le> tp \<Longrightarrow> tp - trunc_div tp ns_per_s * ns_per_s = tp mod ns_per_s"
  by (simp add: trunc_div_nonneg ns_per_s_def minus_div_mult_eq_mod)

text \<open>
  A text of the civil time of a time point and its fraction parses to the time point, moved by
  the difference of the zone's offsets now and then.
\<close>

lemma ParseRfc3339_of_fields:
  assumes "0 \<le> tp" "tp + 172801 * ns_per_s < 2 ^ 63" "zone_ok zone"
    and parts: "txt = fmt_Y t @ ''-'' @ fmt_m t @ ''-'' @ fmt_d t @ ''T'' @ fmt_H t @ '':''
      @ fmt_M t @ '':'' @ fmt_S t @ (frac @ ''Z'')"
    and t: "t = gmtime (tp div ns_per_s)"
    and frac: "\<And>ts. ParseFractionalSeconds have_ex (frac @ ''Z'') ts = Inr (tp mod ns_per_s, ''Z'')"
    and nul: "c_str txt = txt"
  shows "ParseRfc3339 have_ex zone now txt = Inr (tp + (zone now - zone (tp div ns_per_s)) * ns_per_s)"
proof -
  let ?T = "tp div ns_per_s" and ?r = "tp mod ns_per_s" and ?z = "zone (tp div ns_per_s)"
  have T: "0 \<le> ?T" "?T \<le> 9223372036" and r: "0 \<le> ?r" "?r < ns_per_s"
    and sum: "?T * ns_per_s + ?r = tp"
    using assms(1,2) by (auto simp: ns_per_s_def pos_imp_zdiv_nonneg_iff)
  have z: "\<bar>?z\<bar> \<le> 86400" "\<bar>zone now\<bar> \<le> 86400" using assms(3) by (simp_all add: zone_ok_def)
  have ok: "tm_ok t" unfolding t by (rule gmtime_ok)
  have yr: "1000 \<le> tm_year t + 1900" "tm_year t + 1900 < 10000"
    unfolding t using gmtime_year_clock [OF T] by linarith+
  have "in_int64 ((?T - ?z) * ns_per_s)"
    using T z sum r assms(2) by (auto simp: in_int64_def ns_per_s_def)
  then have d: "ParseDateTime have_ex zone txt ts = Inr ((?T - ?z) * ns_per_s, frac @ ''Z'')" for ts
    unfolding parts ParseDateTime_fmt [OF ok yr] by (simp add: from_time_t_def check_clock_def t timegm_gmtime)
  have o: "ParseOffset have_ex ''Z'' ts = Inr (0, [])" for ts
    by (simp add: ParseOffset_def)
  have "in_int64 ((?T - ?z) * ns_per_s + ?r)" "in_int64 (tp + (zone now - ?z) * ns_per_s)"
    using T z sum r assms(1,2) by (auto simp: in_int64_def ns_per_s_def)
  moreover have "(?T - ?z) * ns_per_s + ?r - (- zone now) * ns_per_s = tp + (zone now - ?z) * ns_per_s"
    using sum by (simp add: algebra_simps)
  ultimately show ?thesis
    unfolding ParseRfc3339_def nul d
    by (simp add: frac o check_clock_def kLocalTimeOffset_eq)
qed

section \<open>Timestamps of the grammar\<close>

text \<open>
  The texts of the grammar \<^verbatim>\<open>YYYY-MM-DD[Tt]HH:MM:SS[.s+](Z|[+-]HH:MM)\<close> that the error message
  gives, and the instant each denotes, written from RFC 3339 and not from the parser: the civil
  time, the fraction of any number of digits truncated to nanoseconds, and the offset east of UTC.
\<close>

datatype offset_text = Zulu char | Numeric (east: bool) (off_hours: string) (off_minutes: string)

record timestamp_text =
  ts_year :: string
  ts_month :: string
  ts_day :: string
  ts_sep :: char
  ts_hours :: string
  ts_minutes :: string
  ts_seconds :: string
  ts_fraction :: "string option"
  ts_offset :: offset_text

fun fraction_print :: "string option \<Rightarrow> string" where
  "fraction_print None = []"
| "fraction_print (Some ds) = CHR ''.'' # ds"

fun offset_print :: "offset_text \<Rightarrow> string" where
  "offset_print (Zulu c) = [c]"
| "offset_print (Numeric e hh mm) = (if e then CHR ''+'' else CHR ''-'') # hh @ '':'' @ mm"

definition timestamp_print :: "timestamp_text \<Rightarrow> string" where
  "timestamp_print x =
     ts_year x @ ''-'' @ ts_month x @ ''-'' @ ts_day x @ [ts_sep x] @ ts_hours x @ '':''
     @ ts_minutes x @ '':'' @ ts_seconds x @ fraction_print (ts_fraction x) @ offset_print (ts_offset x)"

definition digits :: "nat \<Rightarrow> string \<Rightarrow> bool" where
  "digits n s \<longleftrightarrow> length s = n \<and> (\<forall>c \<in> set s. is_digit c)"

fun fraction_well_formed :: "string option \<Rightarrow> bool" where
  "fraction_well_formed None \<longleftrightarrow> True"
| "fraction_well_formed (Some ds) \<longleftrightarrow> ds \<noteq> [] \<and> (\<forall>c \<in> set ds. is_digit c)"

fun offset_well_formed :: "offset_text \<Rightarrow> bool" where
  "offset_well_formed (Zulu c) \<longleftrightarrow> c \<in> {CHR ''Z'', CHR ''z''}"
| "offset_well_formed (Numeric e hh mm) \<longleftrightarrow> digits 2 hh \<and> digits 2 mm"

definition timestamp_well_formed :: "timestamp_text \<Rightarrow> bool" where
  "timestamp_well_formed x \<longleftrightarrow>
     digits 4 (ts_year x) \<and> digits 2 (ts_month x) \<and> digits 2 (ts_day x) \<and>
     ts_sep x \<in> {CHR ''T'', CHR ''t''} \<and>
     digits 2 (ts_hours x) \<and> digits 2 (ts_minutes x) \<and> digits 2 (ts_seconds x) \<and>
     fraction_well_formed (ts_fraction x) \<and> offset_well_formed (ts_offset x)"

fun offset_valid :: "offset_text \<Rightarrow> bool" where
  "offset_valid (Zulu c) \<longleftrightarrow> True"
| "offset_valid (Numeric e hh mm) \<longleftrightarrow> digits_val hh < 24 \<and> digits_val mm < 60"

definition civil_valid :: "timestamp_text \<Rightarrow> bool" where
  "civil_valid x \<longleftrightarrow>
     1 \<le> digits_val (ts_month x) \<and> digits_val (ts_month x) \<le> 12 \<and> 1 \<le> digits_val (ts_day x) \<and>
     int (digits_val (ts_day x))
       \<le> days_in_month (int (digits_val (ts_year x))) (digits_val (ts_month x) - 1) \<and>
     digits_val (ts_hours x) < 24 \<and> digits_val (ts_minutes x) < 60 \<and> digits_val (ts_seconds x) \<le> 60"

fun fraction_nanos :: "string option \<Rightarrow> int" where
  "fraction_nanos None = 0"
| "fraction_nanos (Some ds) = int (digits_val ds * 10 ^ 9 div 10 ^ length ds)"

fun offset_seconds :: "offset_text \<Rightarrow> int" where
  "offset_seconds (Zulu c) = 0"
| "offset_seconds (Numeric e hh mm) =
     (if e then 1 else - 1) * (int (digits_val hh) * 3600 + int (digits_val mm) * 60)"

definition civil_seconds :: "timestamp_text \<Rightarrow> int" where
  "civil_seconds x =
     civil_days (int (digits_val (ts_year x))) (digits_val (ts_month x) - 1) (int (digits_val (ts_day x))) * 86400
     + int (digits_val (ts_hours x)) * 3600 + int (digits_val (ts_minutes x)) * 60 + int (digits_val (ts_seconds x))"

definition timestamp_instant :: "timestamp_text \<Rightarrow> int" where
  "timestamp_instant x =
     (civil_seconds x - offset_seconds (ts_offset x)) * ns_per_s + fraction_nanos (ts_fraction x)"

text \<open>Each part of the parser on the corresponding part of such a text.\<close>

definition text_fields :: "timestamp_text \<Rightarrow> date_time" where
  "text_fields x =
     \<lparr>dt_year = int (digits_val (ts_year x)), dt_month = int (digits_val (ts_month x)),
      dt_day = int (digits_val (ts_day x)), dt_sep = ts_sep x, dt_hours = int (digits_val (ts_hours x)),
      dt_minutes = int (digits_val (ts_minutes x)), dt_seconds = int (digits_val (ts_seconds x))\<rparr>"

lemma scan_int_width:
  "digits w s \<Longrightarrow> 0 < w \<Longrightarrow> scan_int w (s @ rest) = Some (int (digits_val s), rest)"
  using scan_int_digits [of s w rest] by (auto simp: digits_def)

lemma scan_date_time_text:
  assumes "timestamp_well_formed x"
  shows "scan_date_time (ts_year x @ ''-'' @ ts_month x @ ''-'' @ ts_day x @ [ts_sep x] @ ts_hours x @ '':''
     @ ts_minutes x @ '':'' @ ts_seconds x @ rest) = Some (text_fields x, rest)"
  using assms by (simp add: scan_date_time_def scan_int_width timestamp_well_formed_def text_fields_def)

lemma text_fields_ok_iff:
  assumes "timestamp_well_formed x"
  shows "date_time_error (text_fields x) = None \<longleftrightarrow> civil_valid x"
  using assms by (auto simp: date_time_error_None_iff text_fields_def civil_valid_def
      timestamp_well_formed_def nat_diff_distrib)

lemma scale_fraction_eq: "n \<le> 9 \<Longrightarrow> scale_fraction n x = x * 10 ^ (9 - n)"
proof (induction "9 - n" arbitrary: n x)
  case 0
  then show ?case by (simp add: scale_fraction.simps)
next
  case (Suc k)
  then have "9 - n = Suc (9 - Suc n)" "n < 9" by simp_all
  with Suc.hyps(1) [of "Suc n" "x * 10"] Suc.hyps(2) Suc.prems show ?case
    by (simp add: scale_fraction.simps [of n x] Suc_diff_Suc)
qed

lemma fraction_nanos_bounds: "fraction_well_formed q \<Longrightarrow> 0 \<le> fraction_nanos q \<and> fraction_nanos q < ns_per_s"
proof (cases q)
  case (Some ds)
  assume "fraction_well_formed q"
  with Some have "digits_val ds * 10 ^ 9 < 10 ^ 9 * 10 ^ length ds"
    using digits_val_less [of ds] by (simp add: mult.commute)
  then have "digits_val ds * 10 ^ 9 div 10 ^ length ds < 10 ^ 9"
    by (simp only: div_less_iff_less_mult zero_less_power zero_less_numeral)
  then have "int (digits_val ds * 10 ^ 9 div 10 ^ length ds) < int (10 ^ 9)" by (simp only: of_nat_less_iff)
  with Some show ?thesis by (simp add: ns_per_s_def)
qed (simp add: ns_per_s_def)

lemma power_split: "k \<le> n \<Longrightarrow> (b :: nat) ^ n = b ^ (n - k) * b ^ k"
  by (simp only: power_add [symmetric] le_add_diff_inverse2)

lemma fraction_digits_short:
  assumes "n \<le> 9"
  shows "int v * 10 ^ (9 - n) = int (v * 10 ^ 9 div 10 ^ n)"
proof -
  have "v * 10 ^ 9 = v * 10 ^ (9 - n) * 10 ^ n"
    by (simp only: power_split [OF assms, of 10] mult.assoc)
  then have "v * 10 ^ 9 div 10 ^ n = v * 10 ^ (9 - n)"
    by (simp only: nonzero_mult_div_cancel_right power_not_zero zero_neq_numeral [symmetric] not_False_eq_True)
  then show ?thesis by (simp only: of_nat_mult of_nat_power of_nat_numeral)
qed

lemma fraction_digits_long:
  assumes "9 \<le> length ds" "\<forall>c \<in> set ds. is_digit c"
  shows "digits_val (take 9 ds) = digits_val ds * 10 ^ 9 div 10 ^ length ds"
proof -
  have "digits_val (drop 9 ds) < 10 ^ (length ds - 9)"
    using digits_val_less [of "drop 9 ds"] assms(2) by (auto dest: in_set_dropD)
  moreover have "digits_val ds = digits_val (take 9 ds) * 10 ^ (length ds - 9) + digits_val (drop 9 ds)"
    using digits_val_append [of "take 9 ds" "drop 9 ds"] by simp
  ultimately have "digits_val ds div 10 ^ (length ds - 9) = digits_val (take 9 ds)" by simp
  moreover have "(10 :: nat) ^ length ds = 10 ^ (length ds - 9) * 10 ^ 9"
    by (rule power_split [OF assms(1)])
  ultimately show ?thesis by simp
qed

text \<open>A fraction stops at the offset, whose first character is neither a digit nor a point.\<close>

lemma offset_print_start:
  assumes "offset_well_formed q"
  shows "\<exists>c cs. offset_print q = c # cs \<and> c \<noteq> CHR ''.'' \<and> \<not> is_digit c"
  using assms by (cases q) (auto simp: is_digit_def)

lemma ParseFractionalSeconds_text:
  assumes "fraction_well_formed q" "rest = c # cs" "c \<noteq> CHR ''.''" "\<not> is_digit c"
  shows "ParseFractionalSeconds have_ex (fraction_print q @ rest) ts = Inr (fraction_nanos q, rest)"
proof (cases q)
  case None
  with assms show ?thesis by (simp add: ParseFractionalSeconds_def)
next
  case (Some ds)
  with assms(1) have ds: "ds \<noteq> []" "\<forall>c \<in> set ds. is_digit c" by simp_all
  show ?thesis
  proof (cases "length ds \<le> 9")
    case True
    with ds assms(2,4) have "scan_int 9 (ds @ rest) = Some (int (digits_val ds), rest)"
      by (intro scan_int_digits) auto
    with True assms(2,4) show ?thesis
      by (simp add: Some ParseFractionalSeconds_def scale_fraction_eq fraction_digits_short)
  next
    case False
    have "set (take 9 ds) \<subseteq> set ds" "set (drop 9 ds) \<subseteq> set ds"
      by (rule set_take_subset, rule set_drop_subset)
    with ds have dig: "\<forall>c \<in> set (take 9 ds). is_digit c" "\<forall>c \<in> set (drop 9 ds). is_digit c"
      by blast+
    have "scan_int 9 (take 9 ds @ (drop 9 ds @ rest))
        = Some (int (digits_val (take 9 ds)), drop 9 ds @ rest)"
      using False dig(1) ds(1) by (intro scan_int_digits) auto
    moreover have "take 9 ds @ (drop 9 ds @ rest) = ds @ rest"
      by (simp only: append.assoc [symmetric] append_take_drop_id)
    moreover have "dropWhile is_digit (drop 9 ds @ rest) = rest"
      using dig(2) assms(2,4) by (simp add: dropWhile_append2)
    ultimately show ?thesis
      using False ds(2)
      by (simp add: Some ParseFractionalSeconds_def scale_fraction_eq fraction_digits_long)
  qed
qed

lemma ParseOffset_text:
  assumes "offset_well_formed q"
  shows "offset_valid q \<Longrightarrow> ParseOffset have_ex (offset_print q) ts = Inr (offset_seconds q, [])"
    "\<not> offset_valid q \<Longrightarrow> \<exists>msg. ParseOffset have_ex (offset_print q) ts = Inl (ReportError have_ex ts msg)"
proof -
  have scan: "scan_int 2 (hh @ rest) = Some (int (digits_val hh), rest)" "length hh = 2" "length mm = 2"
    "scan_int 2 mm = Some (int (digits_val mm), [])"
    if "q = Numeric e hh mm" for e hh mm rest
    using assms that scan_int_width [of 2 hh rest] scan_int_width [of 2 mm "[]"]
    by (simp_all add: digits_def)
  show "offset_valid q \<Longrightarrow> ParseOffset have_ex (offset_print q) ts = Inr (offset_seconds q, [])"
    "\<not> offset_valid q \<Longrightarrow> \<exists>msg. ParseOffset have_ex (offset_print q) ts = Inl (ReportError have_ex ts msg)"
    using assms by (cases q; auto simp: ParseOffset_def scan)+
qed

lemma offset_seconds_bounds: "offset_valid q \<Longrightarrow> \<bar>offset_seconds q\<bar> < 86400"
  by (cases q) auto

text \<open>From 1678 to 2261 the clock has room for any valid civil time, with a few days to spare.\<close>

lemma month_days_mono: "m \<le> n \<Longrightarrow> month_days y m \<le> month_days y n"
  by (induction n rule: dec_induct) (auto simp: less_imp_le [OF days_in_month_pos] intro: order_trans)

lemma civil_seconds_bounds:
  assumes "civil_valid x" "1678 \<le> digits_val (ts_year x)" "digits_val (ts_year x) \<le> 2261"
  shows "- 9214560000 \<le> civil_seconds x" "civil_seconds x \<le> 9214646400"
proof -
  let ?y = "int (digits_val (ts_year x))" and ?m = "digits_val (ts_month x) - 1"
  have "Suc ?m \<le> 12" using assms(1) by (auto simp: civil_valid_def)
  then have "month_days ?y ?m + days_in_month ?y ?m \<le> days_in_year ?y" "0 \<le> month_days ?y ?m"
    using month_days_mono [of "Suc ?m" 12 ?y] month_days_mono [of 0 ?m ?y] month_days_12 [of ?y] by simp_all
  moreover have "year_days 1678 \<le> year_days ?y" "year_days (?y + 1) \<le> year_days 2262"
    using assms(2,3) by (auto intro!: year_days_mono)
  ultimately have "- 106650 \<le> civil_days ?y ?m (int (digits_val (ts_day x)))"
    "civil_days ?y ?m (int (digits_val (ts_day x))) \<le> 106650"
    using assms(1) year_days_Suc [of ?y]
    by (auto simp: civil_days_def civil_valid_def year_days_def [of 1678] year_days_def [of 1970]
        year_days_def [of 2262])
  with assms(1) show "- 9214560000 \<le> civil_seconds x" "civil_seconds x \<le> 9214646400"
    by (auto simp: civil_seconds_def civil_valid_def)
qed

lemma ParseDateTime_text:
  fixes rest :: string
  assumes "timestamp_well_formed x"
  defines "s \<equiv> ts_year x @ ''-'' @ ts_month x @ ''-'' @ ts_day x @ [ts_sep x] @ ts_hours x @ '':''
     @ ts_minutes x @ '':'' @ ts_seconds x @ rest"
  shows "civil_valid x \<Longrightarrow> ParseDateTime have_ex zone s ts
           = bindR (from_time_t (civil_seconds x - zone (civil_seconds x))) (\<lambda>tp. Inr (tp, rest))"
    "\<not> civil_valid x \<Longrightarrow> \<exists>msg. ParseDateTime have_ex zone s ts = Inl (ReportError have_ex ts msg)"
proof -
  have len: "length s - length rest = 19"
    using assms(1) by (simp add: s_def timestamp_well_formed_def digits_def)
  note scan = scan_date_time_text [OF assms(1), of rest, folded s_def]
  have "timegm (date_time_tm (text_fields x)) = civil_seconds x" if "civil_valid x"
    using that by (simp add: timegm_def date_time_tm_def text_fields_def civil_seconds_def
        civil_valid_def nat_diff_distrib)
  then show "civil_valid x \<Longrightarrow> ParseDateTime have_ex zone s ts
      = bindR (from_time_t (civil_seconds x - zone (civil_seconds x))) (\<lambda>tp. Inr (tp, rest))"
    using text_fields_ok_iff [OF assms(1)] by (simp add: ParseDateTime_def scan len mktime_def)
  show "\<not> civil_valid x \<Longrightarrow> \<exists>msg. ParseDateTime have_ex zone s ts = Inl (ReportError have_ex ts msg)"
    using text_fields_ok_iff [OF assms(1)] by (auto simp: ParseDateTime_def scan len)
qed

lemma timestamp_print_no_nul:
  assumes "timestamp_well_formed x"
  shows "c_str (timestamp_print x) = timestamp_print x"
proof (rule c_str_no_nul)
  have "\<not> is_digit (CHR 0x00)" by (simp add: is_digit_def)
  then have d: "CHR 0x00 \<notin> set s" if "digits n s" for n s
    using that by (auto simp: digits_def)
  from \<open>\<not> is_digit (CHR 0x00)\<close> assms have "CHR 0x00 \<notin> set (fraction_print (ts_fraction x))"
    by (cases "ts_fraction x") (auto simp: timestamp_well_formed_def)
  moreover from assms have "CHR 0x00 \<notin> set (offset_print (ts_offset x))"
    by (cases "ts_offset x") (auto simp: timestamp_well_formed_def dest: d)
  ultimately show "CHR 0x00 \<notin> set (timestamp_print x)"
    using assms by (auto simp: timestamp_print_def timestamp_well_formed_def dest: d)
qed

lemma ParseRfc3339_text:
  assumes "timestamp_well_formed x" "1678 \<le> digits_val (ts_year x)" "digits_val (ts_year x) \<le> 2261"
    and "zone_ok zone" "civil_valid x"
  shows "offset_valid (ts_offset x) \<Longrightarrow> ParseRfc3339 have_ex zone now (timestamp_print x)
           = Inr (timestamp_instant x + (zone now - zone (civil_seconds x)) * ns_per_s)"
    "\<not> offset_valid (ts_offset x) \<Longrightarrow> \<exists>msg. ParseRfc3339 have_ex zone now (timestamp_print x)
           = Inl (ReportError have_ex (timestamp_print x) msg)"
proof -
  let ?c = "civil_seconds x" and ?o = "offset_seconds (ts_offset x)" and ?f = "fraction_nanos (ts_fraction x)"
  have wf: "fraction_well_formed (ts_fraction x)" "offset_well_formed (ts_offset x)"
    using assms(1) by (simp_all add: timestamp_well_formed_def)
  have c: "- 9214560000 \<le> ?c" "?c \<le> 9214646400" using civil_seconds_bounds assms by blast+
  have z: "\<bar>zone ?c\<bar> \<le> 86400" "\<bar>zone now\<bar> \<le> 86400" using assms(4) by (simp_all add: zone_ok_def)
  have f: "0 \<le> ?f" "?f < 1000000000" using fraction_nanos_bounds [OF wf(1)] by (simp_all add: ns_per_s_def)
  have "in_int64 ((?c - zone ?c) * ns_per_s)" using c z by (auto simp: in_int64_def ns_per_s_def)
  then have d: "ParseDateTime have_ex zone (c_str (timestamp_print x)) ts
      = Inr ((?c - zone ?c) * ns_per_s, fraction_print (ts_fraction x) @ offset_print (ts_offset x))" for ts
    unfolding timestamp_print_no_nul [OF assms(1)] unfolding timestamp_print_def
    by (simp only: ParseDateTime_text(1) [OF assms(1,5)] from_time_t_def check_clock_def if_True bindR_simps)
  have p: "ParseFractionalSeconds have_ex (fraction_print (ts_fraction x) @ offset_print (ts_offset x)) ts
      = Inr (?f, offset_print (ts_offset x))" for ts
    using offset_print_start [OF wf(2)] ParseFractionalSeconds_text [OF wf(1)] by metis
  show "\<exists>msg. ParseRfc3339 have_ex zone now (timestamp_print x) = Inl (ReportError have_ex (timestamp_print x) msg)"
    if "\<not> offset_valid (ts_offset x)"
    using ParseOffset_text(2) [OF wf(2) that, of have_ex "timestamp_print x"]
    by (auto simp: ParseRfc3339_def d p)
  assume off: "offset_valid (ts_offset x)"
  note o = ParseOffset_text(1) [OF wf(2) off]
  have "in_int64 ((?c - zone ?c) * ns_per_s + ?f)" "in_int64 ((?c - zone ?c) * ns_per_s + ?f - ?o * ns_per_s)"
    "in_int64 ((?c - zone ?c) * ns_per_s + ?f - ?o * ns_per_s + zone now * ns_per_s)"
    using c z f offset_seconds_bounds [OF off] by (auto simp: in_int64_def ns_per_s_def)
  then show "ParseRfc3339 have_ex zone now (timestamp_print x)
      = Inr (timestamp_instant x + (zone now - zone ?c) * ns_per_s)"
    by (simp add: ParseRfc3339_def d p o check_clock_def kLocalTimeOffset_eq timestamp_instant_def algebra_simps)
qed

section \<open>Properties\<close>

text \<open>
  C23: formatting a time point with \<^verbatim>\<open>FormatRfc3339\<close> and parsing the text with \<^verbatim>\<open>ParseRfc3339\<close> gives
  the time point, to the nanosecond, plus the difference between the standard-time offset of the
  local zone when the parser was first called and its offset at the time parsed: the same time
  point exactly when the two offsets are equal, in particular in every zone whose offset does not
  change. The time point is at or after the epoch (before it the fraction is printed with a sign,
  \<open>FormatRfc3339_before_epoch\<close>) and not in the last two days of the range of the clock, where the
  intermediate local times need not fit.
\<close>

theorem FormatRfc3339_ParseRfc3339_roundtrip:
  assumes "0 \<le> tp" "tp + 172801 * ns_per_s < 2 ^ 63" "zone_ok zone"
  shows "ParseRfc3339 have_ex zone now (FormatRfc3339 tp)
           = Inr (tp + (zone now - zone (tp div ns_per_s)) * ns_per_s) \<and>
         (ParseRfc3339 have_ex zone now (FormatRfc3339 tp) = Inr tp \<longleftrightarrow> zone (tp div ns_per_s) = zone now)"
proof -
  have "ParseRfc3339 have_ex zone now (FormatRfc3339 tp)
           = Inr (tp + (zone now - zone (tp div ns_per_s)) * ns_per_s)"
  proof (rule ParseRfc3339_of_fields [OF assms _ refl])
    have "gmtime (tp div ns_per_s) = AsUtcTm tp"
      using assms(1) by (simp add: AsUtcTm_def to_time_t_nonneg)
    then show "FormatRfc3339 tp = fmt_Y (gmtime (tp div ns_per_s)) @ ''-'' @ fmt_m (gmtime (tp div ns_per_s))
        @ ''-'' @ fmt_d (gmtime (tp div ns_per_s)) @ ''T'' @ fmt_H (gmtime (tp div ns_per_s)) @ '':''
        @ fmt_M (gmtime (tp div ns_per_s)) @ '':'' @ fmt_S (gmtime (tp div ns_per_s))
        @ (FormatFractional (tp mod ns_per_s) @ ''Z'')"
      using assms(1) by (simp add: FormatRfc3339_def Let_def trunc_ns_remainder)
    show "ParseFractionalSeconds have_ex (FormatFractional (tp mod ns_per_s) @ ''Z'') ts
        = Inr (tp mod ns_per_s, ''Z'')" for ts
      by (rule ParseFractional_Format) (simp_all add: ns_per_s_def)
  qed (rule FormatRfc3339_no_nul)
  then show ?thesis by (auto simp: ns_per_s_def)
qed

text \<open>
  The witness is a program in Moscow, four hours east of UTC from March 2011 to October 2014 and
  three hours since: a time of 2018 survives, and the start of 2012 comes back an hour early.
\<close>

definition moscow :: "int \<Rightarrow> int" where
  "moscow c = (if 1301194800 \<le> c \<and> c < 1414288800 then 4 * 3600 else 3 * 3600)"

theorem FormatRfc3339_ParseRfc3339_roundtrip_witness:
  "ParseRfc3339 True moscow 1526654000 (FormatRfc3339 1526654523123456789) = Inr 1526654523123456789 \<and>
   ParseRfc3339 True moscow 1526654000 (FormatRfc3339 1325376000000000000) = Inr 1325372400000000000"
proof -
  have "zone_ok moscow" by (simp add: zone_ok_def moscow_def)
  then show ?thesis
    using FormatRfc3339_ParseRfc3339_roundtrip [of 1526654523123456789 moscow True 1526654000]
      FormatRfc3339_ParseRfc3339_roundtrip [of 1325376000000000000 moscow True 1526654000]
    by (simp add: ns_per_s_def moscow_def)
qed

text \<open>
  C30: \<^verbatim>\<open>ParseRfc3339\<close> on every text of the grammar its error message gives, with a year from 1678
  to 2261, so that every intermediate time fits the clock. It accepts exactly the texts whose date
  is in the calendar (29 February in leap years only), whose time of day has a second of at most
  60 and whose offset is under a day, and reports all others as an invalid argument. An accepted
  text gives the instant it denotes in UTC, offset and fraction (truncated to nanoseconds)
  included, moved by the difference of the standard-time offsets the local zone has at the first
  call and at the civil time parsed, which is 0 in a zone that keeps its offset.
\<close>

theorem ParseRfc3339_grammar:
  assumes "timestamp_well_formed x" "1678 \<le> digits_val (ts_year x)" "digits_val (ts_year x) \<le> 2261"
    and "zone_ok zone"
  shows "if civil_valid x \<and> offset_valid (ts_offset x)
         then ParseRfc3339 have_ex zone now (timestamp_print x)
           = Inr (timestamp_instant x + (zone now - zone (civil_seconds x)) * ns_per_s)
         else \<exists>msg. ParseRfc3339 have_ex zone now (timestamp_print x)
           = Inl (ReportError have_ex (timestamp_print x) msg)"
proof (cases "civil_valid x")
  case True
  with ParseRfc3339_text [OF assms] show ?thesis by simp
next
  case False
  then obtain msg where "ParseDateTime have_ex zone (timestamp_print x) (timestamp_print x)
      = Inl (ReportError have_ex (timestamp_print x) msg)"
    using ParseDateTime_text(2) [OF assms(1) False, of have_ex zone
        "fraction_print (ts_fraction x) @ offset_print (ts_offset x)" "timestamp_print x",
        folded timestamp_print_def] by blast
  with False show ?thesis
    by (auto simp: ParseRfc3339_def timestamp_print_no_nul [OF assms(1)])
qed

definition leap_day :: "string \<Rightarrow> timestamp_text" where
  "leap_day year = \<lparr>ts_year = year, ts_month = ''02'', ts_day = ''29'', ts_sep = CHR ''T'', ts_hours = ''23'',
     ts_minutes = ''59'', ts_seconds = ''60'', ts_fraction = Some ''5'',
     ts_offset = Numeric False ''00'' ''30''\<rparr>"

lemmas leap_day_defs = leap_day_def timestamp_well_formed_def digits_def is_digit_def digits_val_def
  digit_val_def civil_valid_def days_in_month_def leap_def timestamp_instant_def civil_seconds_def
  civil_days_def year_days_def timestamp_print_def ns_per_s_def

theorem ParseRfc3339_grammar_witness:
  "ParseRfc3339 True (\<lambda>_. - 3600) 7 ''2020-02-29T23:59:60.5-00:30'' = Inr 1583022600500000000 \<and>
   (\<exists>msg. ParseRfc3339 True (\<lambda>_. - 3600) 7 ''2021-02-29T23:59:60.5-00:30''
      = Inl (ReportError True ''2021-02-29T23:59:60.5-00:30'' msg))"
proof -
  let ?x = "leap_day ''2020''" and ?y = "leap_day ''2021''"
  have z: "zone_ok (\<lambda>_. - 3600)" by (simp add: zone_ok_def)
  have x: "timestamp_well_formed ?x" "1678 \<le> digits_val (ts_year ?x)" "digits_val (ts_year ?x) \<le> 2261"
    "civil_valid ?x \<and> offset_valid (ts_offset ?x)" "timestamp_instant ?x = 1583022600500000000"
    "timestamp_print ?x = ''2020-02-29T23:59:60.5-00:30''"
    by (simp_all add: leap_day_defs)
  have y: "timestamp_well_formed ?y" "1678 \<le> digits_val (ts_year ?y)" "digits_val (ts_year ?y) \<le> 2261"
    "\<not> (civil_valid ?y \<and> offset_valid (ts_offset ?y))"
    "timestamp_print ?y = ''2021-02-29T23:59:60.5-00:30''"
    by (simp_all add: leap_day_defs)
  from ParseRfc3339_grammar [OF x(1-3) z, of True 7] ParseRfc3339_grammar [OF y(1-3) z, of True 7]
  show ?thesis by (simp only: if_P [OF x(4)] if_not_P [OF y(4)] x(5,6) y(5)) simp
qed

text \<open>
  Before the epoch the formatter is not inverted by the parser. Half a second before the
  epoch prints with a negative fraction, which the grammar of RFC 3339 does not have, and the parser
  reads that text as a tenth of the distance.
\<close>

lemma FormatRfc3339_before_epoch:
  "FormatRfc3339 (- 500000000) = ''1970-01-01T00:00:00.-500Z'' \<and>
   ParseRfc3339 True (\<lambda>_. 0) 0 (FormatRfc3339 (- 500000000)) = Inr (- 50000000)"
  by (intro conjI) code_simp+

text \<open>
  The parser accepts texts outside the grammar its error message gives: blanks and signs in
  place of leading zeros, a signed fraction, and anything after an embedded NUL; and a date the
  grammar allows but the 64-bit clock cannot hold overflows instead of being reported.
\<close>

theorem ParseRfc3339_accepts_more:
  "ParseRfc3339 True (\<lambda>_. 0) 0 ''2018- 5-+8T 4:42: 3Z'' = ParseRfc3339 True (\<lambda>_. 0) 0 ''2018-05-08T04:42:03Z'' \<and>
   ParseRfc3339 True (\<lambda>_. 0) 0 ''2018-05-08T04:42:03.-5Z'' = Inr 1525754522950000000 \<and>
   ParseRfc3339 True (\<lambda>_. 0) 0 (''2018-05-08T04:42:03Z'' @ CHR 0x00 # ''junk'') = Inr 1525754523000000000 \<and>
   ParseRfc3339 True (\<lambda>_. 0) 0 ''2300-01-01T00:00:00Z'' = Inl (UB SignedOverflow)"
  by (intro conjI) code_simp+

end
