(* ===== verification/Std_Containers.thy ===== *)
theory Std_Containers
  imports Prelude "HOL-Library.Product_Lexorder"
begin

text \<open>
  The ordered containers of the C++ standard library. A \<^verbatim>\<open>std::map\<close> is its sequence of pairs in
  strictly ascending key order, a \<^verbatim>\<open>std::set\<close> its strictly ascending sequence of elements, so that
  iteration order and the lexicographic comparison of containers are those of the lists. The
  locale \<open>assoc_container\<close> is what the components that keep a map rely on.
\<close>

section \<open>The contract of an associative container\<close>

locale assoc_container =
  fixes invar :: "'m \<Rightarrow> bool"
    and find_key :: "'k \<Rightarrow> 'm \<Rightarrow> 'v option"
    and emplace :: "'k \<Rightarrow> 'v \<Rightarrow> 'm \<Rightarrow> 'm"
    and put :: "'k \<Rightarrow> 'v \<Rightarrow> 'm \<Rightarrow> 'm"
    and erase_key :: "'k \<Rightarrow> 'm \<Rightarrow> 'm"
  assumes find_emplace:
      "invar m \<Longrightarrow> find_key k' (emplace k v m) =
         (if k' = k \<and> find_key k m = None then Some v else find_key k' m)"
    and find_put: "invar m \<Longrightarrow> find_key k' (put k v m) = (if k' = k then Some v else find_key k' m)"
    and find_erase: "invar m \<Longrightarrow> find_key k' (erase_key k m) = (if k' = k then None else find_key k' m)"
    and invar_emplace: "invar m \<Longrightarrow> invar (emplace k v m)"
    and invar_put: "invar m \<Longrightarrow> invar (put k v m)"
    and invar_erase: "invar m \<Longrightarrow> invar (erase_key k m)"
begin

lemma find_erase_emplace:
  "invar m \<Longrightarrow> find_key k m = None \<Longrightarrow> find_key k' (erase_key k (emplace k v m)) = find_key k' m"
  by (simp add: find_erase find_emplace invar_emplace)

text \<open>Emplacing a sequence of pairs keeps the first value of every key.\<close>

lemma fold_emplace:
  assumes "invar m"
  shows "invar (fold (\<lambda>(k, v). emplace k v) kvs m) \<and>
         find_key k' (fold (\<lambda>(k, v). emplace k v) kvs m) =
           (case find_key k' m of Some v \<Rightarrow> Some v | None \<Rightarrow> map_of kvs k')"
  using assms
proof (induction kvs arbitrary: m)
  case Nil
  then show ?case by (simp split: option.splits)
next
  case (Cons kv kvs)
  obtain k v where kv: "kv = (k, v)" by (cases kv)
  have "invar (emplace k v m)" using Cons.prems by (rule invar_emplace)
  from Cons.IH [OF this] show ?case
    using Cons.prems by (auto simp: kv find_emplace split: option.splits)
qed

end

section \<open>std::map\<close>

type_synonym ('k, 'v) smap = "('k \<times> 'v) list"

definition map_wf :: "('k::linorder, 'v) smap \<Rightarrow> bool" where
  "map_wf m \<longleftrightarrow> sorted_wrt (<) (map fst m)"

definition map_find :: "'k \<Rightarrow> ('k, 'v) smap \<Rightarrow> 'v option" where
  "map_find k m = map_of m k"

text \<open>\<^verbatim>\<open>m[k] = v\<close>: overwrite the value of an existing key, or insert in order.\<close>

fun map_put :: "'k::linorder \<Rightarrow> 'v \<Rightarrow> ('k, 'v) smap \<Rightarrow> ('k, 'v) smap" where
  "map_put k v [] = [(k, v)]"
| "map_put k v ((k', v') # m) =
     (if k < k' then (k, v) # (k', v') # m
      else if k = k' then (k, v) # m
      else (k', v') # map_put k v m)"

text \<open>\<^verbatim>\<open>m.emplace(k, v)\<close> and \<^verbatim>\<open>m.insert({k, v})\<close> leave an existing key alone.\<close>

definition map_emplace :: "'k::linorder \<Rightarrow> 'v \<Rightarrow> ('k, 'v) smap \<Rightarrow> ('k, 'v) smap" where
  "map_emplace k v m = (case map_find k m of None \<Rightarrow> map_put k v m | Some _ \<Rightarrow> m)"

definition map_erase :: "'k \<Rightarrow> ('k, 'v) smap \<Rightarrow> ('k, 'v) smap" where
  "map_erase k m = filter (\<lambda>kv. fst kv \<noteq> k) m"

lemma map_of_map_put: "map_of (map_put k v m) k' = (if k' = k then Some v else map_of m k')"
  by (induction k v m rule: map_put.induct) auto

lemma keys_map_put [simp]: "set (map fst (map_put k v m)) = insert k (set (map fst m))"
  by (induction k v m rule: map_put.induct) auto

lemma map_wf_simps [simp]:
  "map_wf []"
  "map_wf ((k, v) # m) \<longleftrightarrow> (\<forall>k' \<in> set (map fst m). k < k') \<and> map_wf m"
  by (simp_all add: map_wf_def)

lemma map_wf_put: "map_wf m \<Longrightarrow> map_wf (map_put k v m)"
proof (induction k v m rule: map_put.induct)
  case (1 k v)
  then show ?case by simp
next
  case (2 k v k' v' m)
  then show ?case by (auto simp del: set_map)
qed

lemma map_wf_filter: "map_wf m \<Longrightarrow> map_wf (filter P m)"
  by (induction m) auto

lemma map_of_filter_key: "map_of (filter (\<lambda>kv. fst kv \<noteq> k) m) k' = (if k' = k then None else map_of m k')"
  by (induction m) auto

interpretation smap: assoc_container map_wf map_find map_emplace map_put map_erase
proof (unfold_locales, goal_cases)
  case (1 m k' k v)
  then show ?case by (simp add: map_emplace_def map_find_def map_of_map_put split: option.splits)
next
  case (2 m k' k v)
  then show ?case by (simp add: map_find_def map_of_map_put)
next
  case (3 m k' k)
  then show ?case by (simp add: map_find_def map_erase_def map_of_filter_key)
next
  case (4 m k v)
  then show ?case by (simp add: map_emplace_def map_wf_put split: option.splits)
next
  case (5 m k v)
  then show ?case by (rule map_wf_put)
next
  case (6 m k)
  then show ?case by (simp add: map_erase_def map_wf_filter)
qed

text \<open>A well-formed map is determined by its lookups.\<close>

lemma map_wf_distinct: "map_wf m \<Longrightarrow> distinct (map fst m)"
  by (simp add: map_wf_def strict_sorted_iff)

lemma map_find_keys: "map_find k m = None \<longleftrightarrow> k \<notin> set (map fst m)"
  by (simp add: map_find_def map_of_eq_None_iff)

lemma map_of_rebuild: "distinct (map fst m) \<Longrightarrow> map (\<lambda>k. (k, the (map_of m k))) (map fst m) = m"
  unfolding map_map comp_def by (rule map_idI) (auto simp: map_of_is_SomeI)

lemma map_ext:
  assumes "map_wf m" "map_wf n" "\<And>k. map_find k m = map_find k n"
  shows "m = n"
proof -
  have d: "distinct (map fst m)" "distinct (map fst n)"
    using assms(1,2) by (simp_all add: map_wf_distinct)
  have eq: "map_of m = map_of n" using assms(3) by (auto simp: map_find_def)
  then have "set (map fst m) = set (map fst n)"
    by (simp flip: dom_map_of_conv_image_fst)
  then have keys: "map fst m = map fst n"
    using assms(1,2) by (auto simp: map_wf_def intro: strict_sorted_equal)
  have "m = map (\<lambda>k. (k, the (map_of m k))) (map fst m)"
    by (rule map_of_rebuild [OF d(1), symmetric])
  also have "\<dots> = map (\<lambda>k. (k, the (map_of n k))) (map fst n)" by (simp only: eq keys)
  also have "\<dots> = n" by (rule map_of_rebuild [OF d(2)])
  finally show ?thesis .
qed

lemma map_find_in: "map_wf m \<Longrightarrow> map_find k m = Some v \<longleftrightarrow> (k, v) \<in> set m"
  by (simp add: map_find_def map_wf_distinct)

lemma length_map_erase:
  assumes "map_wf m" "map_find k m = Some v"
  shows "Suc (length (map_erase k m)) = length m"
proof -
  have "(k, v) \<in> set m" using assms by (simp add: map_find_in)
  then obtain a b where m: "m = a @ (k, v) # b" by (auto simp: in_set_conv_decomp)
  have "distinct (map fst m)" using assms(1) by (rule map_wf_distinct)
  then have "k \<notin> set (map fst a)" "k \<notin> set (map fst b)" by (simp_all add: m)
  then have "filter (\<lambda>kv. fst kv \<noteq> k) a = a" "filter (\<lambda>kv. fst kv \<noteq> k) b = b"
    by (auto simp: filter_id_conv)
  then show ?thesis by (simp add: map_erase_def m)
qed

section \<open>std::set\<close>

definition set_wf :: "('a::linorder) list \<Rightarrow> bool" where
  "set_wf s \<longleftrightarrow> sorted s \<and> distinct s"

definition set_emplace :: "'a::linorder \<Rightarrow> 'a list \<Rightarrow> 'a list" where
  "set_emplace x s = insort_insert x s"

definition set_insert_range :: "'a::linorder list \<Rightarrow> 'a list \<Rightarrow> 'a list" where
  "set_insert_range xs s = fold set_emplace xs s"

definition set_erase :: "'a \<Rightarrow> 'a list \<Rightarrow> 'a list" where
  "set_erase x s = remove1 x s"

lemma set_wf_Nil [simp]: "set_wf []"
  by (simp add: set_wf_def)

lemma set_emplace_ok [simp]:
  "set_wf s \<Longrightarrow> set_wf (set_emplace x s)" "set (set_emplace x s) = insert x (set s)"
  by (simp_all add: set_wf_def set_emplace_def sorted_insort_insert distinct_insort_insert
      set_insort_insert)

lemma set_insert_range_ok [simp]:
  "set_wf s \<Longrightarrow> set_wf (set_insert_range xs s)" "set (set_insert_range xs s) = set xs \<union> set s"
  unfolding set_insert_range_def by (induction xs arbitrary: s) auto

lemma set_erase_ok [simp]:
  "set_wf s \<Longrightarrow> set_wf (set_erase x s)" "set_wf s \<Longrightarrow> set (set_erase x s) = set s - {x}"
  by (simp_all add: set_wf_def set_erase_def sorted_remove1)

lemma set_wf_ext: "set_wf s \<Longrightarrow> set_wf t \<Longrightarrow> set s = set t \<Longrightarrow> s = t"
  by (simp add: set_wf_def sorted_distinct_set_unique)

end
