(* ===== verification/Iam.thy ===== *)
theory Iam
  imports Std_Containers
begin

text \<open>
  The IAM policy values: \<^verbatim>\<open>IamBinding\<close> (\<^verbatim>\<open>iam_binding.h\<close>), the \<^verbatim>\<open>IamBindings\<close> container
  (\<^verbatim>\<open>iam_bindings.h\<close>, \<^verbatim>\<open>iam_bindings.cc\<close>) and \<^verbatim>\<open>IamPolicy\<close> (\<^verbatim>\<open>iam_policy.h\<close>, \<^verbatim>\<open>iam_policy.cc\<close>).
  \<^verbatim>\<open>bindings_\<close>, a map from roles to sets of members, is a sorted list of pairs.
\<close>

record IamBinding =
  ib_role :: string
  ib_members :: "string list"

type_synonym IamBindings = "(string, string list) smap"

section \<open>Operations\<close>

definition IamBindings_of_vector :: "IamBinding list \<Rightarrow> IamBindings" where
  "IamBindings_of_vector bs = fold (\<lambda>b. map_emplace (ib_role b) (ib_members b)) bs []"

definition IamBindings_of_role :: "string \<Rightarrow> string list \<Rightarrow> IamBindings" where
  "IamBindings_of_role role members = map_emplace role members []"

definition IamBindings_at :: "IamBindings \<Rightarrow> string \<Rightarrow> string list" where
  "IamBindings_at b role = (case map_find role b of None \<Rightarrow> [] | Some ms \<Rightarrow> ms)"

definition IamBindings_empty :: "IamBindings \<Rightarrow> bool" where
  "IamBindings_empty b \<longleftrightarrow> b = []"

definition IamBindings_size :: "IamBindings \<Rightarrow> nat" where
  "IamBindings_size b = length b"

text \<open>\<^verbatim>\<open>bindings_[role]\<close> inserts an empty set for an absent role and returns a reference to it.\<close>

definition IamBindings_subscript :: "IamBindings \<Rightarrow> string \<Rightarrow> string list" where
  "IamBindings_subscript b role = (case map_find role b of None \<Rightarrow> [] | Some ms \<Rightarrow> ms)"

definition AddMember :: "string \<Rightarrow> string \<Rightarrow> IamBindings \<Rightarrow> IamBindings" where
  "AddMember role member b = map_put role (set_emplace member (IamBindings_subscript b role)) b"

definition AddMembers :: "string \<Rightarrow> string list \<Rightarrow> IamBindings \<Rightarrow> IamBindings" where
  "AddMembers role members b =
     map_put role (set_insert_range members (IamBindings_subscript b role)) b"

definition AddMembers_binding :: "IamBinding \<Rightarrow> IamBindings \<Rightarrow> IamBindings" where
  "AddMembers_binding ib b =
     map_put (ib_role ib) (set_insert_range (ib_members ib) (IamBindings_subscript b (ib_role ib))) b"

definition RemoveMember :: "string \<Rightarrow> string \<Rightarrow> IamBindings \<Rightarrow> IamBindings" where
  "RemoveMember role member b =
     (case map_find role b of
        None \<Rightarrow> b
      | Some members \<Rightarrow>
          let members' = (if member \<in> set members then set_erase member members else members) in
          if members' = [] then map_erase role b else map_put role members' b)"

text \<open>The loop of \<^verbatim>\<open>RemoveMembers\<close> over the members to remove.\<close>

fun remove_loop :: "string list \<Rightarrow> string list \<Rightarrow> string list" where
  "remove_loop [] binding_members = binding_members"
| "remove_loop (m # ms) binding_members =
     remove_loop ms
       (if m \<in> set binding_members then set_erase m binding_members else binding_members)"

definition RemoveMembers :: "string \<Rightarrow> string list \<Rightarrow> IamBindings \<Rightarrow> IamBindings" where
  "RemoveMembers role members b =
     (case map_find role b of
        None \<Rightarrow> b
      | Some binding_members \<Rightarrow>
          let left = remove_loop members binding_members in
          if left = [] then map_erase role b else map_put role left b)"

definition RemoveMembers_binding :: "IamBinding \<Rightarrow> IamBindings \<Rightarrow> IamBindings" where
  "RemoveMembers_binding ib b = RemoveMembers (ib_role ib) (ib_members ib) b"

text \<open>The streaming operator: the separators of the two loops.\<close>

fun join_members :: "string \<Rightarrow> string list \<Rightarrow> string" where
  "join_members sep [] = []"
| "join_members sep (m # ms) = sep @ m @ join_members '', '' ms"

fun print_bindings :: "string \<Rightarrow> IamBindings \<Rightarrow> string" where
  "print_bindings sep [] = []"
| "print_bindings sep ((role, ms) # b) =
     sep @ role @ '': ['' @ join_members [] ms @ '']'' @ print_bindings '', '' b"

definition IamBindings_print :: "IamBindings \<Rightarrow> string" where
  "IamBindings_print b = ''IamBindings={'' @ print_bindings [] b @ ''}''"

text \<open>Comparison of bindings compares the maps.\<close>

definition IamBindings_eq :: "IamBindings \<Rightarrow> IamBindings \<Rightarrow> bool" where
  "IamBindings_eq a b \<longleftrightarrow> a = b"

definition IamBindings_less :: "IamBindings \<Rightarrow> IamBindings \<Rightarrow> bool" where
  "IamBindings_less a b \<longleftrightarrow> a < b"

text \<open>The other operators are those of \<^verbatim>\<open>std::rel_ops\<close>, from equality and less.\<close>

definition IamBindings_neq :: "IamBindings \<Rightarrow> IamBindings \<Rightarrow> bool" where
  "IamBindings_neq a b \<longleftrightarrow> \<not> IamBindings_eq a b"

definition IamBindings_greater :: "IamBindings \<Rightarrow> IamBindings \<Rightarrow> bool" where
  "IamBindings_greater a b \<longleftrightarrow> IamBindings_less b a"

definition IamBindings_leq :: "IamBindings \<Rightarrow> IamBindings \<Rightarrow> bool" where
  "IamBindings_leq a b \<longleftrightarrow> \<not> IamBindings_less b a"

definition IamBindings_geq :: "IamBindings \<Rightarrow> IamBindings \<Rightarrow> bool" where
  "IamBindings_geq a b \<longleftrightarrow> \<not> IamBindings_less a b"

record IamPolicy =
  ip_version :: int
  ip_bindings :: IamBindings
  ip_etag :: string

definition IamPolicy_eq :: "IamPolicy \<Rightarrow> IamPolicy \<Rightarrow> bool" where
  "IamPolicy_eq a b \<longleftrightarrow>
     (ip_version a, ip_bindings a, ip_etag a) = (ip_version b, ip_bindings b, ip_etag b)"

definition IamPolicy_less :: "IamPolicy \<Rightarrow> IamPolicy \<Rightarrow> bool" where
  "IamPolicy_less a b \<longleftrightarrow>
     (ip_version a, ip_bindings a, ip_etag a) < (ip_version b, ip_bindings b, ip_etag b)"

definition IamPolicy_leq :: "IamPolicy \<Rightarrow> IamPolicy \<Rightarrow> bool" where
  "IamPolicy_leq a b \<longleftrightarrow> \<not> IamPolicy_less b a"

definition IamPolicy_neq :: "IamPolicy \<Rightarrow> IamPolicy \<Rightarrow> bool" where
  "IamPolicy_neq a b \<longleftrightarrow> \<not> IamPolicy_eq a b"

definition IamPolicy_greater :: "IamPolicy \<Rightarrow> IamPolicy \<Rightarrow> bool" where
  "IamPolicy_greater a b \<longleftrightarrow> IamPolicy_less b a"

definition IamPolicy_geq :: "IamPolicy \<Rightarrow> IamPolicy \<Rightarrow> bool" where
  "IamPolicy_geq a b \<longleftrightarrow> \<not> IamPolicy_less a b"

definition IamPolicy_print :: "IamPolicy \<Rightarrow> string" where
  "IamPolicy_print p =
     ''IamPolicy={version='' @ int_to_dec (ip_version p) @ '', bindings=''
     @ IamBindings_print (ip_bindings p) @ '', etag='' @ ip_etag p @ ''}''"

section \<open>Invariant and abstraction\<close>

text \<open>Roles in ascending order, and for each role its members in ascending order.\<close>

definition Iam_wf :: "IamBindings \<Rightarrow> bool" where
  "Iam_wf b \<longleftrightarrow> map_wf b \<and> (\<forall>(role, ms) \<in> set b. set_wf ms)"

text \<open>Who has a role.\<close>

definition granted :: "IamBindings \<Rightarrow> string \<Rightarrow> string set" where
  "granted b role = set (IamBindings_at b role)"

lemma Iam_wf_map [simp]: "Iam_wf b \<Longrightarrow> map_wf b"
  by (simp add: Iam_wf_def)

lemma Iam_wf_find: "Iam_wf b \<Longrightarrow> map_find role b = Some ms \<Longrightarrow> set_wf ms"
  by (auto simp: Iam_wf_def map_find_in)

lemma Iam_wfI:
  assumes "map_wf b" "\<And>role ms. map_find role b = Some ms \<Longrightarrow> set_wf ms"
  shows "Iam_wf b"
proof -
  have "set_wf ms" if "(role, ms) \<in> set b" for role ms
    using that assms(1) by (auto intro: assms(2) simp: map_find_in)
  with assms(1) show ?thesis by (auto simp: Iam_wf_def)
qed

lemma Iam_wf_put:
  assumes "Iam_wf b" "set_wf ms"
  shows "Iam_wf (map_put role ms b)"
proof (rule Iam_wfI)
  show "map_wf (map_put role ms b)" using assms(1) by (simp add: smap.invar_put)
  fix r ns assume "map_find r (map_put role ms b) = Some ns"
  then have "r = role \<and> ns = ms \<or> map_find r b = Some ns"
    using assms(1) by (simp add: smap.find_put split: if_splits)
  then show "set_wf ns" using assms Iam_wf_find by blast
qed

lemma Iam_wf_erase:
  assumes "Iam_wf b"
  shows "Iam_wf (map_erase role b)"
proof (rule Iam_wfI)
  show "map_wf (map_erase role b)" using assms by (simp add: smap.invar_erase)
  fix r ns assume "map_find r (map_erase role b) = Some ns"
  then have "map_find r b = Some ns" using assms by (simp add: smap.find_erase split: if_splits)
  then show "set_wf ns" by (rule Iam_wf_find [OF assms])
qed

lemma subscript_wf: "Iam_wf b \<Longrightarrow> set_wf (IamBindings_subscript b role)"
  using Iam_wf_find by (simp add: IamBindings_subscript_def split: option.splits)

lemma subscript_granted: "set (IamBindings_subscript b role) = granted b role"
  by (simp add: IamBindings_subscript_def granted_def IamBindings_at_def)

lemma granted_put: "Iam_wf b \<Longrightarrow> granted (map_put role ms b) = (granted b)(role := set ms)"
  by (auto simp: granted_def IamBindings_at_def smap.find_put fun_eq_iff)

lemma granted_erase: "Iam_wf b \<Longrightarrow> granted (map_erase role b) = (granted b)(role := {})"
  by (auto simp: granted_def IamBindings_at_def smap.find_erase fun_eq_iff)

lemma remove_loop_ok:
  "set_wf s \<Longrightarrow> set_wf (remove_loop ms s) \<and> set (remove_loop ms s) = set s - set ms"
proof (induction ms arbitrary: s)
  case Nil
  then show ?case by simp
next
  case (Cons m ms)
  have "set_wf (if m \<in> set s then set_erase m s else s)" using Cons.prems by simp
  from Cons.IH [OF this] Cons.prems show ?case by auto
qed

lemma RemoveMember_RemoveMembers: "RemoveMember role m b = RemoveMembers role [m] b"
  by (simp add: RemoveMember_def RemoveMembers_def Let_def split: option.splits)

lemma RemoveMembers_ok:
  assumes "Iam_wf b"
  shows "Iam_wf (RemoveMembers role ms b)"
    "granted (RemoveMembers role ms b) = (granted b)(role := granted b role - set ms)"
    "map_find role (RemoveMembers role ms b) \<noteq> Some []"
proof -
  show "Iam_wf (RemoveMembers role ms b)"
  proof (cases "map_find role b")
    case None
    with assms show ?thesis by (simp add: RemoveMembers_def)
  next
    case (Some bm)
    then have "set_wf (remove_loop ms bm)"
      using assms Iam_wf_find remove_loop_ok by blast
    with Some assms show ?thesis
      by (simp add: RemoveMembers_def Let_def Iam_wf_erase Iam_wf_put)
  qed
  show "map_find role (RemoveMembers role ms b) \<noteq> Some []"
    using assms by (auto simp: RemoveMembers_def Let_def smap.find_erase smap.find_put split: option.splits)
  show "granted (RemoveMembers role ms b) = (granted b)(role := granted b role - set ms)"
  proof (cases "map_find role b")
    case None
    then have "granted b role = {}" by (simp add: granted_def IamBindings_at_def)
    with None show ?thesis by (simp add: RemoveMembers_def fun_upd_idem)
  next
    case (Some bm)
    then have bm: "set_wf bm" "granted b role = set bm"
      using assms by (auto simp: granted_def IamBindings_at_def dest: Iam_wf_find)
    have left: "set (remove_loop ms bm) = granted b role - set ms"
      using remove_loop_ok [OF bm(1)] bm(2) by simp
    show ?thesis
    proof (cases "remove_loop ms bm = []")
      case True
      then have "RemoveMembers role ms b = map_erase role b" by (simp add: RemoveMembers_def Some)
      moreover from left True have "granted b role - set ms = {}" by simp
      ultimately show ?thesis by (simp only: granted_erase [OF assms])
    next
      case False
      with Some assms left show ?thesis by (simp add: RemoveMembers_def granted_put)
    qed
  qed
qed

lemma AddMembers_ok:
  assumes "Iam_wf b"
  shows "Iam_wf (AddMembers role ms b)"
    "granted (AddMembers role ms b) = (granted b)(role := granted b role \<union> set ms)"
  using assms subscript_wf [OF assms, of role]
  by (simp_all add: AddMembers_def Iam_wf_put granted_put subscript_granted Un_commute)

lemma AddMember_AddMembers: "AddMember role m b = AddMembers role [m] b"
  by (simp add: AddMember_def AddMembers_def set_insert_range_def)

lemma IamBindings_of_vector_fold:
  "IamBindings_of_vector bs = fold (\<lambda>(k, v). map_emplace k v) (map (\<lambda>b. (ib_role b, ib_members b)) bs) []"
  unfolding IamBindings_of_vector_def by (simp add: fold_map comp_def)

lemma IamBindings_of_vector_find:
  "map_wf (IamBindings_of_vector bs) \<and>
   map_find role (IamBindings_of_vector bs) = map_of (map (\<lambda>b. (ib_role b, ib_members b)) bs) role"
  unfolding IamBindings_of_vector_fold
  using smap.fold_emplace [of "[]" "map (\<lambda>b. (ib_role b, ib_members b)) bs" role]
  by (simp add: map_find_def)

section \<open>Properties\<close>

text \<open>
  C31: the container refines a map from roles to sets of members. Every operation keeps roles and
  members in order; adding members unites, removing members subtracts, both for the given role only;
  and after a removal the role has no binding with an empty member set.
\<close>

theorem IamBindings_refines_grants:
  assumes "Iam_wf b"
  shows
    "(Iam_wf (AddMember role m b) \<and>
       granted (AddMember role m b) = (granted b)(role := insert m (granted b role))) \<and>
     (Iam_wf (AddMembers role ms b) \<and>
       granted (AddMembers role ms b) = (granted b)(role := granted b role \<union> set ms)) \<and>
     (Iam_wf (RemoveMember role m b) \<and>
       granted (RemoveMember role m b) = (granted b)(role := granted b role - {m}) \<and>
       map_find role (RemoveMember role m b) \<noteq> Some []) \<and>
     (Iam_wf (RemoveMembers role ms b) \<and>
       granted (RemoveMembers role ms b) = (granted b)(role := granted b role - set ms) \<and>
       map_find role (RemoveMembers role ms b) \<noteq> Some [])"
  using AddMembers_ok [OF assms, of role] RemoveMembers_ok [OF assms, of role]
  by (simp add: AddMember_AddMembers RemoveMember_RemoveMembers)

theorem IamBindings_refines_grants_witness:
  "granted (RemoveMember ''r'' ''a'' [(''r'', [''a'', ''b''])])
     = (granted [(''r'', [''a'', ''b''])])(''r'' := {''b''})"
proof -
  have "Iam_wf [(''r'', [''a'', ''b''])]" by (simp add: Iam_wf_def set_wf_def)
  from IamBindings_refines_grants [OF this, of "''r''" "''a''"] show ?thesis
    by (simp add: granted_def IamBindings_at_def map_find_def insert_Diff_if)
qed

text \<open>
  Two well-formed containers compare equal exactly when they have bindings for the same roles
  and grant every role to the same members.
\<close>

lemma IamBindings_eq_iff_grants:
  assumes "Iam_wf a" "Iam_wf b"
  shows "IamBindings_eq a b \<longleftrightarrow>
    (\<forall>role. (map_find role a = None \<longleftrightarrow> map_find role b = None) \<and> granted a role = granted b role)"
proof
  assume "IamBindings_eq a b"
  then show "\<forall>role. (map_find role a = None \<longleftrightarrow> map_find role b = None) \<and> granted a role = granted b role"
    by (simp add: IamBindings_eq_def)
next
  assume r: "\<forall>role. (map_find role a = None \<longleftrightarrow> map_find role b = None) \<and> granted a role = granted b role"
  have "map_find role a = map_find role b" for role
  proof (cases "map_find role a")
    case None
    with r show ?thesis by simp
  next
    case (Some ms)
    with r [rule_format, of role] obtain ns where ns: "map_find role b = Some ns"
      by (cases "map_find role b") auto
    with Some r [rule_format, of role] have "set ms = set ns"
      by (simp add: granted_def IamBindings_at_def)
    with Some ns assms show ?thesis by (auto intro: set_wf_ext dest: Iam_wf_find)
  qed
  with assms show "IamBindings_eq a b" by (simp add: IamBindings_eq_def map_ext)
qed

text \<open>The operators of both classes are linear orders, so that policies can be keys and be sorted.\<close>

interpretation bindings_order: linorder IamBindings_leq IamBindings_less
  by unfold_locales (auto simp: IamBindings_leq_def IamBindings_less_def)

lemma IamPolicy_tie_inj:
  "(ip_version a, ip_bindings a, ip_etag a) = (ip_version b, ip_bindings b, ip_etag b) \<longleftrightarrow> a = (b :: IamPolicy)"
  by (auto intro: IamPolicy.equality)

interpretation policy_order: linorder IamPolicy_leq IamPolicy_less
proof
  fix a b c :: IamPolicy
  show "IamPolicy_less a b \<longleftrightarrow> IamPolicy_leq a b \<and> \<not> IamPolicy_leq b a" "IamPolicy_leq a a" "IamPolicy_leq a b \<or> IamPolicy_leq b a"
    by (auto simp: IamPolicy_leq_def IamPolicy_less_def)
  show "IamPolicy_leq a c" if "IamPolicy_leq a b" "IamPolicy_leq b c"
    using that unfolding IamPolicy_leq_def IamPolicy_less_def not_less by (rule order_trans)
  show "a = b" if "IamPolicy_leq a b" "IamPolicy_leq b a"
    using that unfolding IamPolicy_leq_def IamPolicy_less_def not_less by (metis order_antisym IamPolicy_tie_inj)
qed

lemma IamPolicy_comparison:
  "IamPolicy_eq a b \<longleftrightarrow> IamPolicy_leq a b \<and> IamPolicy_leq b a" "IamPolicy_neq a b \<longleftrightarrow> IamPolicy_less a b \<or> IamPolicy_greater a b"
  "IamPolicy_geq a b \<longleftrightarrow> IamPolicy_greater a b \<or> IamPolicy_eq a b"
proof -
  show eq: "IamPolicy_eq a b \<longleftrightarrow> IamPolicy_leq a b \<and> IamPolicy_leq b a" by (auto simp: IamPolicy_eq_def IamPolicy_leq_def IamPolicy_less_def)
  show "IamPolicy_neq a b \<longleftrightarrow> IamPolicy_less a b \<or> IamPolicy_greater a b"
    by (auto simp: IamPolicy_neq_def IamPolicy_greater_def eq IamPolicy_leq_def)
  show "IamPolicy_geq a b \<longleftrightarrow> IamPolicy_greater a b \<or> IamPolicy_eq a b"
    using policy_order.less_linear [of a b] by (auto simp: IamPolicy_geq_def IamPolicy_greater_def eq IamPolicy_leq_def)
qed

text \<open>
  Building the container from a vector keeps, for each role, the members of the first binding of
  that role only; the members of later bindings of the same role are dropped, unlike with
  \<^verbatim>\<open>AddMembers\<close>.
\<close>

theorem IamBindings_of_vector_first_wins:
  "map_find role (IamBindings_of_vector bs) =
     map_option ib_members (find (\<lambda>b. ib_role b = role) bs)"
proof -
  have "map_of (map (\<lambda>b. (ib_role b, ib_members b)) bs) role =
      map_option ib_members (find (\<lambda>b. ib_role b = role) bs)"
    by (induction bs) auto
  then show ?thesis using IamBindings_of_vector_find [of bs role] by simp
qed

end
