(* ===== verification/Configuration.thy ===== *)
theory Configuration
  imports Std_Containers Lifetime
begin

text \<open>
  Configuration of the clients: the process environment (\<^verbatim>\<open>internal/getenv.cc\<close>,
  \<^verbatim>\<open>internal/setenv.cc\<close>, \<^verbatim>\<open>testing_util/scoped_environment.cc\<close>), the tracing options with their
  parser (\<^verbatim>\<open>tracing_options.h\<close>, \<^verbatim>\<open>tracing_options.cc\<close>) and \<^verbatim>\<open>ConnectionOptions\<close>
  (\<^verbatim>\<open>connection_options.h\<close>, \<^verbatim>\<open>connection_options.cc\<close>). The POSIX branch of the environment
  functions is modelled.
\<close>

section \<open>The environment\<close>

type_synonym environ = "string \<rightharpoonup> string"

text \<open>
  POSIX \<^verbatim>\<open>setenv\<close> and \<^verbatim>\<open>unsetenv\<close>: a name that is empty or contains an equal sign is refused (the
  source discards the error). Names and values reach them as C strings.
\<close>

definition env_name_ok :: "string \<Rightarrow> bool" where
  "env_name_ok name \<longleftrightarrow> name \<noteq> [] \<and> CHR ''='' \<notin> set name"

definition posix_setenv :: "string \<Rightarrow> string \<Rightarrow> environ \<Rightarrow> environ" where
  "posix_setenv name v env = (if env_name_ok name then env(name \<mapsto> v) else env)"

definition posix_unsetenv :: "string \<Rightarrow> environ \<Rightarrow> environ" where
  "posix_unsetenv name env = (if env_name_ok name then env(name := None) else env)"

definition GetEnv :: "string \<Rightarrow> environ \<Rightarrow> string option" where
  "GetEnv var env = (case env (c_str var) of None \<Rightarrow> None | Some buffer \<Rightarrow> Some buffer)"

definition UnsetEnv :: "string \<Rightarrow> environ \<Rightarrow> environ" where
  "UnsetEnv var env = posix_unsetenv (c_str var) env"

text \<open>The two overloads: a null pointer or an unset optional removes the variable.\<close>

definition SetEnv_ptr :: "string \<Rightarrow> string option \<Rightarrow> environ \<Rightarrow> environ" where
  "SetEnv_ptr var v env =
     (case v of None \<Rightarrow> UnsetEnv var env | Some s \<Rightarrow> posix_setenv (c_str var) (c_str s) env)"

definition SetEnv :: "string \<Rightarrow> string option \<Rightarrow> environ \<Rightarrow> environ" where
  "SetEnv var v env =
     (case v of None \<Rightarrow> UnsetEnv var env | Some s \<Rightarrow> SetEnv_ptr var (Some s) env)"

record ScopedEnvironment =
  se_variable :: string
  se_prev_value :: "string option"

definition ScopedEnvironment_enter ::
  "string \<Rightarrow> string option \<Rightarrow> environ \<Rightarrow> ScopedEnvironment \<times> environ" where
  "ScopedEnvironment_enter var v env =
     (\<lparr>se_variable = var, se_prev_value = GetEnv var env\<rparr>, SetEnv var v env)"

definition ScopedEnvironment_leave :: "ScopedEnvironment \<Rightarrow> environ \<Rightarrow> environ" where
  "ScopedEnvironment_leave se env = SetEnv (se_variable se) (se_prev_value se) env"

text \<open>Environments that a process can have: proper names, values without NUL.\<close>

definition env_ok :: "environ \<Rightarrow> bool" where
  "env_ok env \<longleftrightarrow> (\<forall>k v. env k = Some v \<longrightarrow> env_name_ok k \<and> CHR 0x00 \<notin> set v)"

text \<open>Objects with nested lifetimes: constructed in order, destroyed in reverse order.\<close>

fun scoped_enter :: "(string \<times> string option) list \<Rightarrow> environ \<Rightarrow> ScopedEnvironment list \<times> environ" where
  "scoped_enter [] env = ([], env)"
| "scoped_enter ((var, v) # vs) env =
     (let (se, env1) = ScopedEnvironment_enter var v env;
          (ses, env2) = scoped_enter vs env1
      in (se # ses, env2))"

fun scoped_leave :: "ScopedEnvironment list \<Rightarrow> environ \<Rightarrow> environ" where
  "scoped_leave [] env = env"
| "scoped_leave (se # ses) env = ScopedEnvironment_leave se (scoped_leave ses env)"

section \<open>Tracing options\<close>

record TracingOptions =
  single_line_mode :: bool
  use_short_repeated_primitives :: bool
  truncate_string_field_longer_than :: int

definition TracingOptions_default :: TracingOptions where
  "TracingOptions_default =
     \<lparr>single_line_mode = True, use_short_repeated_primitives = True,
      truncate_string_field_longer_than = 128\<rparr>"

definition ParseBoolean :: "string \<Rightarrow> bool option" where
  "ParseBoolean str =
     (if str \<in> set [''Y'', ''y'', ''T'', ''t'', ''1'', ''on''] then Some True
      else if str \<in> set [''N'', ''n'', ''F'', ''f'', ''0'', ''off''] then Some False
      else None)"

text \<open>
  \<^verbatim>\<open>std::stoll(str, &econv)\<close>: skip white space, an optional sign, then digits. It throws when there
  is no digit or the value does not fit; otherwise the value and the number of characters read.
\<close>

definition stoll :: "string \<Rightarrow> fault + int \<times> nat" where
  "stoll str =
     (let s1 = dropWhile is_space str;
          signed = (s1 \<noteq> [] \<and> is_sign (hd s1));
          s2 = (if signed then tl s1 else s1);
          ds = takeWhile is_digit s2;
          v = (if signed \<and> hd s1 = CHR ''-'' then - int (digits_val ds) else int (digits_val ds))
      in if ds = [] then Inl (Abn (Thrown (invalid_argument ''stoll'')))
         else if \<not> in_int64 v then Inl (Abn (Thrown (out_of_range ''stoll'')))
         else Inr (v, length str - length s2 + length ds))"

definition ParseInteger :: "string \<Rightarrow> fault + int option" where
  "ParseInteger str =
     bindR (stoll str) (\<lambda>(val, econv). if econv \<noteq> length str then Inr None else Inr (Some val))"

text \<open>
  \<^verbatim>\<open>SetOptions\<close> changes the object it is called on: the result is how it ends and the options then, also
  when an exception leaves it. \<open>and_then\<close> goes on unless the first part threw.
\<close>

type_synonym set_result = "(fault + unit) \<times> TracingOptions"

definition and_then :: "set_result \<Rightarrow> (TracingOptions \<Rightarrow> set_result) \<Rightarrow> set_result" where
  "and_then m f = (case m of (Inl e, t) \<Rightarrow> (Inl e, t) | (Inr _, t) \<Rightarrow> f t)"

lemma and_then_simps [simp]: "and_then (Inl e, t) f = (Inl e, t)" "and_then (Inr u, t) f = f t"
  by (simp_all add: and_then_def)

lemma and_then_assoc: "and_then (and_then m f) g = and_then m (\<lambda>t. and_then (f t) g)"
  by (simp add: and_then_def split: prod.splits sum.splits)

text \<open>One turn of the loop in \<^verbatim>\<open>SetOptions\<close>: an option is the text up to the comma.\<close>

definition SetOption :: "string \<Rightarrow> string \<Rightarrow> TracingOptions \<Rightarrow> set_result" where
  "SetOption opt val t =
     (if opt = ''single_line_mode'' then
        (Inr (), case ParseBoolean val of Some v \<Rightarrow> t\<lparr>single_line_mode := v\<rparr> | None \<Rightarrow> t)
      else if opt = ''use_short_repeated_primitives'' then
        (Inr (), case ParseBoolean val of Some v \<Rightarrow> t\<lparr>use_short_repeated_primitives := v\<rparr> | None \<Rightarrow> t)
      else if opt = ''truncate_string_field_longer_than'' then
        (case ParseInteger val of
           Inl e \<Rightarrow> (Inl e, t)
         | Inr None \<Rightarrow> (Inr (), t)
         | Inr (Some v) \<Rightarrow> (Inr (), t\<lparr>truncate_string_field_longer_than := v\<rparr>))
      else (Inr (), t))"

definition SetOptions_segment :: "string \<Rightarrow> TracingOptions \<Rightarrow> set_result" where
  "SetOptions_segment seg t =
     (let equal = dropWhile (\<lambda>c. c \<noteq> CHR ''='') seg in
      SetOption (takeWhile (\<lambda>c. c \<noteq> CHR ''='') seg) (if equal = [] then [] else tl equal) t)"

function SetOptions :: "string \<Rightarrow> TracingOptions \<Rightarrow> set_result" where
  "SetOptions str t =
     (let seg = takeWhile (\<lambda>c. c \<noteq> CHR '','') str; comma = dropWhile (\<lambda>c. c \<noteq> CHR '','') str in
      and_then (SetOptions_segment seg t)
        (\<lambda>t'. if comma = [] then (Inr (), t') else SetOptions (tl comma) t'))"
  by pat_completeness auto
termination
  by (relation "measure (\<lambda>(s, t). length s)") (simp_all add: length_tl_dropWhile)

declare SetOptions.simps [simp del]

section \<open>Connection options\<close>

text \<open>What the template argument \<^verbatim>\<open>ConnectionTraits\<close> supplies.\<close>

record ConnectionTraits =
  default_endpoint :: string
  default_num_channels :: int
  default_user_agent_prefix :: string

text \<open>The two kinds of background threads; a completion queue is known by its identity.\<close>

datatype 'q BackgroundThreads =
    AutomaticallyCreatedBackgroundThreads
  | CustomerSuppliedBackgroundThreads 'q

record ('c, 'q) ConnectionOptions =
  co_credentials :: 'c
  co_endpoint :: string
  co_num_channels :: int
  co_tracing_components :: "string list"
  co_tracing_options :: TracingOptions
  co_channel_pool_domain :: string
  co_user_agent_prefix :: string
  co_background_threads_factory :: "'q BackgroundThreads"

text \<open>The loop over \<^verbatim>\<open>std::getline(is, token, ',')\<close>: at the end of the input it reads no token.\<close>

function getline_tokens :: "string \<Rightarrow> string list" where
  "getline_tokens s =
     (if s = [] then []
      else let token = takeWhile (\<lambda>c. c \<noteq> CHR '','') s; rest = dropWhile (\<lambda>c. c \<noteq> CHR '','') s in
           token # (if rest = [] then [] else getline_tokens (tl rest)))"
  by pat_completeness auto
termination
  by (relation "measure length") (simp_all add: length_tl_dropWhile)

declare getline_tokens.simps [simp del]

definition DefaultTracingComponents :: "environ \<Rightarrow> string list" where
  "DefaultTracingComponents env =
     (case GetEnv ''GOOGLE_CLOUD_CPP_ENABLE_TRACING'' env of
        None \<Rightarrow> []
      | Some tracing \<Rightarrow> fold set_emplace (getline_tokens tracing) [])"

definition DefaultTracingOptions :: "environ \<Rightarrow> fault + TracingOptions" where
  "DefaultTracingOptions env =
     (case GetEnv ''GOOGLE_CLOUD_CPP_TRACING_OPTIONS'' env of
        None \<Rightarrow> Inr TracingOptions_default
      | Some s \<Rightarrow> (let (r, t) = SetOptions s TracingOptions_default in bindR r (\<lambda>_. Inr t)))"

definition DefaultBackgroundThreads :: "'q BackgroundThreads" where
  "DefaultBackgroundThreads = AutomaticallyCreatedBackgroundThreads"

definition mk_ConnectionOptions ::
  "ConnectionTraits \<Rightarrow> environ \<Rightarrow> 'c \<Rightarrow> fault + ('c, 'q) ConnectionOptions" where
  "mk_ConnectionOptions traits env credentials =
     bindR (DefaultTracingOptions env) (\<lambda>tro. Inr
       \<lparr>co_credentials = credentials, co_endpoint = default_endpoint traits,
        co_num_channels = default_num_channels traits,
        co_tracing_components = DefaultTracingComponents env, co_tracing_options = tro,
        co_channel_pool_domain = [], co_user_agent_prefix = default_user_agent_prefix traits,
        co_background_threads_factory = DefaultBackgroundThreads\<rparr>)"

definition set_credentials :: "'c \<Rightarrow> ('c, 'q) ConnectionOptions \<Rightarrow> ('c, 'q) ConnectionOptions" where
  "set_credentials v co = co\<lparr>co_credentials := v\<rparr>"

definition set_endpoint :: "string \<Rightarrow> ('c, 'q) ConnectionOptions \<Rightarrow> ('c, 'q) ConnectionOptions" where
  "set_endpoint v co = co\<lparr>co_endpoint := v\<rparr>"

definition set_num_channels :: "int \<Rightarrow> ('c, 'q) ConnectionOptions \<Rightarrow> ('c, 'q) ConnectionOptions" where
  "set_num_channels n co = co\<lparr>co_num_channels := n\<rparr>"

definition tracing_enabled :: "string \<Rightarrow> ('c, 'q) ConnectionOptions \<Rightarrow> bool" where
  "tracing_enabled component co \<longleftrightarrow> component \<in> set (co_tracing_components co)"

definition enable_tracing :: "string \<Rightarrow> ('c, 'q) ConnectionOptions \<Rightarrow> ('c, 'q) ConnectionOptions" where
  "enable_tracing component co =
     co\<lparr>co_tracing_components := set_emplace component (co_tracing_components co)\<rparr>"

definition disable_tracing :: "string \<Rightarrow> ('c, 'q) ConnectionOptions \<Rightarrow> ('c, 'q) ConnectionOptions" where
  "disable_tracing component co =
     co\<lparr>co_tracing_components := set_erase component (co_tracing_components co)\<rparr>"

definition set_channel_pool_domain ::
  "string \<Rightarrow> ('c, 'q) ConnectionOptions \<Rightarrow> ('c, 'q) ConnectionOptions" where
  "set_channel_pool_domain v co = co\<lparr>co_channel_pool_domain := v\<rparr>"

definition add_user_agent_prefix ::
  "string \<Rightarrow> ('c, 'q) ConnectionOptions \<Rightarrow> ('c, 'q) ConnectionOptions" where
  "add_user_agent_prefix prefix co =
     co\<lparr>co_user_agent_prefix := (prefix @ '' '') @ co_user_agent_prefix co\<rparr>"

definition DisableBackgroundThreads ::
  "'q \<Rightarrow> ('c, 'q) ConnectionOptions \<Rightarrow> ('c, 'q) ConnectionOptions" where
  "DisableBackgroundThreads cq co =
     co\<lparr>co_background_threads_factory := CustomerSuppliedBackgroundThreads cq\<rparr>"

text \<open>The calls made on a fresh \<^verbatim>\<open>grpc::ChannelArguments\<close>, in order.\<close>

datatype channel_argument_call = SetString string string | SetUserAgentPrefix string

definition CreateChannelArguments :: "('c, 'q) ConnectionOptions \<Rightarrow> channel_argument_call list" where
  "CreateChannelArguments co =
     (if co_channel_pool_domain co \<noteq> []
      then [SetString ''grpc.channel_pooling_domain'' (co_channel_pool_domain co)] else [])
     @ [SetUserAgentPrefix (co_user_agent_prefix co)]"

section \<open>Lemmas\<close>

lemma c_str_nul_free [simp]: "CHR 0x00 \<notin> set (c_str s)"
  unfolding c_str_def using set_takeWhileD by fastforce

lemma SetEnv_upd:
  "SetEnv var v env =
     (if env_name_ok (c_str var) then env(c_str var := map_option c_str v) else env)"
  by (simp add: SetEnv_def SetEnv_ptr_def UnsetEnv_def posix_setenv_def posix_unsetenv_def
      split: option.splits)

lemma env_ok_SetEnv: "env_ok env \<Longrightarrow> env_ok (SetEnv var v env)"
  by (auto simp: env_ok_def SetEnv_upd split: if_splits)

lemma env_ok_lookup: "env_ok env \<Longrightarrow> map_option c_str (env k) = env k"
  by (cases "env k") (auto simp: env_ok_def c_str_no_nul)

lemma ScopedEnvironment_one:
  assumes "env_ok env"
  shows "ScopedEnvironment_leave (fst (ScopedEnvironment_enter var v env))
           (snd (ScopedEnvironment_enter var v env)) = env"
proof -
  have "GetEnv var env = env (c_str var)" by (simp add: GetEnv_def split: option.splits)
  then show ?thesis
    by (simp add: ScopedEnvironment_leave_def ScopedEnvironment_enter_def SetEnv_upd
        env_ok_lookup [OF assms])
qed

lemma SetOptions_end: "CHR '','' \<notin> set seg \<Longrightarrow> SetOptions seg t = SetOptions_segment seg t"
  by (subst SetOptions.simps)
    (simp add: split_at and_then_def split: prod.splits sum.splits)

lemma SetOptions_comma:
  "CHR '','' \<notin> set seg \<Longrightarrow>
   SetOptions (seg @ CHR '','' # str) t = and_then (SetOptions_segment seg t) (SetOptions str)"
  by (subst SetOptions.simps) (simp add: split_at)

lemma SetOptions_append:
  "SetOptions (a @ CHR '','' # b) t = and_then (SetOptions a t) (SetOptions b)"
proof (induction "length a" arbitrary: a t rule: less_induct)
  case less
  show ?case
  proof (cases "CHR '','' \<in> set a")
    case False
    then show ?thesis by (simp add: SetOptions_comma SetOptions_end)
  next
    case True
    then obtain seg a' where a: "a = seg @ CHR '','' # a'" "CHR '','' \<notin> set seg"
      using split_list_first by metis
    from a(1) have "length a' < length a" by simp
    then have IH: "SetOptions (a' @ CHR '','' # b) t' = and_then (SetOptions a' t') (SetOptions b)" for t'
      by (rule less)
    show ?thesis
      unfolding a(1) append_assoc append_Cons SetOptions_comma [OF a(2)] and_then_assoc IH ..
  qed
qed

lemma SetOptions_segment_eq:
  "CHR ''='' \<notin> set opt \<Longrightarrow> SetOptions_segment (opt @ CHR ''='' # val) t = SetOption opt val t"
  by (simp add: SetOptions_segment_def split_at Let_def)

lemma stoll_digits:
  assumes "ds \<noteq> []" "\<forall>c \<in> set ds. is_digit c" "in_int64 (int (digits_val ds))"
  shows "stoll ds = Inr (int (digits_val ds), length ds)"
proof -
  obtain c cs where ds: "ds = c # cs" using assms(1) by (cases ds) auto
  with assms(2) have "dropWhile is_space ds = ds" "\<not> is_sign (hd ds)" "takeWhile is_digit ds = ds"
    by simp_all
  with assms(1,3) show ?thesis by (simp add: stoll_def Let_def del: takeWhile_eq_all_conv dropWhile_eq_self_iff)
qed

lemma stoll_minus_digits:
  assumes "ds \<noteq> []" "\<forall>c \<in> set ds. is_digit c" "in_int64 (- int (digits_val ds))"
  shows "stoll (CHR ''-'' # ds) = Inr (- int (digits_val ds), Suc (length ds))"
proof -
  have "dropWhile is_space (CHR ''-'' # ds) = CHR ''-'' # ds" "is_sign (CHR ''-'')"
    by (simp_all add: is_space_def is_sign_def)
  moreover from assms(2) have "takeWhile is_digit ds = ds" by (simp add: takeWhile_eq_all_conv)
  ultimately show ?thesis using assms(1,3) by (simp add: stoll_def Let_def del: dropWhile.simps takeWhile_eq_all_conv)
qed

lemma stoll_int_to_dec:
  assumes "in_int64 n"
  shows "stoll (int_to_dec n) = Inr (n, length (int_to_dec n))"
proof (cases "n < 0")
  case True
  have "\<forall>c \<in> set (nat_to_dec (nat (- n))). is_digit c" by (simp add: nat_to_dec_digits)
  from stoll_minus_digits [OF _ this] True assms show ?thesis by (simp add: int_to_dec_def)
next
  case False
  have "\<forall>c \<in> set (nat_to_dec (nat n)). is_digit c" by (simp add: nat_to_dec_digits)
  from stoll_digits [OF _ this] False assms show ?thesis by (simp add: int_to_dec_def)
qed

lemma int_to_dec_no_comma: "CHR '','' \<notin> set (int_to_dec n)"
  using nat_to_dec_digits [of "CHR '',''"] by (auto simp: int_to_dec_def is_digit_def)

text \<open>Booleans in one of the accepted spellings.\<close>

definition print_bool :: "bool \<Rightarrow> string" where
  "print_bool b = (if b then ''on'' else ''off'')"

lemma print_bool_props [simp]: "ParseBoolean (print_bool b) = Some b" "CHR '','' \<notin> set (print_bool b)"
  by (simp_all add: print_bool_def ParseBoolean_def)

definition options_text :: "TracingOptions \<Rightarrow> string" where
  "options_text t =
     ''single_line_mode='' @ print_bool (single_line_mode t)
     @ '',use_short_repeated_primitives='' @ print_bool (use_short_repeated_primitives t)
     @ '',truncate_string_field_longer_than='' @ int_to_dec (truncate_string_field_longer_than t)"

lemma getline_tokens_sep:
  "CHR '','' \<notin> set tok \<Longrightarrow> getline_tokens (tok @ CHR '','' # s) = tok # getline_tokens s"
  by (subst getline_tokens.simps) (simp add: split_at)

lemma getline_tokens_end: "CHR '','' \<notin> set tok \<Longrightarrow> tok \<noteq> [] \<Longrightarrow> getline_tokens tok = [tok]"
  by (subst getline_tokens.simps) (simp add: split_at)

lemma DefaultTracingComponents_set:
  "set_wf (DefaultTracingComponents env) \<and>
   set (DefaultTracingComponents env) =
     (case GetEnv ''GOOGLE_CLOUD_CPP_ENABLE_TRACING'' env of
        None \<Rightarrow> {} | Some s \<Rightarrow> set (getline_tokens s))"
proof -
  have "set_wf (fold set_emplace ts [])" "set (fold set_emplace ts []) = set ts" for ts :: "string list"
    using set_insert_range_ok(1) [of "[]" ts] set_insert_range_ok(2) [of ts "[]"] unfolding set_insert_range_def by simp_all
  then show ?thesis by (simp add: DefaultTracingComponents_def split: option.splits)
qed

text \<open>A sequence of changes to the traced components.\<close>

datatype tracing_change = Enable string | Disable string

fun change_tracing :: "tracing_change \<Rightarrow> ('c, 'q) ConnectionOptions \<Rightarrow> ('c, 'q) ConnectionOptions" where
  "change_tracing (Enable c) co = enable_tracing c co"
| "change_tracing (Disable c) co = disable_tracing c co"

fun change_component :: "tracing_change \<Rightarrow> string" where
  "change_component (Enable c) = c"
| "change_component (Disable c) = c"

text \<open>The last change of a component decides.\<close>

definition last_change :: "tracing_change list \<Rightarrow> string \<Rightarrow> tracing_change option" where
  "last_change chs c = find (\<lambda>ch. change_component ch = c) (rev chs)"

lemma change_tracing_ok:
  assumes "set_wf (co_tracing_components co)"
  shows "set_wf (co_tracing_components (fold change_tracing chs co)) \<and>
    (tracing_enabled c (fold change_tracing chs co) \<longleftrightarrow>
       (case last_change chs c of
          None \<Rightarrow> tracing_enabled c co | Some (Enable _) \<Rightarrow> True | Some (Disable _) \<Rightarrow> False))"
proof (induction chs rule: rev_induct)
  case Nil
  then show ?case using assms by (simp add: last_change_def)
next
  case (snoc ch chs)
  then show ?case
    by (cases ch) (auto simp: last_change_def tracing_enabled_def enable_tracing_def
        disable_tracing_def)
qed

section \<open>Properties\<close>

text \<open>
  Environment overrides with nested lifetimes restore the environment exactly, whatever
  variables and values they name, refused names and repeated variables included.
\<close>

theorem ScopedEnvironment_restores:
  assumes "env_ok env"
  shows "scoped_leave (fst (scoped_enter vs env)) (snd (scoped_enter vs env)) = env"
  using assms
proof (induction vs arbitrary: env)
  case Nil
  then show ?case by simp
next
  case (Cons vv vs)
  obtain var v where vv: "vv = (var, v)" by (cases vv)
  let ?e = "ScopedEnvironment_enter var v env"
  have "env_ok (snd ?e)"
    using Cons.prems by (simp add: ScopedEnvironment_enter_def env_ok_SetEnv)
  from Cons.IH [OF this] ScopedEnvironment_one [OF Cons.prems, of var v] show ?case
    by (simp add: vv case_prod_beta Let_def)
qed

theorem ScopedEnvironment_restores_witness:
  "scoped_leave (fst (scoped_enter [(''HOME'', None), (''A=B'', Some ''x''), (''HOME'', Some ''y'')] [''HOME'' \<mapsto> ''z'']))
     (snd (scoped_enter [(''HOME'', None), (''A=B'', Some ''x''), (''HOME'', Some ''y'')] [''HOME'' \<mapsto> ''z'']))
   = [''HOME'' \<mapsto> ''z'']"
  by (rule ScopedEnvironment_restores) (simp add: env_ok_def env_name_ok_def)

text \<open>
  C33: the parser of tracing options is compositional and complete: options separated by a comma
  apply one after the other (an exception stops there, and leaves what was set before it), and every value of the options can
  be written as a string that sets exactly it, from any previous options.
\<close>

theorem SetOptions_compose_roundtrip:
  assumes "in_int64 (truncate_string_field_longer_than t)"
  shows "SetOptions (a @ '','' @ b) t0 = and_then (SetOptions a t0) (SetOptions b) \<and>
         SetOptions (options_text t) t0 = (Inr (), t :: TracingOptions)"
proof
  show "SetOptions (a @ '','' @ b) t0 = and_then (SetOptions a t0) (SetOptions b)"
    by (simp add: SetOptions_append)
  let ?i = "int_to_dec (truncate_string_field_longer_than t)"
  have i: "ParseInteger ?i = Inr (Some (truncate_string_field_longer_than t))"
    by (simp add: ParseInteger_def stoll_int_to_dec [OF assms])
  have one: "SetOptions (''single_line_mode'' @ CHR ''='' # print_bool v) u = (Inr (), u\<lparr>single_line_mode := v\<rparr>)"
    for u v by (subst SetOptions_end) (simp_all add: SetOptions_segment_eq SetOption_def del: append.simps)
  have two: "SetOptions (''use_short_repeated_primitives'' @ CHR ''='' # print_bool v) u
      = (Inr (), u\<lparr>use_short_repeated_primitives := v\<rparr>)"
    for u v by (subst SetOptions_end) (simp_all add: SetOptions_segment_eq SetOption_def del: append.simps)
  have three: "SetOptions (''truncate_string_field_longer_than'' @ CHR ''='' # ?i) u
      = (Inr (), u\<lparr>truncate_string_field_longer_than := truncate_string_field_longer_than t\<rparr>)" for u
    by (subst SetOptions_end) (simp_all add: SetOptions_segment_eq SetOption_def i int_to_dec_no_comma del: append.simps)
  have parts: "options_text t =
      (''single_line_mode'' @ CHR ''='' # print_bool (single_line_mode t)) @ CHR '','' #
      (''use_short_repeated_primitives'' @ CHR ''='' # print_bool (use_short_repeated_primitives t)) @ CHR '','' #
      (''truncate_string_field_longer_than'' @ CHR ''='' # ?i)"
    by (simp add: options_text_def)
  show "SetOptions (options_text t) t0 = (Inr (), t)"
    unfolding parts SetOptions_append one two three by simp
qed

theorem SetOptions_compose_roundtrip_witness:
  "SetOptions (options_text TracingOptions_default) (TracingOptions_default\<lparr>single_line_mode := False\<rparr>)
     = (Inr (), TracingOptions_default)"
  using SetOptions_compose_roundtrip [of TracingOptions_default "[]" "[]"
      "TracingOptions_default\<lparr>single_line_mode := False\<rparr>"]
  by (simp add: TracingOptions_default_def in_int64_def)

text \<open>
  An unparseable integer is not ignored. \<^verbatim>\<open>std::stoll\<close> throws, the exception leaves
  \<^verbatim>\<open>SetOptions\<close>, and with such a value in the environment no \<^verbatim>\<open>ConnectionOptions\<close> can be
  constructed.
\<close>

lemma SetOptions_unparseable_integer_throws:
  "SetOptions ''single_line_mode=off,truncate_string_field_longer_than=abc'' t
     = (Inl (Abn (Thrown (invalid_argument ''stoll''))), t\<lparr>single_line_mode := False\<rparr>) \<and>
   SetOptions ''truncate_string_field_longer_than=9223372036854775808'' t
     = (Inl (Abn (Thrown (out_of_range ''stoll''))), t) \<and>
   mk_ConnectionOptions traits
     (env(''GOOGLE_CLOUD_CPP_TRACING_OPTIONS'' \<mapsto> ''truncate_string_field_longer_than='')) credentials
     = Inl (Abn (Thrown (invalid_argument ''stoll'')))"
proof -
  have opt: "SetOptions (''truncate_string_field_longer_than'' @ CHR ''='' # val) u
      = SetOption ''truncate_string_field_longer_than'' val u" if "CHR '','' \<notin> set val" for val u
    using that by (subst SetOptions_end) (simp_all add: SetOptions_segment_eq del: append.simps)
  have throw: "SetOption ''truncate_string_field_longer_than'' val u = (Inl e, u)" if "stoll val = Inl e" for val u e
    using that by (simp add: SetOption_def ParseInteger_def)
  have "stoll ''abc'' = Inl (Abn (Thrown (invalid_argument ''stoll'')))"
    "stoll [] = Inl (Abn (Thrown (invalid_argument ''stoll'')))"
    "stoll ''9223372036854775808'' = Inl (Abn (Thrown (out_of_range ''stoll'')))"
    by (simp_all add: stoll_def is_space_def is_sign_def is_digit_def digits_val_def digit_val_def in_int64_def)
  note e = this [THEN throw]
  have "SetOptions ''single_line_mode=off'' t = (Inr (), t\<lparr>single_line_mode := False\<rparr>)"
    using SetOptions_end [of "''single_line_mode'' @ CHR ''='' # ''off''" t]
      SetOptions_segment_eq [of "''single_line_mode''" "''off''" t]
    by (simp add: SetOption_def ParseBoolean_def)
  then have "SetOptions ''single_line_mode=off,truncate_string_field_longer_than=abc'' t
      = (Inl (Abn (Thrown (invalid_argument ''stoll''))), t\<lparr>single_line_mode := False\<rparr>)"
    using SetOptions_append [of "''single_line_mode=off''" "''truncate_string_field_longer_than=abc''" t]
      opt [of "''abc''" "t\<lparr>single_line_mode := False\<rparr>"] e(1) by simp
  moreover have "SetOptions ''truncate_string_field_longer_than=9223372036854775808'' t
      = (Inl (Abn (Thrown (out_of_range ''stoll''))), t)"
    using opt [of "''9223372036854775808''" t] e(3) by simp
  moreover have "SetOptions ''truncate_string_field_longer_than='' u = (Inl (Abn (Thrown (invalid_argument ''stoll''))), u)" for u
    using opt [of "[]" u] e(2) by simp
  ultimately show ?thesis
    by (simp add: mk_ConnectionOptions_def DefaultTracingOptions_def GetEnv_def c_str_def)
qed

text \<open>
  Tracing of a component is on exactly if the last change to it enabled it, or nothing changed
  it and the environment variable lists it; the other settings do not touch it.
\<close>

theorem tracing_enabled_last_change:
  assumes "mk_ConnectionOptions traits env credentials = Inr co"
  shows "tracing_enabled c (set_endpoint ep (set_num_channels n (add_user_agent_prefix p
           (set_channel_pool_domain d (fold change_tracing chs co))))) \<longleftrightarrow>
         (case last_change chs c of
            Some (Enable _) \<Rightarrow> True
          | Some (Disable _) \<Rightarrow> False
          | None \<Rightarrow> (case GetEnv ''GOOGLE_CLOUD_CPP_ENABLE_TRACING'' env of
                     None \<Rightarrow> False | Some s \<Rightarrow> c \<in> set (getline_tokens s)))"
proof -
  have co: "co_tracing_components co = DefaultTracingComponents env"
    using assms by (auto simp: mk_ConnectionOptions_def)
  with DefaultTracingComponents_set [of env]
  have "set_wf (co_tracing_components co)" by simp
  from change_tracing_ok [OF this, of chs c] DefaultTracingComponents_set [of env] co
  show ?thesis
    by (auto simp: tracing_enabled_def set_endpoint_def set_num_channels_def
        add_user_agent_prefix_def set_channel_pool_domain_def split: option.splits tracing_change.splits)
qed

theorem tracing_enabled_last_change_witness:
  "tracing_enabled ''b'' (fold change_tracing [Disable ''b'', Enable ''b'']
     \<lparr>co_credentials = (), co_endpoint = ''e'', co_num_channels = 4, co_tracing_components = [],
      co_tracing_options = TracingOptions_default, co_channel_pool_domain = [],
      co_user_agent_prefix = ''p'',
      co_background_threads_factory = (AutomaticallyCreatedBackgroundThreads :: nat BackgroundThreads)\<rparr>)"
proof -
  let ?t = "\<lparr>default_endpoint = ''e'', default_num_channels = 4, default_user_agent_prefix = ''p''\<rparr>"
  have "mk_ConnectionOptions ?t Map.empty () = Inr
     \<lparr>co_credentials = (), co_endpoint = ''e'', co_num_channels = 4, co_tracing_components = [],
      co_tracing_options = TracingOptions_default, co_channel_pool_domain = [],
      co_user_agent_prefix = ''p'',
      co_background_threads_factory = (AutomaticallyCreatedBackgroundThreads :: nat BackgroundThreads)\<rparr>"
    by (simp add: mk_ConnectionOptions_def DefaultTracingOptions_def DefaultTracingComponents_def
        GetEnv_def DefaultBackgroundThreads_def)
  from tracing_enabled_last_change [OF this, of "''b''" "''e''" 4 "''p''" "[]" "[Disable ''b'', Enable ''b'']"]
  show ?thesis
    by (simp add: last_change_def tracing_enabled_def set_endpoint_def set_num_channels_def
        add_user_agent_prefix_def set_channel_pool_domain_def)
qed

end
