(* ===== verification/Log.thy ===== *)
theory Log
  imports Configuration Civil_Time
begin

text \<open>
  The logging framework (\<^verbatim>\<open>log.h\<close>, \<^verbatim>\<open>log.cc\<close>): severities, log records and their printing, the
  \<^verbatim>\<open>LogSink\<close> with its map of backends, the \<^verbatim>\<open>std::clog\<close> backend, and the \<^verbatim>\<open>Logger\<close> object behind
  \<^verbatim>\<open>GCP_LOG\<close>. Backends other than \<^verbatim>\<open>StdClogBackend\<close> are user code: a parameter that may change the
  sink while it is called, as the sink holds no lock then.
\<close>

section \<open>Severities and records\<close>

text \<open>An enumeration with underlying type \<^verbatim>\<open>int\<close>; nine of its values have a name.\<close>

datatype Severity = Severity int

fun Severity_int :: "Severity \<Rightarrow> int" where
  "Severity_int (Severity n) = n"

instantiation Severity :: linorder
begin

definition less_eq_Severity :: "Severity \<Rightarrow> Severity \<Rightarrow> bool" where
  "less_eq_Severity a b \<longleftrightarrow> Severity_int a \<le> Severity_int b"

definition less_Severity :: "Severity \<Rightarrow> Severity \<Rightarrow> bool" where
  "less_Severity a b \<longleftrightarrow> Severity_int a < Severity_int b"

instance
proof
  fix a b c :: Severity
  show "(a < b) = (a \<le> b \<and> \<not> b \<le> a)" by (auto simp: less_eq_Severity_def less_Severity_def)
  show "a \<le> a" by (simp add: less_eq_Severity_def)
  show "a \<le> b \<Longrightarrow> b \<le> c \<Longrightarrow> a \<le> c" by (simp add: less_eq_Severity_def)
  show "a \<le> b \<Longrightarrow> b \<le> a \<Longrightarrow> a = b" by (cases a; cases b) (simp add: less_eq_Severity_def)
  show "a \<le> b \<or> b \<le> a" by (auto simp: less_eq_Severity_def)
qed

end

definition GCP_LS_TRACE :: Severity where "GCP_LS_TRACE = Severity 0"
definition GCP_LS_DEBUG :: Severity where "GCP_LS_DEBUG = Severity 1"
definition GCP_LS_INFO :: Severity where "GCP_LS_INFO = Severity 2"
definition GCP_LS_NOTICE :: Severity where "GCP_LS_NOTICE = Severity 3"
definition GCP_LS_WARNING :: Severity where "GCP_LS_WARNING = Severity 4"
definition GCP_LS_ERROR :: Severity where "GCP_LS_ERROR = Severity 5"
definition GCP_LS_CRITICAL :: Severity where "GCP_LS_CRITICAL = Severity 6"
definition GCP_LS_ALERT :: Severity where "GCP_LS_ALERT = Severity 7"
definition GCP_LS_FATAL :: Severity where "GCP_LS_FATAL = Severity 8"
definition GCP_LS_HIGHEST :: Severity where "GCP_LS_HIGHEST = GCP_LS_FATAL"
definition GCP_LS_LOWEST :: Severity where "GCP_LS_LOWEST = GCP_LS_TRACE"

lemmas severity_defs [log_simps] = GCP_LS_TRACE_def GCP_LS_DEBUG_def GCP_LS_INFO_def GCP_LS_NOTICE_def
  GCP_LS_WARNING_def GCP_LS_ERROR_def GCP_LS_CRITICAL_def GCP_LS_ALERT_def GCP_LS_FATAL_def
  GCP_LS_HIGHEST_def GCP_LS_LOWEST_def

text \<open>The default of \<^verbatim>\<open>GOOGLE_CLOUD_CPP_LOGGING_MIN_SEVERITY_ENABLED\<close>.\<close>

definition GCP_LS_LOWEST_ENABLED :: Severity where
  "GCP_LS_LOWEST_ENABLED = GCP_LS_DEBUG"

record LogRecord =
  lr_severity :: Severity
  lr_function :: string
  lr_filename :: string
  lr_lineno :: int
  lr_timestamp :: int
  lr_message :: string

record Timestamp =
  ts_tm :: tm
  ts_nanos :: int

text \<open>
  \<^verbatim>\<open>to_time_t\<close> truncates toward zero, so before the epoch the nanoseconds are negative.
\<close>

definition mk_Timestamp :: "int \<Rightarrow> Timestamp" where
  "mk_Timestamp tp =
     (let tt = to_time_t tp in
      \<lparr>ts_tm = gmtime tt, ts_nanos = tp - tt * ns_per_s\<rparr>)"

text \<open>\<^verbatim>\<open>os << std::setw(w) << x\<close> with a fill character: padding on the left.\<close>

definition setw :: "nat \<Rightarrow> char \<Rightarrow> string \<Rightarrow> string" where
  "setw w fill s = replicate (w - length s) fill @ s"

definition Timestamp_print :: "Timestamp \<Rightarrow> string" where
  "Timestamp_print ts =
     (let t = ts_tm ts in
      setw 4 (CHR '' '') (int_to_dec (tm_year t + 1900))
      @ ''-'' @ setw 2 (CHR ''0'') (int_to_dec (int (tm_mon t) + 1))
      @ ''-'' @ setw 2 (CHR ''0'') (int_to_dec (tm_mday t))
      @ ''T'' @ setw 2 (CHR ''0'') (int_to_dec (tm_hour t))
      @ '':'' @ setw 2 (CHR ''0'') (int_to_dec (tm_min t))
      @ '':'' @ setw 2 (CHR ''0'') (int_to_dec (tm_sec t))
      @ ''.'' @ setw 9 (CHR ''0'') (int_to_dec (ts_nanos ts)) @ ''Z'')"

definition kSeverityNames :: "string list" where
  "kSeverityNames =
     [''TRACE'', ''DEBUG'', ''INFO'', ''NOTICE'', ''WARNING'', ''ERROR'', ''CRITICAL'', ''ALERT'',
      ''FATAL'']"

text \<open>An index outside the array is undefined behaviour.\<close>

definition Severity_print :: "Severity \<Rightarrow> fault + string" where
  "Severity_print x =
     (let index = Severity_int x in
      if 0 \<le> index \<and> nat index < length kSeverityNames then Inr (kSeverityNames ! nat index)
      else Inl (UB OutOfBounds))"

definition LogRecord_print :: "LogRecord \<Rightarrow> fault + string" where
  "LogRecord_print rhs =
     bindR (Severity_print (lr_severity rhs)) (\<lambda>sev. Inr
       (Timestamp_print (mk_Timestamp (lr_timestamp rhs)) @ '' ['' @ sev @ ''] ''
        @ lr_message rhs @ '' ('' @ lr_filename rhs @ '':'' @ int_to_dec (lr_lineno rhs) @ '')''))"

section \<open>The sink\<close>

datatype 'b LogBackend = StdClogBackend | UserBackend 'b

record 'b LogSink =
  ls_empty :: bool
  ls_minimum_severity :: int
  ls_next_id :: int
  ls_clog_backend_id :: int
  ls_backends :: "(int, 'b LogBackend) smap"

definition LogSink_new :: "'b LogSink" where
  "LogSink_new =
     \<lparr>ls_empty = True, ls_minimum_severity = Severity_int GCP_LS_LOWEST_ENABLED, ls_next_id = 0,
      ls_clog_backend_id = 0, ls_backends = []\<rparr>"

definition CompileTimeEnabled :: "Severity \<Rightarrow> bool" where
  "CompileTimeEnabled level \<longleftrightarrow> level \<ge> GCP_LS_LOWEST_ENABLED"

definition is_enabled :: "Severity \<Rightarrow> 'b LogSink \<Rightarrow> bool" where
  "is_enabled sev s \<longleftrightarrow> Severity_int sev \<ge> ls_minimum_severity s"

definition set_minimum_severity :: "Severity \<Rightarrow> 'b LogSink \<Rightarrow> 'b LogSink" where
  "set_minimum_severity minimum s = s\<lparr>ls_minimum_severity := Severity_int minimum\<rparr>"

definition minimum_severity :: "'b LogSink \<Rightarrow> Severity" where
  "minimum_severity s = Severity (ls_minimum_severity s)"

text \<open>\<^verbatim>\<open>++next_id_\<close> on a \<^verbatim>\<open>long\<close>.\<close>

definition AddBackendImpl :: "'b LogBackend \<Rightarrow> 'b LogSink \<Rightarrow> fault + int \<times> 'b LogSink" where
  "AddBackendImpl backend s =
     (let ident = ls_next_id s + 1; bs = map_emplace ident backend (ls_backends s) in
      if \<not> in_int64 ident then Inl (UB SignedOverflow)
      else Inr (ident, s\<lparr>ls_next_id := ident, ls_backends := bs, ls_empty := (bs = [])\<rparr>))"

definition RemoveBackendImpl :: "int \<Rightarrow> 'b LogSink \<Rightarrow> 'b LogSink" where
  "RemoveBackendImpl ident s =
     (case map_find ident (ls_backends s) of
        None \<Rightarrow> s
      | Some _ \<Rightarrow>
          let bs = map_erase ident (ls_backends s) in s\<lparr>ls_backends := bs, ls_empty := (bs = [])\<rparr>)"

definition AddBackend :: "'b LogBackend \<Rightarrow> 'b LogSink \<Rightarrow> fault + int \<times> 'b LogSink" where
  "AddBackend backend s = AddBackendImpl backend s"

definition RemoveBackend :: "int \<Rightarrow> 'b LogSink \<Rightarrow> 'b LogSink" where
  "RemoveBackend ident s = RemoveBackendImpl ident s"

definition ClearBackends :: "'b LogSink \<Rightarrow> 'b LogSink" where
  "ClearBackends s = s\<lparr>ls_backends := [], ls_clog_backend_id := 0, ls_empty := True\<rparr>"

definition BackendCount :: "'b LogSink \<Rightarrow> nat" where
  "BackendCount s = length (ls_backends s)"

definition EnableStdClogImpl :: "'b LogSink \<Rightarrow> fault + 'b LogSink" where
  "EnableStdClogImpl s =
     (if ls_clog_backend_id s \<noteq> 0 then Inr s
      else bindR (AddBackendImpl StdClogBackend s)
             (\<lambda>(ident, s'). Inr (s'\<lparr>ls_clog_backend_id := ident\<rparr>)))"

definition DisableStdClogImpl :: "'b LogSink \<Rightarrow> 'b LogSink" where
  "DisableStdClogImpl s =
     (if ls_clog_backend_id s = 0 then s
      else (RemoveBackendImpl (ls_clog_backend_id s) s)\<lparr>ls_clog_backend_id := 0\<rparr>)"

text \<open>The initialization of the singleton in \<^verbatim>\<open>LogSink::Instance\<close>.\<close>

definition LogSink_Instance :: "environ \<Rightarrow> fault + 'b LogSink" where
  "LogSink_Instance env =
     (if GetEnv ''GOOGLE_CLOUD_CPP_ENABLE_CLOG'' env \<noteq> None then EnableStdClogImpl LogSink_new
      else Inr LogSink_new)"

section \<open>Delivery\<close>

text \<open>\<^verbatim>\<open>std::clog\<close>: everything written, and how much of it has been flushed.\<close>

record clog =
  clog_out :: string
  clog_flushed :: nat

definition StdClogBackend_Process :: "LogRecord \<Rightarrow> clog \<Rightarrow> fault + clog" where
  "StdClogBackend_Process lr c =
     bindR (LogRecord_print lr) (\<lambda>txt.
       let out = clog_out c @ txt @ ''\<newline>'' in Inr
         (if lr_severity lr \<ge> GCP_LS_WARNING then c\<lparr>clog_out := out, clog_flushed := length out\<rparr>
          else c\<lparr>clog_out := out\<rparr>))"

text \<open>The two calls of the backend interface; the second transfers the record.\<close>

datatype backend_call = Process LogRecord | ProcessWithOwnership LogRecord

fun call_record :: "backend_call \<Rightarrow> LogRecord" where
  "call_record (Process r) = r"
| "call_record (ProcessWithOwnership r) = r"

text \<open>What logging can change: the sink, \<^verbatim>\<open>std::clog\<close>, and the state \<open>'w\<close> of the user's backends.\<close>

type_synonym ('b, 'w) log_world = "'b LogSink \<times> clog \<times> 'w"

type_synonym ('b, 'w) user_backend =
  "'b \<Rightarrow> backend_call \<Rightarrow> ('b, 'w) log_world \<Rightarrow> fault + ('b, 'w) log_world"

definition call_backend ::
  "('b, 'w) user_backend \<Rightarrow> 'b LogBackend \<Rightarrow> backend_call \<Rightarrow> ('b, 'w) log_world
   \<Rightarrow> fault + ('b, 'w) log_world" where
  "call_backend user b call w =
     (case b of
        StdClogBackend \<Rightarrow>
          (case w of (s, c, u) \<Rightarrow>
             bindR (StdClogBackend_Process (call_record call) c) (\<lambda>c'. Inr (s, c', u)))
      | UserBackend x \<Rightarrow> user x call w)"

fun process_all ::
  "('b, 'w) user_backend \<Rightarrow> LogRecord \<Rightarrow> (int, 'b LogBackend) smap \<Rightarrow> ('b, 'w) log_world
   \<Rightarrow> fault + ('b, 'w) log_world" where
  "process_all user r [] w = Inr w"
| "process_all user r ((k, b) # kvs) w =
     bindR (call_backend user b (Process r) w) (process_all user r kvs)"

definition LogSink_Log ::
  "('b, 'w) user_backend \<Rightarrow> LogRecord \<Rightarrow> ('b, 'w) log_world \<Rightarrow> fault + ('b, 'w) log_world" where
  "LogSink_Log user r w =
     (let copy = ls_backends (fst w) in
      if copy = [] then Inr w
      else if length copy = 1 then call_backend user (snd (hd copy)) (ProcessWithOwnership r) w
      else process_all user r copy w)"

section \<open>Logger and GCP_LOG\<close>

text \<open>
  \<^verbatim>\<open>Logger<true>\<close>; the stream is created when it is first used. \<^verbatim>\<open>Logger<false>\<close> is never enabled and
  logs nothing.
\<close>

record Logger =
  lg_enabled :: bool
  lg_severity :: Severity
  lg_function :: string
  lg_filename :: string
  lg_lineno :: int
  lg_stream :: "string option"

definition mk_Logger :: "Severity \<Rightarrow> string \<Rightarrow> string \<Rightarrow> int \<Rightarrow> 'b LogSink \<Rightarrow> Logger" where
  "mk_Logger sev func file line sink =
     \<lparr>lg_enabled = (\<not> ls_empty sink \<and> is_enabled sev sink), lg_severity = sev,
      lg_function = func, lg_filename = file, lg_lineno = line, lg_stream = None\<rparr>"

definition Logger_Stream :: "Logger \<Rightarrow> Logger" where
  "Logger_Stream lg = (case lg_stream lg of None \<Rightarrow> lg\<lparr>lg_stream := Some []\<rparr> | Some _ \<Rightarrow> lg)"

text \<open>\<^verbatim>\<open>Stream() << text\<close>.\<close>

definition Logger_write :: "string \<Rightarrow> Logger \<Rightarrow> Logger" where
  "Logger_write txt lg =
     (let lg' = Logger_Stream lg in lg'\<lparr>lg_stream := map_option (\<lambda>s. s @ txt) (lg_stream lg')\<rparr>)"

definition Logger_LogTo ::
  "('b, 'w) user_backend \<Rightarrow> int \<Rightarrow> Logger \<Rightarrow> ('b, 'w) log_world \<Rightarrow> fault + Logger \<times> ('b, 'w) log_world" where
  "Logger_LogTo user now lg w =
     (case lg_stream lg of
        None \<Rightarrow> Inr (lg, w)
      | Some txt \<Rightarrow>
          if \<not> lg_enabled lg then Inr (lg, w)
          else bindR (LogSink_Log user
                 \<lparr>lr_severity = lg_severity lg, lr_function = lg_function lg,
                  lr_filename = lg_filename lg, lr_lineno = lg_lineno lg, lr_timestamp = now,
                  lr_message = txt\<rparr> w)
               (\<lambda>w'. Inr (lg\<lparr>lg_enabled := False\<rparr>, w')))"

text \<open>
  The loop of the macro: \<^verbatim>\<open>for (auto l = Logger<...>(...); l.enabled(); l.LogTo(sink)) l.Stream() << ...\<close>.
  The fuel bounds the number of tests of the loop condition.
\<close>

fun log_loop ::
  "nat \<Rightarrow> ('b, 'w) user_backend \<Rightarrow> int \<Rightarrow> string \<Rightarrow> Logger \<Rightarrow> ('b, 'w) log_world
   \<Rightarrow> (fault + ('b, 'w) log_world) option" where
  "log_loop 0 user now txt lg w = None"
| "log_loop (Suc fuel) user now txt lg w =
     (if \<not> lg_enabled lg then Some (Inr w)
      else case Logger_LogTo user now (Logger_write txt lg) w of
             Inl e \<Rightarrow> Some (Inl e)
           | Inr (lg', w') \<Rightarrow> log_loop fuel user now txt lg' w')"

definition GOOGLE_CLOUD_CPP_LOG_I ::
  "nat \<Rightarrow> ('b, 'w) user_backend \<Rightarrow> int \<Rightarrow> Severity \<Rightarrow> string \<Rightarrow> string \<Rightarrow> int \<Rightarrow> string
   \<Rightarrow> ('b, 'w) log_world \<Rightarrow> (fault + ('b, 'w) log_world) option" where
  "GOOGLE_CLOUD_CPP_LOG_I fuel user now level func file line txt w =
     (if CompileTimeEnabled level
      then log_loop fuel user now txt (mk_Logger level func file line (fst w)) w
      else Some (Inr w))"

section \<open>Invariant of the sink\<close>

text \<open>Everything a program can do to a sink; user code cannot name \<^verbatim>\<open>StdClogBackend\<close>.\<close>

inductive sink_step :: "'b LogSink \<Rightarrow> 'b LogSink \<Rightarrow> bool" where
  step_add: "AddBackend (UserBackend b) s = Inr (ident, s') \<Longrightarrow> sink_step s s'"
| step_remove: "sink_step s (RemoveBackend ident s)"
| step_clear: "sink_step s (ClearBackends s)"
| step_enable: "EnableStdClogImpl s = Inr s' \<Longrightarrow> sink_step s s'"
| step_disable: "sink_step s (DisableStdClogImpl s)"
| step_minimum: "sink_step s (set_minimum_severity sev s)"

inductive_cases sink_stepE: "sink_step s s'"

definition LogSink_inv :: "'b LogSink \<Rightarrow> bool" where
  "LogSink_inv s \<longleftrightarrow>
     map_wf (ls_backends s) \<and> (ls_empty s \<longleftrightarrow> ls_backends s = []) \<and> 0 \<le> ls_next_id s \<and>
     in_int64 (ls_next_id s) \<and>
     (\<forall>k. map_find k (ls_backends s) \<noteq> None \<longrightarrow> 1 \<le> k \<and> k \<le> ls_next_id s) \<and>
     0 \<le> ls_clog_backend_id s \<and> ls_clog_backend_id s \<le> ls_next_id s \<and>
     (\<forall>k. map_find k (ls_backends s) = Some StdClogBackend \<longrightarrow> k = ls_clog_backend_id s)"

text \<open>An identifier that was given out keeps its meaning: it stays, or it goes for good.\<close>

definition ids_kept :: "'b LogSink \<Rightarrow> 'b LogSink \<Rightarrow> bool" where
  "ids_kept s s' \<longleftrightarrow> ls_next_id s \<le> ls_next_id s' \<and>
     (\<forall>k \<le> ls_next_id s. map_find k (ls_backends s') = None \<or>
                         map_find k (ls_backends s') = map_find k (ls_backends s))"

lemma map_nonempty_find: "map_find k m = Some v \<Longrightarrow> m \<noteq> []"
  by (auto simp: map_find_def)

lemma map_put_not_Nil [simp]: "map_put k v m \<noteq> []"
  by (cases m) (auto split: if_splits)

lemma LogSink_inv_fresh: "LogSink_inv s \<Longrightarrow> map_find (ls_next_id s + 1) (ls_backends s) = None"
  unfolding LogSink_inv_def by (metis (no_types, lifting) add_le_same_cancel1 not_one_le_zero)

lemma AddBackendImpl_ok:
  assumes "LogSink_inv s" "AddBackendImpl b s = Inr (ident, s')"
  shows "ident = ls_next_id s + 1" "ls_next_id s' = ident"
    "in_int64 ident" "ls_backends s' = map_emplace ident b (ls_backends s)" "\<not> ls_empty s'"
    "ls_backends s' \<noteq> []" "ls_clog_backend_id s' = ls_clog_backend_id s"
    "map_find k (ls_backends s') = (if k = ident then Some b else map_find k (ls_backends s))"
    "map_wf (ls_backends s')"
proof -
  have wf: "map_wf (ls_backends s)" using assms(1) by (simp add: LogSink_inv_def)
  note fresh = LogSink_inv_fresh [OF assms(1)]
  from assms(2) show id1: "ident = ls_next_id s + 1" "ls_next_id s' = ident" "in_int64 ident"
    and bs: "ls_backends s' = map_emplace ident b (ls_backends s)"
    and "ls_clog_backend_id s' = ls_clog_backend_id s"
    by (auto simp: AddBackendImpl_def Let_def split: if_splits)
  from assms(2) have e: "ls_empty s' = (ls_backends s' = [])"
    by (auto simp: AddBackendImpl_def Let_def split: if_splits)
  show "map_find k (ls_backends s') = (if k = ident then Some b else map_find k (ls_backends s))"
    using fresh by (simp add: bs id1 smap.find_emplace [OF wf])
  show "map_wf (ls_backends s')" using wf by (simp add: bs smap.invar_emplace)
  show "ls_backends s' \<noteq> []" using fresh by (simp add: bs id1 map_emplace_def)
  with e show "\<not> ls_empty s'" by simp
qed

lemma AddBackendImpl_inv:
  assumes "LogSink_inv s" "AddBackendImpl (UserBackend b) s = Inr (ident, s')"
  shows "LogSink_inv s'" "ids_kept s s'"
  using assms(1) AddBackendImpl_ok [OF assms]
  by (auto simp: LogSink_inv_def ids_kept_def split: if_splits)

lemma RemoveBackendImpl_find:
  "map_wf (ls_backends s) \<Longrightarrow>
   map_find k (ls_backends (RemoveBackendImpl ident s)) =
     (if k = ident then None else map_find k (ls_backends s))"
  by (simp add: RemoveBackendImpl_def Let_def smap.find_erase split: option.splits)

lemma RemoveBackendImpl_fields [simp]:
  "ls_next_id (RemoveBackendImpl ident s) = ls_next_id s"
  "ls_clog_backend_id (RemoveBackendImpl ident s) = ls_clog_backend_id s"
  by (simp_all add: RemoveBackendImpl_def Let_def split: option.splits)

lemma RemoveBackendImpl_wf:
  "map_wf (ls_backends s) \<Longrightarrow> map_wf (ls_backends (RemoveBackendImpl ident s))"
  "(ls_empty s \<longleftrightarrow> ls_backends s = []) \<Longrightarrow>
   ls_empty (RemoveBackendImpl ident s) \<longleftrightarrow> ls_backends (RemoveBackendImpl ident s) = []"
  by (simp_all add: RemoveBackendImpl_def Let_def smap.invar_erase split: option.splits)

lemma RemoveBackendImpl_inv:
  assumes "LogSink_inv s"
  shows "LogSink_inv (RemoveBackendImpl ident s)" "ids_kept s (RemoveBackendImpl ident s)"
  using assms
  by (auto simp: LogSink_inv_def ids_kept_def RemoveBackendImpl_find RemoveBackendImpl_wf)

lemma LogSink_inv_clear_clog_id:
  assumes "LogSink_inv s" "\<And>k. map_find k (ls_backends s) \<noteq> Some StdClogBackend"
  shows "LogSink_inv (s\<lparr>ls_clog_backend_id := 0\<rparr>)"
  using assms by (simp add: LogSink_inv_def)

lemma DisableStdClogImpl_inv:
  assumes "LogSink_inv s"
  shows "LogSink_inv (DisableStdClogImpl s)" "ids_kept s (DisableStdClogImpl s)"
proof -
  let ?r = "RemoveBackendImpl (ls_clog_backend_id s) s"
  have wf: "map_wf (ls_backends s)"
    and clog: "\<And>k. map_find k (ls_backends s) = Some StdClogBackend \<Longrightarrow> k = ls_clog_backend_id s"
    using assms by (simp_all add: LogSink_inv_def)
  have "map_find k (ls_backends ?r) \<noteq> Some StdClogBackend" for k
    using clog [of k] by (auto simp: RemoveBackendImpl_find [OF wf])
  from LogSink_inv_clear_clog_id [OF RemoveBackendImpl_inv(1) [OF assms] this]
  show "LogSink_inv (DisableStdClogImpl s)" using assms by (simp add: DisableStdClogImpl_def)
  show "ids_kept s (DisableStdClogImpl s)"
    using RemoveBackendImpl_inv(2) [OF assms, of "ls_clog_backend_id s"]
    by (simp add: DisableStdClogImpl_def ids_kept_def)
qed

lemma EnableStdClogImpl_inv:
  assumes "LogSink_inv s" "EnableStdClogImpl s = Inr s'"
  shows "LogSink_inv s'" "ids_kept s s'"
proof -
  have *: "LogSink_inv s' \<and> ids_kept s s'"
  proof (cases "ls_clog_backend_id s = 0")
    case True
    with assms(2) obtain ident s1 where a: "AddBackendImpl StdClogBackend s = Inr (ident, s1)"
      and s': "s' = s1\<lparr>ls_clog_backend_id := ident\<rparr>"
      by (auto simp: EnableStdClogImpl_def)
    from True assms(1) have none: "map_find k (ls_backends s) \<noteq> Some StdClogBackend" for k
      by (force simp: LogSink_inv_def)
    show ?thesis
      using assms(1) AddBackendImpl_ok [OF assms(1) a] none
      by (auto simp: s' LogSink_inv_def ids_kept_def split: if_splits)
  next
    case False
    with assms show ?thesis by (auto simp: EnableStdClogImpl_def ids_kept_def)
  qed
  then show "LogSink_inv s'" "ids_kept s s'" by simp_all
qed

lemma sink_step_inv: "sink_step s s' \<Longrightarrow> LogSink_inv s \<Longrightarrow> LogSink_inv s' \<and> ids_kept s s'"
proof (induction rule: sink_step.induct)
  case (step_add b s ident s')
  then show ?case by (simp add: AddBackend_def AddBackendImpl_inv)
next
  case (step_remove s ident)
  then show ?case by (simp add: RemoveBackend_def RemoveBackendImpl_inv)
next
  case (step_clear s)
  then show ?case by (auto simp: ClearBackends_def LogSink_inv_def ids_kept_def map_find_def)
next
  case (step_enable s s')
  then show ?case by (simp add: EnableStdClogImpl_inv)
next
  case (step_disable s)
  then show ?case by (simp add: DisableStdClogImpl_inv)
next
  case (step_minimum s sev)
  then show ?case by (simp add: set_minimum_severity_def LogSink_inv_def ids_kept_def)
qed

lemma LogSink_new_inv: "LogSink_inv LogSink_new"
  by (simp add: LogSink_inv_def LogSink_new_def map_find_def in_int64_def)

lemma ids_kept_trans: "ids_kept a b \<Longrightarrow> ids_kept b c \<Longrightarrow> ids_kept a c"
  unfolding ids_kept_def by (metis order_trans)

lemma sink_steps_inv: "sink_step\<^sup>*\<^sup>* s s' \<Longrightarrow> LogSink_inv s \<Longrightarrow> LogSink_inv s' \<and> ids_kept s s'"
proof (induction rule: rtranclp_induct)
  case base
  then show ?case by (simp add: ids_kept_def)
next
  case (step y z)
  then show ?case using sink_step_inv ids_kept_trans by blast
qed

section \<open>Delivery lemmas\<close>

text \<open>Backends that note their calls, and change the sink as they like.\<close>

definition noting :: "('b \<Rightarrow> 'b LogSink \<Rightarrow> 'b LogSink) \<Rightarrow> ('b, ('b \<times> backend_call) list) user_backend" where
  "noting f x call w = (case w of (s, c, u) \<Rightarrow> Inr (f x s, c, u @ [(x, call)]))"

lemma process_all_noting:
  "\<exists>s'. process_all (noting f) r (map (\<lambda>(k, x). (k, UserBackend x)) kxs) (s, c, u) =
     Inr (s', c, u @ map (\<lambda>(k, x). (x, Process r)) kxs)"
proof (induction kxs arbitrary: s u)
  case Nil
  then show ?case by simp
next
  case (Cons kx kxs)
  obtain k x where kx: "kx = (k, x)" by (cases kx)
  from Cons [of "f x s" "u @ [(x, Process r)]"] show ?case
    by (simp add: kx call_backend_def noting_def)
qed

section \<open>Properties\<close>

text \<open>
  C26: in every state a program can bring a sink to, the lock-free \<^verbatim>\<open>empty_\<close> flag agrees with the
  map of backends, the identifiers in use are among those given out, at most one \<^verbatim>\<open>std::clog\<close>
  backend exists and it has the recorded identifier; and an identifier given out is never used
  again for another backend, however the program goes on.
\<close>

theorem LogSink_reachable_invariant:
  fixes s s' :: "'b LogSink"
  assumes "sink_step\<^sup>*\<^sup>* LogSink_new s" "sink_step\<^sup>*\<^sup>* s s'"
  shows "LogSink_inv s \<and> (ls_empty s \<longleftrightarrow> BackendCount s = 0) \<and>
         (k \<le> ls_next_id s \<longrightarrow>
            map_find k (ls_backends s') = None \<or>
            map_find k (ls_backends s') = map_find k (ls_backends s))"
proof -
  have "LogSink_inv s" using sink_steps_inv [OF assms(1) LogSink_new_inv] by simp
  with sink_steps_inv [OF assms(2)] show ?thesis
    by (auto simp: ids_kept_def LogSink_inv_def BackendCount_def)
qed

theorem LogSink_reachable_invariant_witness:
  "LogSink_inv (LogSink_new :: nat LogSink) \<and>
   map_find 1 (ls_backends (ClearBackends (LogSink_new :: nat LogSink))) = None"
proof -
  have s: "sink_step\<^sup>*\<^sup>* (LogSink_new :: nat LogSink) (ClearBackends LogSink_new)"
    by (intro r_into_rtranclp step_clear)
  from LogSink_reachable_invariant [OF rtranclp.rtrancl_refl s, of 0] show ?thesis
    by (simp add: ClearBackends_def map_find_def)
qed

text \<open>
  A record goes exactly once to every backend that the sink had when \<^verbatim>\<open>Log\<close> was called, in the
  order of their identifiers, even when the backends add or remove backends while they are called;
  a single backend receives ownership of the record.
\<close>

lemma LogSink_Log_each_backend_once:
  assumes "ls_backends s = map (\<lambda>(k, x). (k, UserBackend x)) kxs"
  shows "\<exists>s'. LogSink_Log (noting f) r (s, c, []) =
           Inr (s', c, map (\<lambda>(k, x). (x, if length kxs = 1 then ProcessWithOwnership r else Process r)) kxs)"
proof -
  consider "kxs = []" | k x where "kxs = [(k, x)]" | "length kxs > 1"
    by (cases kxs; cases "tl kxs") auto
  then show ?thesis
  proof cases
    case 1
    with assms show ?thesis by (simp add: LogSink_Log_def)
  next
    case 2
    with assms show ?thesis by (simp add: LogSink_Log_def call_backend_def noting_def)
  next
    case 3
    then have "kxs \<noteq> []" "length kxs \<noteq> 1" by auto
    with process_all_noting [of f r kxs s c "[]"] assms show ?thesis
      by (simp add: LogSink_Log_def del: One_nat_def)
  qed
qed

lemma LogSink_Log_each_backend_once_witness:
  "\<exists>s'. LogSink_Log (noting (\<lambda>x. ClearBackends))
     \<lparr>lr_severity = GCP_LS_INFO, lr_function = ''f'', lr_filename = ''g'', lr_lineno = 3,
      lr_timestamp = 0, lr_message = ''hi''\<rparr>
     ((LogSink_new :: nat LogSink)\<lparr>ls_backends := [(1, UserBackend 7), (2, UserBackend 8)]\<rparr>,
      \<lparr>clog_out = [], clog_flushed = 0\<rparr>, [])
     = Inr (s', \<lparr>clog_out = [], clog_flushed = 0\<rparr>,
         map (\<lambda>x. (x, Process \<lparr>lr_severity = GCP_LS_INFO, lr_function = ''f'', lr_filename = ''g'',
           lr_lineno = 3, lr_timestamp = 0, lr_message = ''hi''\<rparr>)) [7, 8])"
  using LogSink_Log_each_backend_once [of "(LogSink_new :: nat LogSink)\<lparr>ls_backends := [(1, UserBackend 7), (2, UserBackend 8)]\<rparr>"
      "[(1, 7), (2, 8)]" "\<lambda>x. ClearBackends"
      "\<lparr>lr_severity = GCP_LS_INFO, lr_function = ''f'', lr_filename = ''g'', lr_lineno = 3,
        lr_timestamp = 0, lr_message = ''hi''\<rparr>" "\<lparr>clog_out = [], clog_flushed = 0\<rparr>"]
  by simp

text \<open>
  C28: a \<^verbatim>\<open>GCP_LOG\<close> statement ends after at most two tests of its loop condition. It logs exactly one
  record, with the text streamed into it, if the level is enabled at compile time and at run time
  and the sink has a backend; otherwise it changes nothing.
\<close>

theorem GCP_LOG_logs_exactly_once:
  assumes "fuel \<ge> 2"
  shows "GOOGLE_CLOUD_CPP_LOG_I fuel user now level func file line txt w =
     Some (if CompileTimeEnabled level \<and> \<not> ls_empty (fst w) \<and> is_enabled level (fst w)
           then LogSink_Log user
             \<lparr>lr_severity = level, lr_function = func, lr_filename = file, lr_lineno = line,
              lr_timestamp = now, lr_message = txt\<rparr> w
           else Inr w)"
proof -
  obtain n where fuel: "fuel = Suc (Suc n)" using assms by (cases fuel; cases "fuel - 1") auto
  let ?lg = "mk_Logger level func file line (fst w)"
  let ?r = "\<lparr>lr_severity = level, lr_function = func, lr_filename = file, lr_lineno = line,
              lr_timestamp = now, lr_message = txt\<rparr>"
  have off: "log_loop (Suc m) user now txt lg v = Some (Inr v)" if "\<not> lg_enabled lg" for m lg v
    using that by simp
  have on: "Logger_LogTo user now (Logger_write txt ?lg) w =
      bindR (LogSink_Log user ?r w) (\<lambda>w'. Inr ((Logger_write txt ?lg)\<lparr>lg_enabled := False\<rparr>, w'))"
    if "lg_enabled ?lg"
    using that by (simp add: Logger_LogTo_def Logger_write_def Logger_Stream_def mk_Logger_def)
  have "log_loop fuel user now txt ?lg w = Some (if lg_enabled ?lg then LogSink_Log user ?r w else Inr w)"
    unfolding fuel log_loop.simps(2) [of "Suc n"] by (cases "LogSink_Log user ?r w") (simp_all add: on off)
  then show ?thesis
    by (simp add: GOOGLE_CLOUD_CPP_LOG_I_def mk_Logger_def)
qed

theorem GCP_LOG_logs_exactly_once_witness:
  "GOOGLE_CLOUD_CPP_LOG_I 2 (noting (\<lambda>x s. s)) 0 GCP_LS_INFO ''f'' ''g'' 3 ''hi''
     ((LogSink_new :: nat LogSink)\<lparr>ls_empty := False, ls_backends := [(1, UserBackend 7)]\<rparr>, \<lparr>clog_out = [], clog_flushed = 0\<rparr>, [])
   = Some (Inr ((LogSink_new :: nat LogSink)\<lparr>ls_empty := False, ls_backends := [(1, UserBackend 7)]\<rparr>, \<lparr>clog_out = [], clog_flushed = 0\<rparr>,
       [(7, ProcessWithOwnership \<lparr>lr_severity = GCP_LS_INFO, lr_function = ''f'', lr_filename = ''g'',
         lr_lineno = 3, lr_timestamp = 0, lr_message = ''hi''\<rparr>)]))"
  using GCP_LOG_logs_exactly_once [of 2 "noting (\<lambda>x s. s)" 0 GCP_LS_INFO "''f''" "''g''" 3 "''hi''"
      "((LogSink_new :: nat LogSink)\<lparr>ls_empty := False, ls_backends := [(1, UserBackend 7)]\<rparr>, \<lparr>clog_out = [], clog_flushed = 0\<rparr>, [])"]
  by (simp add: LogSink_Log_def call_backend_def noting_def CompileTimeEnabled_def is_enabled_def
      GCP_LS_LOWEST_ENABLED_def less_eq_Severity_def log_simps LogSink_new_def)

text \<open>
  After \<^verbatim>\<open>RemoveBackend\<close> with the identifier of the \<^verbatim>\<open>std::clog\<close> backend the sink still records
  that identifier, so \<^verbatim>\<open>EnableStdClog\<close> does nothing and the sink stays without any backend.
\<close>

lemma RemoveBackend_breaks_EnableStdClog:
  "\<exists>s1 :: 'b LogSink. EnableStdClogImpl LogSink_new = Inr s1 \<and> BackendCount s1 = 1 \<and>
     EnableStdClogImpl (RemoveBackend (ls_clog_backend_id s1) s1) = Inr (RemoveBackend (ls_clog_backend_id s1) s1) \<and>
     BackendCount (RemoveBackend (ls_clog_backend_id s1) s1) = 0"
  by (simp add: EnableStdClogImpl_def AddBackendImpl_def LogSink_new_def map_emplace_def map_find_def
      in_int64_def RemoveBackend_def RemoveBackendImpl_def map_erase_def BackendCount_def)

end
