(* ===== verification/Future_State.thy ===== *)
theory Future_State
  imports Lifetime
begin

text \<open>
  The shared state of futures and promises (\<^verbatim>\<open>future_shared_state_base\<close> and
  \<^verbatim>\<open>future_shared_state<T>\<close> of \<^verbatim>\<open>internal/future_impl.h\<close>). Each function here is what one member
  function does while it holds the mutex; what happens after it released the mutex (calling a
  continuation) is the value \<open>after\<close>. The interleavings of threads are sequences of these
  sections, so the theorems at the end are about every schedule.
\<close>

section \<open>State\<close>

datatype future_state = not_ready | has_exception | has_value

text \<open>
  \<^verbatim>\<open>exception_\<close> is a pointer, null with exceptions disabled. \<^verbatim>\<open>cancellation_callback_\<close> is \<open>None\<close> after
  it was moved out (an empty \<^verbatim>\<open>std::function\<close>). \<open>'v\<close> are values, \<open>'c\<close> continuations, \<open>'k\<close> callbacks.
\<close>

record ('v, 'c, 'k) shared_state =
  ss_retrieved :: bool
  ss_current_state :: future_state
  ss_exception :: "cpp_exception option"
  ss_buffer :: "'v cell"
  ss_continuation :: "'c option"
  ss_cancelled :: bool
  ss_cancellation_callback :: "'k option"

definition shared_state_new :: "'k option \<Rightarrow> ('v, 'c, 'k) shared_state" where
  "shared_state_new cancellation_callback =
     \<lparr>ss_retrieved = False, ss_current_state = not_ready, ss_exception = None, ss_buffer = Uninit,
      ss_continuation = None, ss_cancelled = False,
      ss_cancellation_callback = cancellation_callback\<rparr>"

definition is_ready_unlocked :: "('v, 'c, 'k) shared_state \<Rightarrow> bool" where
  "is_ready_unlocked s \<longleftrightarrow> ss_current_state s \<noteq> not_ready"

definition cancellable :: "('v, 'c, 'k) shared_state \<Rightarrow> bool" where
  "cancellable s \<longleftrightarrow> \<not> is_ready_unlocked s \<and> \<not> ss_cancelled s"

text \<open>The message of \<^verbatim>\<open>std::future_category()\<close> for an error code.\<close>

definition errc_text :: "future_errc \<Rightarrow> string" where
  "errc_text ec =
     (case ec of
        broken_promise \<Rightarrow> ''Broken promise''
      | future_already_retrieved \<Rightarrow> ''Future already retrieved''
      | promise_already_satisfied \<Rightarrow> ''Promise already satisfied''
      | no_state \<Rightarrow> ''No associated state'')"

definition future_fault :: "bool \<Rightarrow> future_errc \<Rightarrow> string \<Rightarrow> fault" where
  "future_fault have_ex ec func = Abn (ThrowFutureError have_ex errc_text ec func)"

section \<open>Locked sections\<close>

text \<open>What a thread does after it released the mutex: run a continuation, or nothing.\<close>

datatype 'c after = Execute 'c | NotifyAll | Return

definition set_exception_locked ::
  "bool \<Rightarrow> cpp_exception option \<Rightarrow> ('v, 'c, 'k) shared_state \<Rightarrow> fault + ('v, 'c, 'k) shared_state" where
  "set_exception_locked have_ex ex s =
     (if is_ready_unlocked s then Inl (future_fault have_ex promise_already_satisfied ''set_exception'')
      else Inr (s\<lparr>ss_exception := ex, ss_current_state := has_exception\<rparr>))"

definition set_value_locked ::
  "bool \<Rightarrow> 'v \<Rightarrow> ('v, 'c, 'k) shared_state \<Rightarrow> fault + ('v, 'c, 'k) shared_state" where
  "set_value_locked have_ex v s =
     (if is_ready_unlocked s then Inl (future_fault have_ex promise_already_satisfied ''set_value'')
      else bindR (cell_new v (ss_buffer s))
             (\<lambda>b. Inr (s\<lparr>ss_buffer := b, ss_current_state := has_value\<rparr>)))"

definition notify_now_locked :: "('v, 'c, 'k) shared_state \<Rightarrow> 'c after" where
  "notify_now_locked s = (case ss_continuation s of Some c \<Rightarrow> Execute c | None \<Rightarrow> NotifyAll)"

definition set_value_section ::
  "bool \<Rightarrow> 'v \<Rightarrow> ('v, 'c, 'k) shared_state \<Rightarrow> fault + ('v, 'c, 'k) shared_state \<times> 'c after" where
  "set_value_section have_ex v s =
     bindR (set_value_locked have_ex v s) (\<lambda>s'. Inr (s', notify_now_locked s'))"

definition set_exception_section ::
  "bool \<Rightarrow> cpp_exception option \<Rightarrow> ('v, 'c, 'k) shared_state
   \<Rightarrow> fault + ('v, 'c, 'k) shared_state \<times> 'c after" where
  "set_exception_section have_ex ex s =
     bindR (set_exception_locked have_ex ex s) (\<lambda>s'. Inr (s', notify_now_locked s'))"

text \<open>\<^verbatim>\<open>abandon\<close> wakes waiting threads but does not look at the continuation.\<close>

definition abandon_section ::
  "bool \<Rightarrow> ('v, 'c, 'k) shared_state \<Rightarrow> fault + ('v, 'c, 'k) shared_state \<times> 'c after" where
  "abandon_section have_ex s =
     (if is_ready_unlocked s then Inr (s, Return)
      else bindR (set_exception_locked have_ex
                    (if have_ex then Some (future_error broken_promise) else None) s)
             (\<lambda>s'. Inr (s', NotifyAll)))"

definition set_continuation_section ::
  "bool \<Rightarrow> 'c \<Rightarrow> ('v, 'c, 'k) shared_state \<Rightarrow> fault + ('v, 'c, 'k) shared_state \<times> 'c after" where
  "set_continuation_section have_ex c s =
     (if ss_continuation s \<noteq> None
      then Inl (future_fault have_ex future_already_retrieved ''set_continuation'')
      else if is_ready_unlocked s then Inr (s, Execute c)
      else Inr (s\<lparr>ss_continuation := Some c\<rparr>, Return))"

text \<open>
  \<^verbatim>\<open>get\<close> once the wait is over: \<open>None\<close> while the state is not ready. The value is moved out; \<open>moved\<close> is
  what a moved-from value looks like. Rethrowing a null pointer is undefined.
\<close>

definition get_section ::
  "bool \<Rightarrow> ('v \<Rightarrow> 'v) \<Rightarrow> ('v, 'c, 'k) shared_state \<Rightarrow> (('v, 'c, 'k) shared_state \<times> (fault + 'v)) option" where
  "get_section have_ex moved s =
     (case ss_current_state s of
        not_ready \<Rightarrow> None
      | has_exception \<Rightarrow>
          Some (s, if have_ex
                   then (case ss_exception s of Some ex \<Rightarrow> Inl (Abn (Thrown ex)) | None \<Rightarrow> Inl (UB NullDeref))
                   else Inl (Abn (Terminated ''future<T>::get() had an exception but exceptions are disabled'')))
      | has_value \<Rightarrow>
          (case cell_get (ss_buffer s) of
             Inl e \<Rightarrow> Some (s, Inl e)
           | Inr v \<Rightarrow> Some (s\<lparr>ss_buffer := Live (moved v)\<rparr>, Inr v)))"

text \<open>\<^verbatim>\<open>wait\<close>: the value is \<open>None\<close> while the calling thread is blocked.\<close>

definition wait_section :: "('v, 'c, 'k) shared_state \<Rightarrow> unit option" where
  "wait_section s = (if is_ready_unlocked s then Some () else None)"

datatype future_status = ready | deferred | timeout

text \<open>
  \<^verbatim>\<open>wait_for\<close> and \<^verbatim>\<open>wait_until\<close> when the wait ends, by readiness or by the clock. The mutex is locked
  by construction, so \<^verbatim>\<open>owns_lock()\<close> holds in the latter.
\<close>

definition wait_for_result :: "('v, 'c, 'k) shared_state \<Rightarrow> future_status" where
  "wait_for_result s =
     (if is_ready_unlocked s then ready
      else if ss_continuation s \<noteq> None then deferred else timeout)"

definition wait_until_result :: "bool \<Rightarrow> ('v, 'c, 'k) shared_state \<Rightarrow> future_status" where
  "wait_until_result owns_lock s =
     (if \<not> owns_lock then timeout
      else if is_ready_unlocked s then ready
      else if ss_continuation s \<noteq> None then deferred else timeout)"

definition mark_retrieved_section ::
  "bool \<Rightarrow> ('v, 'c, 'k) shared_state \<Rightarrow> fault + ('v, 'c, 'k) shared_state" where
  "mark_retrieved_section have_ex s =
     (if ss_retrieved s then Inl (future_fault have_ex future_already_retrieved ''mark_retrieved'')
      else Inr (s\<lparr>ss_retrieved := True\<rparr>))"

definition release_cancellation_callback ::
  "('v, 'c, 'k) shared_state \<Rightarrow> 'k option \<times> ('v, 'c, 'k) shared_state" where
  "release_cancellation_callback s =
     (ss_cancellation_callback s, s\<lparr>ss_cancellation_callback := None\<rparr>)"

text \<open>
  \<^verbatim>\<open>cancel\<close>: the callback runs between the test and the store, without a lock; it may throw. \<open>run\<close> is
  what calling a callback does.
\<close>

definition cancel_with ::
  "('k \<Rightarrow> 'w \<Rightarrow> (fault + unit) \<times> 'w) \<Rightarrow> ('v, 'c, 'k) shared_state \<Rightarrow> 'w
   \<Rightarrow> (fault + bool) \<times> ('v, 'c, 'k) shared_state \<times> 'w" where
  "cancel_with run s w =
     (if \<not> cancellable s then (Inr False, s, w)
      else case ss_cancellation_callback s of
             None \<Rightarrow> (Inl (Abn (Thrown bad_function_call)), s, w)
           | Some k \<Rightarrow>
               (case run k w of
                  (Inl e, w') \<Rightarrow> (Inl e, s, w')
                | (Inr _, w') \<Rightarrow> (Inr True, s\<lparr>ss_cancelled := True\<rparr>, w')))"

definition shared_state_destruct :: "('v, 'c, 'k) shared_state \<Rightarrow> fault + ('v, 'c, 'k) shared_state" where
  "shared_state_destruct s =
     (if ss_current_state s = has_value
      then bindR (cell_destroy (ss_buffer s)) (\<lambda>b. Inr (s\<lparr>ss_buffer := b\<rparr>))
      else Inr s)"

section \<open>Invariant\<close>

definition shared_state_inv :: "('v, 'c, 'k) shared_state \<Rightarrow> bool" where
  "shared_state_inv s \<longleftrightarrow> (alive (ss_buffer s) \<longleftrightarrow> ss_current_state s = has_value)"

lemmas section_defs [future_simps] = set_value_section_def set_exception_section_def abandon_section_def
  set_continuation_section_def set_value_locked_def set_exception_locked_def notify_now_locked_def
  is_ready_unlocked_def

lemma shared_state_new_simps [simp]:
  "ss_retrieved (shared_state_new k) = False" "ss_current_state (shared_state_new k) = not_ready"
  "ss_exception (shared_state_new k) = None" "ss_buffer (shared_state_new k) = Uninit"
  "ss_continuation (shared_state_new k) = None" "ss_cancelled (shared_state_new k) = False"
  "ss_cancellation_callback (shared_state_new k) = k" "\<not> is_ready_unlocked (shared_state_new k)"
  by (simp_all add: shared_state_new_def is_ready_unlocked_def)

text \<open>The operations of one shared state, each a locked section.\<close>

datatype ('v, 'c) state_op =
    OpSetValue 'v | OpSetException "cpp_exception option" | OpAbandon | OpSetContinuation 'c
  | OpMarkRetrieved | OpGet

fun state_op_run ::
  "bool \<Rightarrow> ('v \<Rightarrow> 'v) \<Rightarrow> ('v, 'c) state_op \<Rightarrow> ('v, 'c, 'k) shared_state
   \<Rightarrow> (fault + 'c after) option \<times> ('v, 'c, 'k) shared_state" where
  "state_op_run he mv (OpSetValue v) s =
     (case set_value_section he v s of Inl e \<Rightarrow> (Some (Inl e), s) | Inr (s', a) \<Rightarrow> (Some (Inr a), s'))"
| "state_op_run he mv (OpSetException ex) s =
     (case set_exception_section he ex s of Inl e \<Rightarrow> (Some (Inl e), s) | Inr (s', a) \<Rightarrow> (Some (Inr a), s'))"
| "state_op_run he mv OpAbandon s =
     (case abandon_section he s of Inl e \<Rightarrow> (Some (Inl e), s) | Inr (s', a) \<Rightarrow> (Some (Inr a), s'))"
| "state_op_run he mv (OpSetContinuation c) s =
     (case set_continuation_section he c s of Inl e \<Rightarrow> (Some (Inl e), s) | Inr (s', a) \<Rightarrow> (Some (Inr a), s'))"
| "state_op_run he mv OpMarkRetrieved s =
     (case mark_retrieved_section he s of Inl e \<Rightarrow> (Some (Inl e), s) | Inr s' \<Rightarrow> (Some (Inr Return), s'))"
| "state_op_run he mv OpGet s =
     (case get_section he mv s of None \<Rightarrow> (None, s) | Some (s', r) \<Rightarrow>
        (Some (case r of Inl e \<Rightarrow> Inl e | Inr _ \<Rightarrow> Inr Return), s'))"

definition state_after :: "bool \<Rightarrow> ('v \<Rightarrow> 'v) \<Rightarrow> ('v, 'c) state_op list \<Rightarrow> ('v, 'c, 'k) shared_state \<Rightarrow> ('v, 'c, 'k) shared_state" where
  "state_after he mv ops s = fold (\<lambda>op s. snd (state_op_run he mv op s)) ops s"

lemma state_op_inv:
  assumes "shared_state_inv s"
  shows "shared_state_inv (snd (state_op_run he mv op s))"
    "fst (state_op_run he mv op s) \<noteq> Some (Inl (UB DoubleConstruct))"
    "fst (state_op_run he mv op s) \<noteq> Some (Inl (UB UseDead))"
proof -
  have "shared_state_inv (snd (state_op_run he mv op s)) \<and>
      fst (state_op_run he mv op s) \<noteq> Some (Inl (UB DoubleConstruct)) \<and>
      fst (state_op_run he mv op s) \<noteq> Some (Inl (UB UseDead))"
  proof (cases op)
    case OpGet
    with assms show ?thesis
      by (cases "ss_current_state s"; cases "ss_buffer s"; cases "ss_exception s")
        (simp_all add: get_section_def shared_state_inv_def)
  qed (use assms in \<open>cases "ss_buffer s"; cases "ss_continuation s"; simp add: future_simps
      mark_retrieved_section_def shared_state_inv_def future_fault_def split: if_splits\<close>)+
  then show "shared_state_inv (snd (state_op_run he mv op s))"
    "fst (state_op_run he mv op s) \<noteq> Some (Inl (UB DoubleConstruct))"
    "fst (state_op_run he mv op s) \<noteq> Some (Inl (UB UseDead))"
    by blast+
qed

lemma state_after_inv: "shared_state_inv s \<Longrightarrow> shared_state_inv (state_after he mv ops s)"
  unfolding state_after_def by (induction ops arbitrary: s) (simp_all add: state_op_inv)

text \<open>Being satisfied is final: later operations change neither the outcome nor its kind.\<close>

lemma state_op_terminal:
  assumes "is_ready_unlocked s"
  shows "ss_current_state (snd (state_op_run he mv op s)) = ss_current_state s \<and>
         ss_exception (snd (state_op_run he mv op s)) = ss_exception s"
  using assms
  by (cases op) (auto simp: future_simps mark_retrieved_section_def get_section_def
      split: future_state.splits cell.splits option.splits sum.splits)

lemma state_after_terminal:
  assumes "is_ready_unlocked s"
  shows "ss_current_state (state_after he mv ops s) = ss_current_state s \<and>
         ss_exception (state_after he mv ops s) = ss_exception s"
  using assms
proof (induction ops arbitrary: s)
  case Nil
  then show ?case by (simp add: state_after_def)
next
  case (Cons op ops)
  let ?s = "snd (state_op_run he mv op s)"
  have t: "ss_current_state ?s = ss_current_state s" "ss_exception ?s = ss_exception s"
    using state_op_terminal [OF Cons.prems] by blast+
  then have "is_ready_unlocked ?s" using Cons.prems by (simp add: is_ready_unlocked_def)
  from Cons.IH [OF this] t show ?case by (simp add: state_after_def)
qed

end
