(* ===== verification/Future_Race.thy ===== *)
theory Future_Race
  imports Future_State
begin

text \<open>
  Threads that share one future state. A thread runs one operation: its locked section is one step,
  and running the continuation that the section handed it is another. A blocked \<^verbatim>\<open>get\<close> waits on the
  condition variable until some thread notifies all. The theorems hold for every schedule.
\<close>

section \<open>Threads and their steps\<close>

datatype ('v, 'c) thread =
    Todo "('v, 'c) state_op" | Blocked | Running 'c | Finished | Failed fault

record ('v, 'c, 'k) race =
  r_state :: "('v, 'c, 'k) shared_state"
  r_threads :: "('v, 'c) thread list"
  r_executed :: "'c list"

text \<open>\<^verbatim>\<open>cv_.notify_all()\<close>: blocked threads test the state again.\<close>

fun wake :: "('v, 'c) thread \<Rightarrow> ('v, 'c) thread" where
  "wake Blocked = Todo OpGet"
| "wake th = th"

fun settle :: "'c after \<Rightarrow> nat \<Rightarrow> ('v, 'c) thread list \<Rightarrow> ('v, 'c) thread list" where
  "settle (Execute c) t ths = ths[t := Running c]"
| "settle NotifyAll t ths = (map wake ths)[t := Finished]"
| "settle Return t ths = ths[t := Finished]"

inductive race_step ::
  "bool \<Rightarrow> ('v \<Rightarrow> 'v) \<Rightarrow> ('v, 'c, 'k) race \<Rightarrow> ('v, 'c, 'k) race \<Rightarrow> bool" for he mv where
  section_step:
    "t < length ths \<Longrightarrow> ths ! t = Todo op \<Longrightarrow> state_op_run he mv op s = (Some (Inr a), s') \<Longrightarrow>
     race_step he mv \<lparr>r_state = s, r_threads = ths, r_executed = ex\<rparr>
       \<lparr>r_state = s', r_threads = settle a t ths, r_executed = ex\<rparr>"
| fail_step:
    "t < length ths \<Longrightarrow> ths ! t = Todo op \<Longrightarrow> state_op_run he mv op s = (Some (Inl e), s') \<Longrightarrow>
     race_step he mv \<lparr>r_state = s, r_threads = ths, r_executed = ex\<rparr>
       \<lparr>r_state = s', r_threads = ths[t := Failed e], r_executed = ex\<rparr>"
| block_step:
    "t < length ths \<Longrightarrow> ths ! t = Todo op \<Longrightarrow> state_op_run he mv op s = (None, s') \<Longrightarrow>
     race_step he mv \<lparr>r_state = s, r_threads = ths, r_executed = ex\<rparr>
       \<lparr>r_state = s', r_threads = ths[t := Blocked], r_executed = ex\<rparr>"
| run_step:
    "t < length ths \<Longrightarrow> ths ! t = Running c \<Longrightarrow>
     race_step he mv \<lparr>r_state = s, r_threads = ths, r_executed = ex\<rparr>
       \<lparr>r_state = s, r_threads = ths[t := Finished], r_executed = ex @ [c]\<rparr>"

inductive_cases race_stepE: "race_step he mv r r'"

definition race_init :: "'k option \<Rightarrow> ('v, 'c) state_op list \<Rightarrow> ('v, 'c, 'k) race" where
  "race_init k ops =
     \<lparr>r_state = shared_state_new k, r_threads = map Todo ops, r_executed = []\<rparr>"

section \<open>Counting\<close>

text \<open>Where a continuation can be: still to be attached, attached and waiting, running, or run.\<close>

definition attached :: "'c \<Rightarrow> ('v, 'c, 'k) shared_state \<Rightarrow> nat" where
  "attached c s = (if ss_continuation s = Some c \<and> \<not> is_ready_unlocked s then 1 else 0)"

definition tokens :: "'c \<Rightarrow> ('v, 'c, 'k) race \<Rightarrow> nat" where
  "tokens c r =
     count_list (r_threads r) (Todo (OpSetContinuation c)) + attached c (r_state r)
     + count_list (r_threads r) (Running c) + count_list (r_executed r) c"

lemma count_list_update:
  "t < length xs \<Longrightarrow>
   count_list (xs[t := y]) x + (if xs ! t = x then 1 else 0) = count_list xs x + (if y = x then 1 else 0)"
proof -
  assume t: "t < length xs"
  have "count_list xs x = count_list (take t xs) x + (if xs ! t = x then 1 else 0) + count_list (drop (Suc t) xs) x"
    by (subst id_take_nth_drop [OF t]) (simp del: append_take_drop_id)
  moreover have "count_list (xs[t := y]) x
      = count_list (take t xs) x + (if y = x then 1 else 0) + count_list (drop (Suc t) xs) x"
    using t by (simp add: upd_conv_take_nth_drop)
  ultimately show ?thesis by simp
qed

lemma wake_cases:
  "wake th = Todo (OpSetContinuation c) \<longleftrightarrow> th = Todo (OpSetContinuation c)"
  "wake th = Running c \<longleftrightarrow> th = Running c"
  "wake th \<noteq> Blocked"
  by (cases th; simp)+

lemma count_list_map_wake:
  "count_list (map wake ths) (Todo (OpSetContinuation c)) = count_list ths (Todo (OpSetContinuation c))"
  "count_list (map wake ths) (Running c) = count_list ths (Running c)"
  by (induction ths) (simp_all add: wake_cases)

section \<open>One locked section\<close>

text \<open>What the sections do to readiness, to the continuation and to the next action.\<close>

lemma section_effect:
  assumes "state_op_run he mv op s = (Some (Inr a), s')"
  shows "a = Execute d \<longleftrightarrow>
      is_ready_unlocked s' \<and>
      (ss_continuation s = Some d \<and> \<not> is_ready_unlocked s \<and> (\<exists>v. op = OpSetValue v) \<or>
       ss_continuation s = Some d \<and> \<not> is_ready_unlocked s \<and> (\<exists>e. op = OpSetException e) \<or>
       op = OpSetContinuation d \<and> is_ready_unlocked s)"
    "is_ready_unlocked s \<Longrightarrow> is_ready_unlocked s'"
    "ss_continuation s' = (if \<exists>d. op = OpSetContinuation d \<and> \<not> is_ready_unlocked s
        then Some (case op of OpSetContinuation d \<Rightarrow> d) else ss_continuation s)"
    "op = OpSetContinuation d \<Longrightarrow> ss_continuation s = None"
    "\<not> is_ready_unlocked s \<Longrightarrow> is_ready_unlocked s' \<Longrightarrow> a = NotifyAll \<or> (\<exists>c. a = Execute c \<and> ss_continuation s = Some c)"
    "\<not> is_ready_unlocked s \<Longrightarrow> op = OpAbandon \<Longrightarrow> is_ready_unlocked s' \<and> a = NotifyAll"
    "\<not> is_ready_unlocked s \<Longrightarrow> op = OpSetValue v \<or> op = OpSetException ex \<Longrightarrow> is_ready_unlocked s'"
    "a = NotifyAll \<Longrightarrow> is_ready_unlocked s'"
    "a = Return \<Longrightarrow> is_ready_unlocked s' = is_ready_unlocked s"
  using assms
  by (cases op; auto simp: future_simps get_section_def mark_retrieved_section_def
      split: if_splits sum.splits option.splits future_state.splits cell.splits; fail)+

lemma section_fail_same: "state_op_run he mv op s = (Some (Inl e), s') \<Longrightarrow> s' = s"
  by (cases op; auto simp: future_simps get_section_def mark_retrieved_section_def
      split: if_splits sum.splits option.splits future_state.splits cell.splits)

lemma section_block_same: "state_op_run he mv op s = (None, s') \<Longrightarrow> s' = s \<and> op = OpGet \<and> \<not> is_ready_unlocked s"
  by (cases op; auto simp: future_simps get_section_def mark_retrieved_section_def
      split: if_splits sum.splits option.splits future_state.splits cell.splits)

lemma section_fail_continuation:
  "state_op_run he mv (OpSetContinuation c) s = (Some (Inl e), s') \<Longrightarrow> ss_continuation s \<noteq> None"
  by (auto simp: future_simps split: if_splits)

lemma section_fail_setter:
  "state_op_run he mv op s = (Some (Inl e), s') \<Longrightarrow> op = OpSetValue v \<or> op = OpSetException ex \<Longrightarrow>
   shared_state_inv s \<Longrightarrow> is_ready_unlocked s"
  by (cases "ss_buffer s") (auto simp: future_simps shared_state_inv_def split: if_splits)

lemma attached_step:
  assumes "state_op_run he mv op s = (Some (Inr a), s')"
  shows "attached c s' + (if a = Execute c then 1 else 0)
           \<le> attached c s + (if op = OpSetContinuation c then 1 else 0)"
    "op \<noteq> OpAbandon \<Longrightarrow> attached c s' + (if a = Execute c then 1 else 0)
           = attached c s + (if op = OpSetContinuation c then 1 else 0)"
  using assms
  by (cases op; auto simp: attached_def future_simps get_section_def mark_retrieved_section_def
      split: if_splits sum.splits option.splits future_state.splits cell.splits; fail)+

lemma todo_update:
  assumes "t < length ths" "ths ! t = Todo op"
  shows "y \<noteq> Todo (OpSetContinuation c) \<Longrightarrow>
      count_list (ths[t := y]) (Todo (OpSetContinuation c)) + (if op = OpSetContinuation c then 1 else 0)
      = count_list ths (Todo (OpSetContinuation c))"
    "count_list (ths[t := y]) (Running c) = count_list ths (Running c) + (if y = Running c then 1 else 0)"
  using assms(2) count_list_update [OF assms(1), of y "Todo (OpSetContinuation c)"]
    count_list_update [OF assms(1), of y "Running c"]
  by (simp_all split: if_splits)

lemma settle_counts:
  assumes "t < length ths" "ths ! t = Todo op"
  shows "count_list (settle a t ths) (Todo (OpSetContinuation c)) + (if op = OpSetContinuation c then 1 else 0)
           = count_list ths (Todo (OpSetContinuation c))"
    "count_list (settle a t ths) (Running c) = count_list ths (Running c) + (if a = Execute c then 1 else 0)"
proof -
  have w: "t < length (map wake ths)" "map wake ths ! t = Todo op" using assms by simp_all
  show "count_list (settle a t ths) (Todo (OpSetContinuation c)) + (if op = OpSetContinuation c then 1 else 0)
      = count_list ths (Todo (OpSetContinuation c))"
    using todo_update(1) [OF assms, of _ c] todo_update(1) [OF w, of Finished c]
    by (cases a) (simp_all add: count_list_map_wake)
  show "count_list (settle a t ths) (Running c) = count_list ths (Running c) + (if a = Execute c then 1 else 0)"
    using todo_update(2) [OF assms, of _ c] todo_update(2) [OF w, of Finished c]
    by (cases a) (simp_all add: count_list_map_wake)
qed

lemma length_settle [simp]: "length (settle a t ths) = length ths"
  by (cases a) simp_all

lemma tokens_step:
  assumes "race_step he mv r r'"
  shows "tokens c r' \<le> tokens c r"
  using assms
proof (induction rule: race_step.induct)
  case (section_step t ths op s a s' ex)
  then show ?case
    using settle_counts [OF section_step(1,2), of a c] attached_step(1) [OF section_step(3), of c]
    by (simp add: tokens_def)
next
  case (fail_step t ths op s e s' ex)
  then show ?case
    using todo_update [OF fail_step(1,2), of "Failed e" c] section_fail_same [OF fail_step(3)]
    by (simp add: tokens_def split: if_splits)
next
  case (block_step t ths op s s' ex)
  then show ?case
    using count_list_update [OF block_step(1), of Blocked "Todo (OpSetContinuation c)"]
      count_list_update [OF block_step(1), of Blocked "Running c"] section_block_same [OF block_step(3)]
    by (simp add: tokens_def)
next
  case (run_step t ths d s ex)
  then show ?case
    using count_list_update [OF run_step(1), of Finished "Todo (OpSetContinuation c)"]
      count_list_update [OF run_step(1), of Finished "Running c"]
    by (auto simp: tokens_def split: if_splits)
qed

section \<open>Safety invariant\<close>

definition race_ok :: "('v, 'c, 'k) race \<Rightarrow> bool" where
  "race_ok r \<longleftrightarrow>
     shared_state_inv (r_state r) \<and>
     (\<forall>c. Running c \<in> set (r_threads r) \<or> c \<in> set (r_executed r) \<longrightarrow> is_ready_unlocked (r_state r)) \<and>
     (is_ready_unlocked (r_state r) \<and> ss_continuation (r_state r) = None \<longrightarrow>
        Blocked \<notin> set (r_threads r))"

lemma set_settle:
  "th \<in> set (settle a t ths) \<Longrightarrow>
   th \<in> set ths \<and> (a = NotifyAll \<longrightarrow> th \<noteq> Blocked) \<or> th = Finished \<or> th = Todo OpGet \<or> (\<exists>c. a = Execute c \<and> th = Running c)"
proof (cases a)
  case NotifyAll
  assume "th \<in> set (settle a t ths)"
  with NotifyAll have "th = Finished \<or> th \<in> wake ` set ths"
    using set_update_subset_insert [of "map wake ths" t Finished] by auto
  then show ?thesis
  proof
    assume "th \<in> wake ` set ths"
    then obtain x where "x \<in> set ths" "th = wake x" by auto
    then show ?thesis by (cases rule: thread.exhaust [of x]) auto
  qed simp
qed (use set_update_subset_insert in fastforce)+

lemma set_updateD: "th \<in> set (ths[t := y]) \<Longrightarrow> th \<in> set ths \<or> th = y"
  using set_update_subset_insert by fastforce

lemma race_ok_step:
  assumes "race_step he mv r r'" "race_ok r"
  shows "race_ok r'"
  using assms
proof (induction rule: race_step.induct)
  case (section_step t ths op s a s' ex)
  have inv: "shared_state_inv s'"
    using state_op_inv(1) [of s he mv op] section_step(3,4) by (simp add: race_ok_def)
  note eff = section_effect [OF section_step(3)]
  have run: "is_ready_unlocked s'" if "Running c \<in> set (settle a t ths) \<or> c \<in> set ex" for c
    using that set_settle [of "Running c" a t ths] section_step(4) eff(1) [of c] eff(2)
    by (auto simp: race_ok_def)
  have blk: "Blocked \<notin> set (settle a t ths)" if r: "is_ready_unlocked s'" "ss_continuation s' = None"
  proof
    assume b: "Blocked \<in> set (settle a t ths)"
    then have old: "Blocked \<in> set ths" "a \<noteq> NotifyAll" using set_settle [OF b] by auto
    have "ss_continuation s = None" using eff(3) r(2) by (auto split: if_splits)
    with old eff(5) r(1) have "is_ready_unlocked s" by auto
    with old section_step(4) \<open>ss_continuation s = None\<close> show False by (simp add: race_ok_def)
  qed
  show ?case using inv run blk by (simp add: race_ok_def)
next
  case (fail_step t ths op s e s' ex)
  then show ?case
    using section_fail_same [OF fail_step(3)] set_updateD [of _ ths t "Failed e"]
    by (fastforce simp: race_ok_def)
next
  case (block_step t ths op s s' ex)
  then show ?case
    using section_block_same [OF block_step(3)] set_updateD [of _ ths t Blocked]
    by (fastforce simp: race_ok_def)
next
  case (run_step t ths d s ex)
  then have "Running d \<in> set ths" by (metis nth_mem)
  with run_step show ?case
    using set_updateD [of _ ths t Finished] by (fastforce simp: race_ok_def)
qed

lemma race_ok_init: "race_ok (race_init k ops)"
  by (auto simp: race_ok_def race_init_def shared_state_inv_def)

lemma race_steps_ok: "(race_step he mv)\<^sup>*\<^sup>* r r' \<Longrightarrow> race_ok r \<Longrightarrow> race_ok r'"
  by (induction rule: rtranclp_induct) (auto intro: race_ok_step)

lemma race_steps_tokens: "(race_step he mv)\<^sup>*\<^sup>* r r' \<Longrightarrow> tokens c r' \<le> tokens c r"
  by (induction rule: rtranclp_induct) (auto intro: le_trans tokens_step)

lemma count_list_map_Todo [simp]:
  "count_list (map Todo ops) (Todo x) = count_list ops x"
  "count_list (map Todo ops) (Running c) = 0"
  by (induction ops) auto

lemma tokens_init: "tokens c (race_init k ops) = count_list ops (OpSetContinuation c)"
  by (simp add: tokens_def race_init_def attached_def)

section \<open>Completeness\<close>

definition settled :: "('v, 'c, 'k) race \<Rightarrow> bool" where
  "settled r \<longleftrightarrow> (\<forall>th \<in> set (r_threads r). (\<forall>op. th \<noteq> Todo op) \<and> (\<forall>c. th \<noteq> Running c))"

text \<open>One continuation, nobody abandons the state, and the continuation is not lost.\<close>

definition only_continuation :: "'c \<Rightarrow> ('v, 'c, 'k) race \<Rightarrow> bool" where
  "only_continuation c r \<longleftrightarrow>
     tokens c r = 1 \<and> Todo OpAbandon \<notin> set (r_threads r) \<and>
     (\<forall>d. d \<noteq> c \<longrightarrow> Todo (OpSetContinuation d) \<notin> set (r_threads r) \<and> ss_continuation (r_state r) \<noteq> Some d) \<and>
     (ss_continuation (r_state r) = Some c \<longrightarrow> Todo (OpSetContinuation c) \<notin> set (r_threads r))"

definition satisfiable :: "('v, 'c, 'k) race \<Rightarrow> bool" where
  "satisfiable r \<longleftrightarrow>
     is_ready_unlocked (r_state r) \<or> (\<exists>v. Todo (OpSetValue v) \<in> set (r_threads r)) \<or>
     (\<exists>ex. Todo (OpSetException ex) \<in> set (r_threads r))"

lemma count_list_pos: "x \<in> set xs \<longleftrightarrow> 0 < count_list xs x"
  by (metis count_list_0_iff gr0I less_numeral_extra(3))

lemma count_list_all: "\<forall>d \<in> set xs. d = c \<Longrightarrow> count_list xs c = length xs"
  by (induction xs) auto

lemma section_step_only:
  assumes "t < length ths" "ths ! t = Todo op" "state_op_run he mv op s = (Some (Inr a), s')"
    and only: "only_continuation c \<lparr>r_state = s, r_threads = ths, r_executed = ex\<rparr>"
  shows "only_continuation c \<lparr>r_state = s', r_threads = settle a t ths, r_executed = ex\<rparr>"
proof -
  have op: "Todo op \<in> set ths" using assms(1,2) by (metis nth_mem)
  with only have na: "op \<noteq> OpAbandon" and ncd: "\<And>d. op = OpSetContinuation d \<Longrightarrow> d = c"
    by (auto simp: only_continuation_def)
  have "tokens c \<lparr>r_state = s', r_threads = settle a t ths, r_executed = ex\<rparr> = 1"
    using only settle_counts [OF assms(1,2), of a c] attached_step(2) [OF assms(3) na, of c]
    by (simp add: only_continuation_def tokens_def)
  moreover have new: "Todo x \<in> set ths" if "Todo x \<in> set (settle a t ths)" "x \<noteq> OpGet" for x
    using set_settle [OF that(1)] that(2) by auto
  moreover have c': "ss_continuation s' = ss_continuation s \<or> op = OpSetContinuation c \<and> ss_continuation s' = Some c"
    using section_effect(3) [OF assms(3)] ncd by (auto split: if_splits)
  moreover have "Todo (OpSetContinuation c) \<notin> set (settle a t ths)" if "ss_continuation s' = Some c"
  proof (cases "op = OpSetContinuation c")
    case True
    then have "count_list (settle a t ths) (Todo (OpSetContinuation c)) + 1 = count_list ths (Todo (OpSetContinuation c))"
      using settle_counts(1) [OF assms(1,2), of a c] by simp
    moreover have "count_list ths (Todo (OpSetContinuation c)) \<le> 1"
      using only by (simp add: only_continuation_def tokens_def)
    ultimately show ?thesis by (simp add: count_list_pos)
  next
    case False
    with that c' only new show ?thesis by (auto simp: only_continuation_def)
  qed
  ultimately show ?thesis using only by (auto simp: only_continuation_def)
qed

lemma only_continuation_step:
  assumes "race_step he mv r r'" "only_continuation c r"
  shows "only_continuation c r'"
  using assms
proof (induction rule: race_step.induct)
  case (section_step t ths op s a s' ex)
  then show ?case by (rule section_step_only)
next
  case (fail_step t ths op s e s' ex)
  have op: "Todo op \<in> set ths" using fail_step(1,2) by (metis nth_mem)
  have "op \<noteq> OpSetContinuation c"
    using section_fail_continuation [of he mv c s e s'] fail_step(3,4) op
    by (auto simp: only_continuation_def)
  then have "tokens c \<lparr>r_state = s', r_threads = ths[t := Failed e], r_executed = ex\<rparr> = 1"
    using fail_step(4) todo_update [OF fail_step(1,2), of "Failed e" c] section_fail_same [OF fail_step(3)]
    by (simp add: only_continuation_def tokens_def)
  then show ?case
    using fail_step(4) section_fail_same [OF fail_step(3)] set_updateD [of _ ths t "Failed e"]
    by (fastforce simp: only_continuation_def)
next
  case (block_step t ths op s s' ex)
  then have "tokens c \<lparr>r_state = s', r_threads = ths[t := Blocked], r_executed = ex\<rparr> = 1"
    using todo_update [OF block_step(1,2), of Blocked c] section_block_same [OF block_step(3)]
    by (simp add: only_continuation_def tokens_def)
  then show ?case
    using block_step(4) section_block_same [OF block_step(3)] set_updateD [of _ ths t Blocked]
    by (fastforce simp: only_continuation_def)
next
  case (run_step t ths d s ex)
  have "tokens c \<lparr>r_state = s, r_threads = ths[t := Finished], r_executed = ex @ [d]\<rparr> = 1"
    using run_step(2,3) count_list_update [OF run_step(1), of Finished "Todo (OpSetContinuation c)"]
      count_list_update [OF run_step(1), of Finished "Running c"]
    by (auto simp: only_continuation_def tokens_def split: if_splits)
  then show ?case
    using run_step(3) set_updateD [of _ ths t Finished] by (fastforce simp: only_continuation_def)
qed

lemma satisfiable_step:
  assumes "race_step he mv r r'" "satisfiable r" "race_ok r"
  shows "satisfiable r'"
  using assms
proof (induction rule: race_step.induct)
  case (section_step t ths op s a s' ex)
  note eff = section_effect [OF section_step(3)]
  have keep: "Todo x \<in> set (settle a t ths)" if "Todo x \<in> set ths" "x \<noteq> op" for x
  proof -
    obtain u where u: "u < length ths" "ths ! u = Todo x" using \<open>Todo x \<in> set ths\<close> by (auto simp: in_set_conv_nth)
    then have "u \<noteq> t" using section_step(2) that(2) by auto
    then have "settle a t ths ! u = Todo x" using u by (cases a) simp_all
    then show ?thesis using u(1) by (metis length_settle nth_mem)
  qed
  show ?case
  proof (cases "is_ready_unlocked s'")
    case False
    then have nr: "\<not> is_ready_unlocked s" using eff(2) by blast
    have "op \<noteq> OpSetValue v" "op \<noteq> OpSetException e" for v e
      using eff(7) [OF nr] False by blast+
    with section_step(4) nr keep show ?thesis by (fastforce simp: satisfiable_def)
  qed (simp add: satisfiable_def)
next
  case (fail_step t ths op s e s' ex)
  have inv: "shared_state_inv s" using fail_step(5) by (simp add: race_ok_def)
  show ?case
  proof (cases "is_ready_unlocked s")
    case False
    have "op \<noteq> OpSetValue v" "op \<noteq> OpSetException x" for v x
      using section_fail_setter [OF fail_step(3) _ inv] False by blast+
    moreover have "Todo x \<in> set (ths[t := Failed e])" if "Todo x \<in> set ths" "x \<noteq> op" for x
      using that fail_step(1,2) by (metis in_set_conv_nth length_list_update nth_list_update_neq state_op.distinct(1) thread.inject(1))
    ultimately show ?thesis using fail_step(4) False by (fastforce simp: satisfiable_def)
  qed (simp add: satisfiable_def section_fail_same [OF fail_step(3)])
next
  case (block_step t ths op s s' ex)
  have op: "op = OpGet" "s' = s" using section_block_same [OF block_step(3)] by simp_all
  have "Todo x \<in> set (ths[t := Blocked])" if "Todo x \<in> set ths" "x \<noteq> OpGet" for x
    using that op block_step(1,2) by (metis in_set_conv_nth length_list_update nth_list_update_neq thread.inject(1))
  then show ?case using block_step(4) op by (fastforce simp: satisfiable_def)
next
  case (run_step t ths d s ex)
  have "Todo x \<in> set (ths[t := Finished])" if "Todo x \<in> set ths" for x
    using that run_step(1,2) by (metis in_set_conv_nth length_list_update nth_list_update_neq thread.distinct(3))
  then show ?case using run_step(3) by (fastforce simp: satisfiable_def)
qed

lemma race_complete:
  assumes "(race_step he mv)\<^sup>*\<^sup>* (race_init k ops) r" "settled r"
    and "count_list ops (OpSetContinuation c) = 1" "\<And>d. OpSetContinuation d \<in> set ops \<Longrightarrow> d = c"
    and "OpAbandon \<notin> set ops" "\<exists>v ex. OpSetValue v \<in> set ops \<or> OpSetException ex \<in> set ops"
  shows "r_executed r = [c] \<and> is_ready_unlocked (r_state r)"
proof -
  have "only_continuation c (race_init k ops) \<and> satisfiable (race_init k ops) \<and> race_ok (race_init k ops)"
    using assms(3-6) race_ok_init
    by (auto simp: only_continuation_def tokens_init satisfiable_def) (auto simp: race_init_def)
  with assms(1) have inv: "only_continuation c r \<and> satisfiable r \<and> race_ok r"
    by (induction rule: rtranclp_induct)
      (auto intro: only_continuation_step satisfiable_step race_ok_step)
  then have rdy: "is_ready_unlocked (r_state r)"
    using assms(2) by (fastforce simp: satisfiable_def settled_def)
  have "count_list (r_threads r) (Todo (OpSetContinuation c)) = 0" "count_list (r_threads r) (Running c) = 0"
    using assms(2) by (fastforce simp: settled_def count_list_0_iff)+
  then have one: "count_list (r_executed r) c = 1"
    using inv rdy by (simp add: only_continuation_def tokens_def attached_def)
  have "d = c" if "d \<in> set (r_executed r)" for d
  proof (rule ccontr)
    assume "d \<noteq> c"
    then have "OpSetContinuation d \<notin> set ops" using assms(4) by blast
    then have "tokens d r = 0"
      using race_steps_tokens [OF assms(1), of d] by (simp add: tokens_init count_list_0_iff)
    with that show False by (simp add: tokens_def count_list_0_iff)
  qed
  then have "length (r_executed r) = 1" using one count_list_all [of "r_executed r" c] by simp
  then have "r_executed r = [c]" using one by (auto simp: length_Suc_conv split: if_splits)
  with rdy show ?thesis by simp
qed

section \<open>Every schedule ends\<close>

fun weight :: "bool \<Rightarrow> ('v, 'c) thread \<Rightarrow> nat" where
  "weight rdy (Todo op) = (if rdy then 2 else 4)"
| "weight rdy Blocked = (if rdy then 0 else 3)"
| "weight rdy (Running c) = 1"
| "weight rdy Finished = 0"
| "weight rdy (Failed e) = 0"

definition race_weight :: "('v, 'c, 'k) race \<Rightarrow> nat" where
  "race_weight r = sum_list (map (weight (is_ready_unlocked (r_state r))) (r_threads r))"

lemma sum_weight_update:
  "t < length ths \<Longrightarrow>
   sum_list (map f (ths[t := y])) + f (ths ! t) = sum_list (map f ths) + (f y :: nat)"
proof (induction ths arbitrary: t)
  case (Cons th ths)
  then show ?case by (cases t) auto
qed simp

lemma weight_mono: "weight True (wake th) \<le> weight False th" "weight True th \<le> weight False th"
  by (cases th; simp)+

lemma sum_weight_ready:
  "sum_list (map (weight True) ths) \<le> sum_list (map (weight False) ths)"
  "sum_list (map (weight True) (map wake ths)) \<le> sum_list (map (weight False) ths)"
  unfolding map_map by (auto intro!: sum_list_mono simp: weight_mono)

lemma section_NotifyAll: "state_op_run he mv op s = (Some (Inr NotifyAll), s') \<Longrightarrow> \<not> is_ready_unlocked s"
  by (cases op; auto simp: future_simps get_section_def mark_retrieved_section_def
      split: if_splits sum.splits option.splits future_state.splits cell.splits)

lemma settle_weight:
  assumes "t < length ths" "ths ! t = Todo op" "state_op_run he mv op s = (Some (Inr a), s')"
  shows "sum_list (map (weight (is_ready_unlocked s')) (settle a t ths))
         < sum_list (map (weight (is_ready_unlocked s)) ths)"
proof -
  note eff = section_effect [OF assms(3)]
  have u: "sum_list (map (weight b) (ths[t := y])) + weight b (Todo op) = sum_list (map (weight b) ths) + weight b y" for b y
    using sum_weight_update [OF assms(1), of "weight b" y] assms(2) by simp
  have w: "sum_list (map (weight b) ((map wake ths)[t := y])) + weight b (Todo op)
      = sum_list (map (weight b) (map wake ths)) + weight b y" for b y
    using sum_weight_update [of t "map wake ths" "weight b" y] assms(1,2) by (simp del: map_map)
  show ?thesis
  proof (cases a)
    case (Execute c)
    have r: "is_ready_unlocked s'" using eff(1) [of c] Execute by blast
    then show ?thesis
      using Execute u [of True "Running c"] sum_weight_ready(1) [of ths]
      by (cases "is_ready_unlocked s") simp_all
  next
    case NotifyAll
    have r: "is_ready_unlocked s'" "\<not> is_ready_unlocked s"
      using eff(8) NotifyAll section_NotifyAll assms(3) by blast+
    then show ?thesis
      using NotifyAll w [of True Finished] sum_weight_ready(2) [of ths] by (simp del: map_map)
  next
    case Return
    then show ?thesis
      using eff(9) u [of "is_ready_unlocked s" Finished] by (simp split: if_splits)
  qed
qed

lemma race_weight_step: "race_step he mv r r' \<Longrightarrow> race_weight r' < race_weight r"
proof (induction rule: race_step.induct)
  case (section_step t ths op s a s' ex)
  from settle_weight [OF section_step] show ?case by (simp add: race_weight_def)
next
  case (fail_step t ths op s e s' ex)
  then show ?case
    using sum_weight_update [OF fail_step(1), of "weight (is_ready_unlocked s)" "Failed e"]
      section_fail_same [OF fail_step(3)]
    by (simp add: race_weight_def split: if_splits)
next
  case (block_step t ths op s s' ex)
  then show ?case
    using sum_weight_update [OF block_step(1), of "weight False" Blocked]
      section_block_same [OF block_step(3)]
    by (simp add: race_weight_def)
next
  case (run_step t ths c s ex)
  then show ?case
    using sum_weight_update [OF run_step(1), of "weight (is_ready_unlocked s)" Finished]
    by (simp add: race_weight_def)
qed

lemma race_progress:
  assumes "\<not> settled r"
  shows "\<exists>r'. race_step he mv r r'"
proof -
  obtain s ths ex where r: "r = \<lparr>r_state = s, r_threads = ths, r_executed = ex\<rparr>" by (cases r)
  from assms obtain t where t: "t < length ths" "(\<exists>op. ths ! t = Todo op) \<or> (\<exists>c. ths ! t = Running c)"
    by (auto simp: settled_def r in_set_conv_nth)
  from t(2) show ?thesis
  proof
    assume "\<exists>op. ths ! t = Todo op"
    then obtain op where op: "ths ! t = Todo op" ..
    obtain res s' where run: "state_op_run he mv op s = (res, s')" by fastforce
    show ?thesis
    proof (cases res)
      case None
      with block_step [OF t(1) op] run r show ?thesis by blast
    next
      case (Some x)
      then show ?thesis
        using section_step [OF t(1) op] fail_step [OF t(1) op] run r by (cases x) blast+
    qed
  next
    assume "\<exists>c. ths ! t = Running c"
    with run_step [OF t(1)] r show ?thesis by blast
  qed
qed

section \<open>Undefined behaviour\<close>

text \<open>
  The one way to it is an application that stores a null pointer with \<^verbatim>\<open>set_exception\<close>: \<^verbatim>\<open>get\<close> rethrows it.
\<close>

lemma section_UB:
  assumes "state_op_run he mv op s = (Some (Inl (UB u)), s')" "shared_state_inv s"
  shows "u = NullDeref \<and> he \<and> ss_current_state s = has_exception \<and> ss_exception s = None"
  using assms
  by (cases op; cases "ss_buffer s")
    (auto simp: future_simps get_section_def mark_retrieved_section_def shared_state_inv_def future_fault_def
      split: if_splits sum.splits option.splits future_state.splits)

lemma section_null_exception:
  assumes "state_op_run he mv op s = (Some (Inr a), s')" "he" "ss_current_state s' = has_exception" "ss_exception s' = None"
  shows "op = OpSetException None \<or> ss_current_state s = has_exception \<and> ss_exception s = None"
  using assms
  by (cases op; cases "ss_buffer s")
    (auto simp: future_simps get_section_def mark_retrieved_section_def
      split: if_splits sum.splits option.splits future_state.splits)

definition race_defined :: "bool \<Rightarrow> ('v, 'c) state_op list \<Rightarrow> ('v, 'c, 'k) race \<Rightarrow> bool" where
  "race_defined he ops r \<longleftrightarrow>
     (\<forall>u. Failed (UB u) \<in> set (r_threads r) \<longrightarrow> u = NullDeref \<and> he \<and> OpSetException None \<in> set ops) \<and>
     (\<forall>op. Todo op \<in> set (r_threads r) \<longrightarrow> op \<in> set ops \<or> op = OpGet) \<and>
     (he \<and> ss_current_state (r_state r) = has_exception \<and> ss_exception (r_state r) = None \<longrightarrow>
        OpSetException None \<in> set ops)"

lemma race_defined_step:
  assumes "race_step he mv r r'" "race_defined he ops r" "race_ok r"
  shows "race_defined he ops r'"
  using assms
proof (induction rule: race_step.induct)
  case (section_step t ths op s a s' ex)
  have "Todo op \<in> set ths" using section_step(1,2) by (metis nth_mem)
  moreover have "th \<in> set ths \<or> th = Todo OpGet" if "th \<in> set (settle a t ths)" "th = Failed (UB u) \<or> th = Todo x" for th u x
    using set_settle [OF that(1)] that(2) by auto
  ultimately show ?case
    using section_step(4) section_null_exception [OF section_step(3)] by (fastforce simp: race_defined_def)
next
  case (fail_step t ths op s e s' ex)
  have op: "Todo op \<in> set ths" using fail_step(1,2) by (metis nth_mem)
  have "u = NullDeref \<and> he \<and> OpSetException None \<in> set ops" if "e = UB u" for u
    using section_UB [of he mv op s u s'] fail_step(3-5) that by (simp add: race_ok_def race_defined_def)
  then show ?case
    using fail_step(4) section_fail_same [OF fail_step(3)] set_updateD [of _ ths t "Failed e"]
    by (fastforce simp: race_defined_def)
next
  case (block_step t ths op s s' ex)
  then show ?case
    using section_block_same [OF block_step(3)] set_updateD [of _ ths t Blocked] by (fastforce simp: race_defined_def)
next
  case (run_step t ths d s ex)
  then show ?case using set_updateD [of _ ths t Finished] by (fastforce simp: race_defined_def)
qed

lemma race_steps_defined:
  assumes "(race_step he mv)\<^sup>*\<^sup>* (race_init k ops) r"
  shows "race_defined he ops r"
proof -
  have "race_defined he ops (race_init k ops)" by (auto simp: race_defined_def race_init_def)
  with assms have "race_defined he ops r \<and> race_ok r"
    by (induction rule: rtranclp_induct) (auto intro: race_defined_step race_ok_step race_ok_init)
  then show ?thesis ..
qed

section \<open>Properties\<close>

text \<open>
  C1: whatever the threads that share a future state do and however they are scheduled, a
  continuation never runs before the state is satisfied and never more often than it was attached; no
  thread ends in undefined behaviour (a value read before it is constructed, constructed twice, or a null
  exception rethrown) unless the application itself passed a null pointer to \<^verbatim>\<open>set_exception\<close>; the
  storage holds a value exactly when the state says so; and no thread is blocked in \<^verbatim>\<open>get\<close> once the state is
  satisfied and no continuation is attached. (With a continuation, \<^verbatim>\<open>notify_now\<close> runs it and wakes nobody.)
\<close>

theorem future_race_safety:
  assumes "(race_step he mv)\<^sup>*\<^sup>* (race_init k ops) r"
  shows "count_list (r_executed r) c \<le> count_list ops (OpSetContinuation c) \<and>
         (r_executed r \<noteq> [] \<longrightarrow> is_ready_unlocked (r_state r)) \<and>
         (\<forall>u. Failed (UB u) \<in> set (r_threads r) \<longrightarrow> u = NullDeref \<and> OpSetException None \<in> set ops) \<and>
         (alive (ss_buffer (r_state r)) \<longleftrightarrow> ss_current_state (r_state r) = has_value) \<and>
         (is_ready_unlocked (r_state r) \<and> ss_continuation (r_state r) = None \<longrightarrow>
            Blocked \<notin> set (r_threads r))"
proof -
  have "race_ok r" using race_steps_ok [OF assms race_ok_init] .
  moreover have "count_list (r_executed r) c \<le> count_list ops (OpSetContinuation c)"
    using race_steps_tokens [OF assms, of c] by (simp add: tokens_init) (simp add: tokens_def)
  moreover have "is_ready_unlocked (r_state r)" if "r_executed r \<noteq> []"
    using \<open>race_ok r\<close> hd_in_set [OF that] by (auto simp: race_ok_def)
  ultimately show ?thesis using race_steps_defined [OF assms] by (simp add: race_ok_def race_defined_def shared_state_inv_def)
qed

text \<open>An example: the continuation is attached, then the state is satisfied, then the continuation runs.\<close>

definition example_race :: "(nat, string, unit) race" where
  "example_race = \<lparr>r_state = (shared_state_new (Some ()))\<lparr>ss_continuation := Some ''c'', ss_buffer := Live 1,
     ss_current_state := has_value\<rparr>, r_threads = [Finished, Finished], r_executed = [''c'']\<rparr>"

abbreviation example_ops :: "(nat, string) state_op list" where
  "example_ops \<equiv> [OpSetValue 1, OpSetContinuation ''c'']"

lemma example_race_reachable: "(race_step True (\<lambda>x. x))\<^sup>*\<^sup>* (race_init (Some ()) example_ops) example_race"
proof -
  let ?s0 = "shared_state_new (Some ()) :: (nat, string, unit) shared_state"
  let ?s1 = "?s0\<lparr>ss_continuation := Some ''c''\<rparr>"
  let ?s2 = "?s1\<lparr>ss_buffer := Live 1, ss_current_state := has_value\<rparr>"
  have "race_step True (\<lambda>x. x) (race_init (Some ()) example_ops)
      \<lparr>r_state = ?s1, r_threads = [Todo (OpSetValue 1), Finished], r_executed = []\<rparr>"
    using section_step [of 1 "map Todo example_ops" "OpSetContinuation ''c''" True "\<lambda>x. x" ?s0 Return ?s1 "[]"]
    by (simp add: race_init_def future_simps)
  moreover have "race_step True (\<lambda>x. x) \<lparr>r_state = ?s1, r_threads = [Todo (OpSetValue 1), Finished], r_executed = []\<rparr>
      \<lparr>r_state = ?s2, r_threads = [Running ''c'', Finished], r_executed = []\<rparr>"
    using section_step [of 0 "[Todo (OpSetValue 1), Finished]" "OpSetValue 1" True "\<lambda>x. x" ?s1 "Execute ''c''" ?s2 "[]"]
    by (simp add: future_simps)
  moreover have "race_step True (\<lambda>x. x) \<lparr>r_state = ?s2, r_threads = [Running ''c'', Finished], r_executed = []\<rparr> example_race"
    using run_step [of 0 "[Running ''c'', Finished]" "''c''" True "\<lambda>x. x" ?s2 "[]"] by (simp add: example_race_def)
  ultimately show ?thesis by (meson converse_rtranclp_into_rtranclp rtranclp.rtrancl_refl)
qed

theorem future_race_safety_witness:
  "(race_step True (\<lambda>x. x))\<^sup>*\<^sup>* (race_init (Some ()) example_ops) example_race \<and>
   count_list (r_executed example_race) ''c'' \<le> 1 \<and> is_ready_unlocked (r_state example_race) \<and>
   (\<forall>u. Failed (UB u) \<notin> set (r_threads example_race)) \<and> alive (ss_buffer (r_state example_race))"
  using future_race_safety [OF example_race_reachable, of "''c''"] example_race_reachable
  by (simp add: example_race_def)

text \<open>
  C2: every schedule of the threads comes to an end, no thread that can act is ever stuck, and at
  the end the one attached continuation has run exactly once, whichever of satisfying the state and
  attaching the continuation came first.
\<close>

theorem future_race_continuation_exactly_once:
  assumes "(race_step he mv)\<^sup>*\<^sup>* (race_init k ops) r"
    and "count_list ops (OpSetContinuation c) = 1" "\<forall>d. OpSetContinuation d \<in> set ops \<longrightarrow> d = c"
    and "OpAbandon \<notin> set ops" "\<exists>v ex. OpSetValue v \<in> set ops \<or> OpSetException ex \<in> set ops"
  shows "(\<forall>r'. race_step he mv r r' \<longrightarrow> race_weight r' < race_weight r) \<and>
         ((\<exists>r'. race_step he mv r r') \<or> settled r \<and> r_executed r = [c] \<and> is_ready_unlocked (r_state r))"
proof (cases "settled r")
  case True
  with race_complete [OF assms(1) True assms(2)] assms(3-5) race_weight_step show ?thesis by blast
next
  case False
  with race_progress race_weight_step show ?thesis by blast
qed

theorem future_race_continuation_exactly_once_witness:
  "(race_step True (\<lambda>x. x))\<^sup>*\<^sup>* (race_init (Some ()) example_ops) example_race \<and>
   settled example_race \<and> r_executed example_race = [''c'']"
proof -
  have "race_weight example_race = 0" by (simp add: race_weight_def example_race_def)
  with future_race_continuation_exactly_once [OF example_race_reachable, of "''c''"] example_race_reachable
  show ?thesis by auto
qed

text \<open>
  C38: abandoning the promise after a continuation was attached satisfies the state with
  \<^verbatim>\<open>broken_promise\<close> but never runs the continuation: all threads have finished and nothing was
  executed.
\<close>

theorem abandon_never_runs_continuation:
  fixes mv :: "'v \<Rightarrow> 'v" and k :: "'k option" and c :: 'c
  shows "\<exists>r. (race_step True mv)\<^sup>*\<^sup>* (race_init k [OpSetContinuation c, OpAbandon]) r \<and>
     set (r_threads r) = {Finished} \<and> r_executed r = [] \<and>
     ss_exception (r_state r) = Some (future_error broken_promise) \<and>
     ss_continuation (r_state r) = Some c \<and> (\<nexists>r'. race_step True mv r r')"
proof -
  let ?s0 = "shared_state_new k :: ('v, 'c, 'k) shared_state"
  let ?s1 = "?s0\<lparr>ss_continuation := Some c\<rparr>"
  let ?s2 = "?s1\<lparr>ss_exception := Some (future_error broken_promise), ss_current_state := has_exception\<rparr>"
  let ?r2 = "\<lparr>r_state = ?s2, r_threads = [Finished, Finished], r_executed = []\<rparr>"
  have 1: "race_step True mv (race_init k [OpSetContinuation c, OpAbandon])
      \<lparr>r_state = ?s1, r_threads = [Finished, Todo OpAbandon], r_executed = []\<rparr>"
    using section_step [of 0 "[Todo (OpSetContinuation c), Todo OpAbandon]" "OpSetContinuation c" True mv ?s0 Return ?s1 "[]"]
    by (simp add: race_init_def future_simps)
  have 2: "race_step True mv \<lparr>r_state = ?s1, r_threads = [Finished, Todo OpAbandon], r_executed = []\<rparr> ?r2"
    using section_step [of 1 "[Finished, Todo OpAbandon]" OpAbandon True mv ?s1 NotifyAll ?s2 "[]"]
    by (simp add: future_simps)
  have "\<nexists>r'. race_step True mv ?r2 r'"
  proof
    assume "\<exists>r'. race_step True mv ?r2 r'"
    then obtain r' where "race_step True mv ?r2 r'" ..
    from race_weight_step [OF this] show False by (simp add: race_weight_def)
  qed
  moreover have "(race_step True mv)\<^sup>*\<^sup>* (race_init k [OpSetContinuation c, OpAbandon]) ?r2"
    by (rule rtranclp.rtrancl_into_rtrancl [where b = "\<lparr>r_state = ?s1, r_threads = [Finished, Todo OpAbandon], r_executed = []\<rparr>"])
      (rule r_into_rtranclp [where r = "race_step True mv"], rule 1, rule 2)
  ultimately show ?thesis by (intro exI [of _ ?r2]) simp
qed

end
