(* ===== verification/Future_Void.thy ===== *)
theory Future_Void
  imports Future_State
begin

text \<open>
  The specialization \<^verbatim>\<open>future_shared_state<void>\<close> of \<^verbatim>\<open>internal/future_impl.h\<close>, which has no storage for
  a value and its own \<^verbatim>\<open>get\<close> and \<^verbatim>\<open>set_value\<close>; the other members are those of the base class. Its state
  is a shared state whose buffer is never used. It is shown to behave as the primary template does
  with a value of a one-element type, so the other theories treat \<^verbatim>\<open>void\<close> as that instance.
\<close>

section \<open>Locked sections\<close>

definition void_state_new :: "'k option \<Rightarrow> ('v, 'c, 'k) shared_state" where
  "void_state_new cancellation_callback = shared_state_new cancellation_callback"

definition void_set_value_locked ::
  "bool \<Rightarrow> ('v, 'c, 'k) shared_state \<Rightarrow> fault + ('v, 'c, 'k) shared_state" where
  "void_set_value_locked have_ex s =
     (if is_ready_unlocked s then Inl (future_fault have_ex promise_already_satisfied ''set_value'')
      else Inr (s\<lparr>ss_current_state := has_value\<rparr>))"

definition void_set_value_section ::
  "bool \<Rightarrow> ('v, 'c, 'k) shared_state \<Rightarrow> fault + ('v, 'c, 'k) shared_state \<times> 'c after" where
  "void_set_value_section have_ex s =
     bindR (void_set_value_locked have_ex s) (\<lambda>s'. Inr (s', notify_now_locked s'))"

text \<open>\<open>None\<close> while the wait is not over, as in \<^const>\<open>get_section\<close>.\<close>

definition void_get_section ::
  "bool \<Rightarrow> ('v, 'c, 'k) shared_state \<Rightarrow> (('v, 'c, 'k) shared_state \<times> (fault + unit)) option" where
  "void_get_section have_ex s =
     (if \<not> is_ready_unlocked s then None
      else if ss_current_state s = has_exception
      then Some (s, if have_ex
                    then (case ss_exception s of Some ex \<Rightarrow> Inl (Abn (Thrown ex)) | None \<Rightarrow> Inl (UB NullDeref))
                    else Inl (Abn (Terminated ''future<void>::get() had an exception but exceptions are disabled'')))
      else Some (s, Inr ()))"

text \<open>The operations of one state; the base class provides all but two of them.\<close>

fun void_op_run ::
  "bool \<Rightarrow> (unit, 'c) state_op \<Rightarrow> (unit, 'c, 'k) shared_state
   \<Rightarrow> (fault + 'c after) option \<times> (unit, 'c, 'k) shared_state" where
  "void_op_run he (OpSetValue v) s =
     (case void_set_value_section he s of Inl e \<Rightarrow> (Some (Inl e), s) | Inr (s', a) \<Rightarrow> (Some (Inr a), s'))"
| "void_op_run he OpGet s =
     (case void_get_section he s of None \<Rightarrow> (None, s) | Some (s', r) \<Rightarrow>
        (Some (case r of Inl e \<Rightarrow> Inl e | Inr _ \<Rightarrow> Inr Return), s'))"
| "void_op_run he op s = state_op_run he (\<lambda>v. v) op s"

text \<open>The outcomes of a sequence of operations, in whatever order the threads reach their sections.\<close>

fun run_ops :: "('op \<Rightarrow> 's \<Rightarrow> 'r \<times> 's) \<Rightarrow> 'op list \<Rightarrow> 's \<Rightarrow> 'r list \<times> 's" where
  "run_ops f [] s = ([], s)"
| "run_ops f (op # ops) s =
     (let (r, s1) = f op s; (rs, s2) = run_ops f ops s1 in (r # rs, s2))"

section \<open>Simulation\<close>

text \<open>The state without its buffer, and the text that names the class.\<close>

definition void_state :: "('v, 'c, 'k) shared_state \<Rightarrow> ('v, 'c, 'k) shared_state" where
  "void_state s = s\<lparr>ss_buffer := Uninit\<rparr>"

definition void_fault :: "fault \<Rightarrow> fault" where
  "void_fault e =
     (if e = Abn (Terminated ''future<T>::get() had an exception but exceptions are disabled'')
      then Abn (Terminated ''future<void>::get() had an exception but exceptions are disabled'') else e)"

abbreviation void_result :: "fault + 'a \<Rightarrow> fault + 'a" where
  "void_result \<equiv> map_sum void_fault (\<lambda>x. x)"

abbreviation void_outcome :: "(fault + 'a) option \<Rightarrow> (fault + 'a) option" where
  "void_outcome \<equiv> map_option void_result"

lemma void_fault_simps [simp]: "void_fault (Abn (Thrown ex)) = Abn (Thrown ex)" "void_fault (UB u) = UB u"
  by (simp_all add: void_fault_def)

lemma void_fault_future_fault [simp]: "void_fault (future_fault he ec f) = future_fault he ec f"
proof (cases he)
  case False
  have "c_str (''future_error['' @ t) = ''future_error['' @ c_str t" for t by (simp add: c_str_def)
  with False show ?thesis by (simp add: void_fault_def future_fault_def ThrowFutureError_def)
qed (simp add: void_fault_def future_fault_def ThrowFutureError_def)

lemma void_state_simps [simp]:
  "ss_retrieved (void_state s) = ss_retrieved s" "ss_current_state (void_state s) = ss_current_state s"
  "ss_exception (void_state s) = ss_exception s" "ss_continuation (void_state s) = ss_continuation s"
  "is_ready_unlocked (void_state s) = is_ready_unlocked s"
  "notify_now_locked (void_state s) = notify_now_locked s"
  by (simp_all add: void_state_def future_simps)

lemma void_op_simulates:
  assumes "shared_state_inv s"
  shows "void_op_run he op (void_state s) =
     (void_outcome (fst (state_op_run he (\<lambda>v. v) op s)), void_state (snd (state_op_run he (\<lambda>v. v) op s)))"
proof (cases op)
  case (OpSetValue v)
  with assms show ?thesis
    by (cases "ss_buffer s") (auto simp: void_set_value_section_def void_set_value_locked_def future_simps
        shared_state_inv_def void_state_def split: option.splits)
next
  case OpGet
  with assms show ?thesis
    by (cases "ss_current_state s"; cases "ss_buffer s"; cases "ss_exception s"; cases he)
      (simp_all add: void_get_section_def get_section_def is_ready_unlocked_def shared_state_inv_def void_state_def
        void_fault_def)
qed (auto simp: future_simps mark_retrieved_section_def void_state_def split: if_splits)

lemma void_ops_simulate:
  assumes "shared_state_inv s"
  shows "run_ops (void_op_run he) ops (void_state s) =
     (map void_outcome (fst (run_ops (state_op_run he (\<lambda>v. v)) ops s)),
      void_state (snd (run_ops (state_op_run he (\<lambda>v. v)) ops s)))"
  using assms
proof (induction ops arbitrary: s)
  case (Cons op ops)
  note Cons.IH [OF state_op_inv(1) [OF Cons.prems]]
  with void_op_simulates [OF Cons.prems] show ?case by (simp add: case_prod_unfold Let_def)
qed simp

section \<open>Sequences of operations\<close>

text \<open>
  The specialization for \<^verbatim>\<open>void\<close> is equivalent to the primary template with a one-element value:
  every sequence of operations on a new shared state has the same outcomes (the same continuations
  to execute, waits, exceptions and terminations, up to the class named in a message) and ends in
  the same state but for the storage of the value.
\<close>

lemma future_void_equivalent:
  fixes ops :: "(unit, 'c) state_op list" and k :: "'k option"
  shows "run_ops (void_op_run he) ops (void_state_new k) =
     (map void_outcome (fst (run_ops (state_op_run he (\<lambda>v. v)) ops (shared_state_new k))),
      void_state (snd (run_ops (state_op_run he (\<lambda>v. v)) ops (shared_state_new k))))"
proof -
  let ?s = "shared_state_new k :: (unit, 'c, 'k) shared_state"
  have "void_state_new k = void_state ?s"
    by (simp add: void_state_new_def void_state_def shared_state_new_def)
  moreover have "shared_state_inv ?s" by (simp add: shared_state_inv_def alive_def)
  ultimately show ?thesis using void_ops_simulate [of ?s he ops] by metis
qed

end
