(* ===== verification/Future.thy ===== *)
theory Future
  imports Future_State
begin

text \<open>
  Futures, promises and continuations (\<^verbatim>\<open>internal/future_impl.h\<close>, \<^verbatim>\<open>internal/future_base.h\<close>,
  \<^verbatim>\<open>internal/future_then_impl.h\<close>, \<^verbatim>\<open>future_generic.h\<close>, \<^verbatim>\<open>future_void.h\<close>). Shared states live in a
  store and are named by numbers; a future or a promise is a possibly null pointer to one. The
  functors that applications pass to \<^verbatim>\<open>then\<close> are a parameter: what calling one with a satisfied
  shared state does to the store, and its result. The \<^verbatim>\<open>future<void>\<close> classes have the same code with
  the one value of type unit.
\<close>

section \<open>Store\<close>

text \<open>A value is a plain one or, for \<^verbatim>\<open>future<future<T>>\<close>, a future.\<close>

datatype 'v fval = Plain 'v | FutureVal "nat option"

text \<open>Functors of applications, and the lambda of the library that calls \<^verbatim>\<open>get()\<close> on its argument.\<close>

datatype 'f functor_obj = UserFunctor 'f | GetFunctor

text \<open>
  \<^verbatim>\<open>continuation\<close>: functor, weak pointer to the input, owning pointer to the output;
  \<^verbatim>\<open>unwrapping_continuation\<close> has the intermediate state in addition.
\<close>

datatype 'f continuation =
    Continuation "'f functor_obj" nat "nat option"
  | UnwrappingContinuation "'f functor_obj" nat "nat option" nat

type_synonym ('v, 'f, 'k) fstate = "('v fval, 'f continuation, 'k) shared_state"

text \<open>\<open>fh_calls\<close> notes the calls of application functors.\<close>

record ('v, 'f, 'k) fheap =
  fh_next :: nat
  fh_store :: "nat \<rightharpoonup> ('v, 'f, 'k) fstate"
  fh_calls :: "('f \<times> nat) list"

definition fh_put :: "nat \<Rightarrow> ('v, 'f, 'k) fstate \<Rightarrow> ('v, 'f, 'k) fheap \<Rightarrow> ('v, 'f, 'k) fheap" where
  "fh_put i s h = h\<lparr>fh_store := (fh_store h)(i \<mapsto> s)\<rparr>"

definition fh_alloc ::
  "('v, 'f, 'k) fstate \<Rightarrow> ('v, 'f, 'k) fheap \<Rightarrow> nat \<times> ('v, 'f, 'k) fheap" where
  "fh_alloc s h = (fh_next h, (fh_put (fh_next h) s h)\<lparr>fh_next := Suc (fh_next h)\<rparr>)"

text \<open>
  Outcome of a call: \<open>None\<close> if it does not return (it blocks, or the fuel is used up), else a result
  or a fault with the store at that point.
\<close>

type_synonym ('a, 'h) outcome = "((fault + 'a) \<times> 'h) option"

definition bindH :: "('a, 'h) outcome \<Rightarrow> ('a \<Rightarrow> 'h \<Rightarrow> ('b, 'h) outcome) \<Rightarrow> ('b, 'h) outcome" where
  "bindH m f =
     (case m of None \<Rightarrow> None | Some (Inl e, h) \<Rightarrow> Some (Inl e, h) | Some (Inr x, h) \<Rightarrow> f x h)"

type_synonym ('v, 'f, 'k) functor_call =
  "'f \<Rightarrow> nat \<Rightarrow> ('v, 'f, 'k) fheap \<Rightarrow> (fault + 'v fval) \<times> ('v, 'f, 'k) fheap"

type_synonym ('v, 'f, 'k) executor =
  "'f continuation \<Rightarrow> ('v, 'f, 'k) fheap \<Rightarrow> (unit, ('v, 'f, 'k) fheap) outcome"

section \<open>Operations of a shared state in the store\<close>

text \<open>What remains to do after the mutex is released.\<close>

definition perform :: "('v, 'f, 'k) executor \<Rightarrow> 'f continuation after \<Rightarrow> ('v, 'f, 'k) fheap
    \<Rightarrow> (unit, ('v, 'f, 'k) fheap) outcome" where
  "perform exec a h =
     (case a of Execute c \<Rightarrow> exec c h | NotifyAll \<Rightarrow> Some (Inr (), h) | Return \<Rightarrow> Some (Inr (), h))"

text \<open>Runs a locked section on the state \<open>i\<close>, then what remains.\<close>

definition on_state :: "('v, 'f, 'k) executor \<Rightarrow> nat
    \<Rightarrow> (('v, 'f, 'k) fstate \<Rightarrow> fault + ('v, 'f, 'k) fstate \<times> 'f continuation after)
    \<Rightarrow> ('v, 'f, 'k) fheap \<Rightarrow> (unit, ('v, 'f, 'k) fheap) outcome" where
  "on_state exec i sect h =
     (case fh_store h i of
        None \<Rightarrow> Some (Inl (UB UseDead), h)
      | Some s \<Rightarrow>
          (case sect s of
             Inl e \<Rightarrow> Some (Inl e, h)
           | Inr (s', a) \<Rightarrow> perform exec a (fh_put i s' h)))"

definition state_set_value where
  "state_set_value exec he i v h = on_state exec i (set_value_section he v) h"

definition state_set_exception where
  "state_set_exception exec he i ex h = on_state exec i (set_exception_section he ex) h"

definition state_set_continuation where
  "state_set_continuation exec he i c h = on_state exec i (set_continuation_section he c) h"

definition state_abandon where
  "state_abandon exec he i h = on_state exec i (abandon_section he) h"

definition state_get :: "bool \<Rightarrow> ('v fval \<Rightarrow> 'v fval) \<Rightarrow> nat \<Rightarrow> ('v, 'f, 'k) fheap
    \<Rightarrow> ('v fval, ('v, 'f, 'k) fheap) outcome" where
  "state_get he mv i h =
     (case fh_store h i of
        None \<Rightarrow> Some (Inl (UB UseDead), h)
      | Some s \<Rightarrow>
          (case get_section he mv s of
             None \<Rightarrow> None
           | Some (s', r) \<Rightarrow> Some (r, fh_put i s' h)))"

section \<open>Executing continuations\<close>

definition call_functor :: "bool \<Rightarrow> ('v, 'f, 'k) functor_call \<Rightarrow> ('v fval \<Rightarrow> 'v fval) \<Rightarrow> 'f functor_obj \<Rightarrow> nat
    \<Rightarrow> ('v, 'f, 'k) fheap \<Rightarrow> ('v fval, ('v, 'f, 'k) fheap) outcome" where
  "call_functor he call mv fn i h =
     (case fn of
        UserFunctor f \<Rightarrow> Some (call f i (h\<lparr>fh_calls := fh_calls h @ [(f, i)]\<rparr>))
      | GetFunctor \<Rightarrow> state_get he mv i h)"

text \<open>
  The handlers around the functor call and \<^verbatim>\<open>output.set_value\<close>: a \<^verbatim>\<open>std::future_error\<close> is raised
  again, any other exception is stored in the output.
\<close>

definition report_exception :: "('v, 'f, 'k) executor \<Rightarrow> bool \<Rightarrow> nat
    \<Rightarrow> (unit, ('v, 'f, 'k) fheap) outcome \<Rightarrow> (unit, ('v, 'f, 'k) fheap) outcome" where
  "report_exception exec he out m =
     (case m of
        Some (Inl (Abn (Thrown ex)), h) \<Rightarrow>
          (case ex of
             future_error ec \<Rightarrow> Some (Inl (Abn (Thrown ex)), h)
           | _ \<Rightarrow> state_set_exception exec he out (Some ex) h)
      | _ \<Rightarrow> m)"

definition continuation_execute_delegate where
  "continuation_execute_delegate exec he call mv fn inp out h =
     report_exception exec he out
       (bindH (call_functor he call mv fn inp h) (\<lambda>v h1. state_set_value exec he out v h1))"

text \<open>\<^verbatim>\<open>output.reset()\<close> in the continuation object, which the input state owns if it was attached.\<close>

definition reset_output :: "'f continuation \<Rightarrow> nat \<Rightarrow> ('v, 'f, 'k) fheap \<Rightarrow> ('v, 'f, 'k) fheap" where
  "reset_output c inp h =
     (case fh_store h inp of
        None \<Rightarrow> h
      | Some s \<Rightarrow>
          if ss_continuation s = Some c
          then (case c of
                  Continuation fn i out \<Rightarrow> fh_put inp (s\<lparr>ss_continuation := Some (Continuation fn i None)\<rparr>) h
                | _ \<Rightarrow> h)
          else h)"

fun execute :: "bool \<Rightarrow> ('v, 'f, 'k) functor_call \<Rightarrow> ('v fval \<Rightarrow> 'v fval) \<Rightarrow> nat \<Rightarrow> ('v, 'f, 'k) executor" where
  "execute he call mv 0 c h = None"
| "execute he call mv (Suc n) (Continuation fn inp out) h =
     (case fh_store h inp of
        None \<Rightarrow>
          (case out of
             None \<Rightarrow> Some (Inl (UB NullDeref), h)
           | Some out' \<Rightarrow> state_set_exception (execute he call mv n) he out' (Some (future_error no_state)) h)
      | Some _ \<Rightarrow>
          (case out of
             None \<Rightarrow> Some (Inl (UB NullDeref), h)
           | Some out' \<Rightarrow>
               bindH (continuation_execute_delegate (execute he call mv n) he call mv fn inp out' h)
                 (\<lambda>_ h1. Some (Inr (), reset_output (Continuation fn inp out) inp h1))))"
| "execute he call mv (Suc n) (UnwrappingContinuation fn inp im out) h =
     (case fh_store h inp of
        None \<Rightarrow> state_set_exception (execute he call mv n) he out (Some (future_error no_state)) h
      | Some _ \<Rightarrow>
          (case call_functor he call mv fn inp h of
             None \<Rightarrow> None
           | Some (Inl (Abn (Thrown ex)), h1) \<Rightarrow>
               state_set_exception (execute he call mv n) he out (Some ex) h1
           | Some (Inl e, h1) \<Rightarrow> Some (Inl e, h1)
           | Some (Inr (FutureVal (Some m)), h1) \<Rightarrow>
               state_set_continuation (execute he call mv n) he m (Continuation GetFunctor m (Some out)) h1
           | Some (Inr _, h1) \<Rightarrow>
               state_set_exception (execute he call mv n) he out (Some (future_error broken_promise)) h1))"

section \<open>Attaching continuations\<close>

text \<open>
  The new output state takes over the cancellation callback of the input. States are not removed from the store when
  their last owner goes: a continuation is run through a shared pointer to its input (that of the promise, of the
  future whose \<^verbatim>\<open>then\<close> attaches it, or of the completed state), so the lock of its weak pointer finds the state, and the
  branches of \<^const>\<open>execute\<close> for a lock that fails are there for stores without the input only.
\<close>

definition make_continuation where
  "make_continuation he call mv n self fn unwrap h =
     (case fh_store h self of
        None \<Rightarrow> Some (Inl (UB NullDeref), h)
      | Some s \<Rightarrow>
          (let (cb, s1) = release_cancellation_callback s;
               (out, h1) = fh_alloc (shared_state_new cb) (fh_put self s1 h);
               c = (if unwrap then UnwrappingContinuation fn self None out
                    else Continuation fn self (Some out))
           in bindH (state_set_continuation (execute he call mv n) he self c h1)
                (\<lambda>_ h2. Some (Inr out, h2))))"

section \<open>future and promise\<close>

type_synonym future_ptr = "nat option"
type_synonym promise_ptr = "nat option"

definition check_valid :: "bool \<Rightarrow> future_ptr \<Rightarrow> fault + nat" where
  "check_valid he fut =
     (case fut of None \<Rightarrow> Inl (future_fault he no_state ''check_valid'') | Some i \<Rightarrow> Inr i)"

definition future_valid :: "future_ptr \<Rightarrow> bool" where
  "future_valid fut \<longleftrightarrow> fut \<noteq> None"

text \<open>\<^verbatim>\<open>get()\<close> resets the future before it waits; the second component is the future afterwards.\<close>

definition future_get where
  "future_get he mv fut h =
     (case check_valid he fut of
        Inl e \<Rightarrow> Some (Inl e, fut, h)
      | Inr i \<Rightarrow> map_option (\<lambda>(r, h1). (r, None :: future_ptr, h1)) (state_get he mv i h))"

definition future_is_ready where
  "future_is_ready he fut h =
     bindR (check_valid he fut)
       (\<lambda>i. case fh_store h i of None \<Rightarrow> Inl (UB UseDead) | Some s \<Rightarrow> Inr (is_ready_unlocked s))"

definition future_wait where
  "future_wait he fut h =
     (case check_valid he fut of
        Inl e \<Rightarrow> Some (Inl e)
      | Inr i \<Rightarrow>
          (case fh_store h i of
             None \<Rightarrow> Some (Inl (UB UseDead))
           | Some s \<Rightarrow> map_option Inr (wait_section s)))"

text \<open>\<^verbatim>\<open>wait_for\<close> and \<^verbatim>\<open>wait_until\<close>, in the store at the end of the wait.\<close>

definition future_wait_until where
  "future_wait_until he fut h =
     bindR (check_valid he fut)
       (\<lambda>i. case fh_store h i of None \<Rightarrow> Inl (UB UseDead) | Some s \<Rightarrow> Inr (wait_until_result True s))"

definition future_wait_for where
  "future_wait_for he fut h =
     bindR (check_valid he fut)
       (\<lambda>i. case fh_store h i of None \<Rightarrow> Inl (UB UseDead) | Some s \<Rightarrow> Inr (wait_for_result s))"


text \<open>\<^verbatim>\<open>then()\<close>: on success the future is reset and the new future returned.\<close>

definition future_then where
  "future_then he call mv n fn unwrap fut h =
     (case check_valid he fut of
        Inl e \<Rightarrow> Some (Inl e, fut, h)
      | Inr i \<Rightarrow>
          (case make_continuation he call mv n i fn unwrap h of
             None \<Rightarrow> None
           | Some (Inl e, h1) \<Rightarrow> Some (Inl e, fut, h1)
           | Some (Inr out, h1) \<Rightarrow> Some (Inr (Some out :: future_ptr), None, h1)))"

text \<open>\<^verbatim>\<open>future<T>(future<future<T>>&&)\<close>.\<close>

definition future_unwrap where
  "future_unwrap he call mv n rhs h = future_then he call mv n GetFunctor True rhs h"

definition promise_new :: "'k option \<Rightarrow> ('v, 'f, 'k) fheap \<Rightarrow> promise_ptr \<times> ('v, 'f, 'k) fheap" where
  "promise_new cb h = (case fh_alloc (shared_state_new cb) h of (i, h1) \<Rightarrow> (Some i, h1))"

definition promise_get_future where
  "promise_get_future he p h =
     (case p of
        None \<Rightarrow> (Inl (future_fault he no_state ''mark_retrieved''), h)
      | Some i \<Rightarrow>
          (case fh_store h i of
             None \<Rightarrow> (Inl (UB UseDead), h)
           | Some s \<Rightarrow>
               (case mark_retrieved_section he s of
                  Inl e \<Rightarrow> (Inl e, h)
                | Inr s' \<Rightarrow> (Inr (Some i :: future_ptr), fh_put i s' h))))"

definition promise_set_value where
  "promise_set_value he call mv n p v h =
     (case p of
        None \<Rightarrow> Some (Inl (future_fault he no_state ''set_value''), h)
      | Some i \<Rightarrow> state_set_value (execute he call mv n) he i v h)"

definition promise_set_exception where
  "promise_set_exception he call mv n p ex h =
     (case p of
        None \<Rightarrow> Some (Inl (future_fault he no_state ''set_exception''), h)
      | Some i \<Rightarrow> state_set_exception (execute he call mv n) he i ex h)"

text \<open>The destructor abandons the shared state; a moved-from promise has none.\<close>

definition promise_destroy where
  "promise_destroy he call mv n p h =
     (case p of
        None \<Rightarrow> Some (Inr (), h)
      | Some i \<Rightarrow> state_abandon (execute he call mv n) he i h)"

definition promise_swap :: "promise_ptr \<Rightarrow> promise_ptr \<Rightarrow> promise_ptr \<times> promise_ptr" where
  "promise_swap a b = (b, a)"

text \<open>Move assignment: \<^verbatim>\<open>tmp\<close> takes the state of \<^verbatim>\<open>rhs\<close>, is swapped with \<^verbatim>\<open>*this\<close> and destroyed.\<close>

definition promise_assign_move where
  "promise_assign_move he call mv n this rhs h =
     (let (this', tmp) = promise_swap this rhs in
      bindH (promise_destroy he call mv n tmp h) (\<lambda>_ h1. Some (Inr (this', None :: promise_ptr), h1)))"

definition make_ready_future where
  "make_ready_future he call mv n cb v h =
     (let (p, h1) = promise_new cb h in
      bindH (promise_set_value he call mv n p v h1) (\<lambda>_ h2.
        (case promise_get_future he p h2 of
           (Inl e, h3) \<Rightarrow> Some (Inl e, h3)
         | (Inr fut, h3) \<Rightarrow> bindH (promise_destroy he call mv n p h3) (\<lambda>_ h4. Some (Inr fut, h4)))))"

section \<open>Lemmas on the store\<close>

lemma fh_put_simps [simp]:
  "fh_store (fh_put i s h) = (fh_store h)(i \<mapsto> s)" "fh_next (fh_put i s h) = fh_next h"
  "fh_calls (fh_put i s h) = fh_calls h"
  by (simp_all add: fh_put_def)

lemma bindH_simps [simp]:
  "bindH None f = None" "bindH (Some (Inl e, h)) f = Some (Inl e, h)"
  "bindH (Some (Inr x, h)) f = f x h"
  by (simp_all add: bindH_def)

text \<open>\<^verbatim>\<open>get()\<close> blocks exactly when \<^verbatim>\<open>wait()\<close> does.\<close>

lemma future_wait_get: "future_wait he fut h = None \<longleftrightarrow> future_get he mv fut h = None"
  by (auto simp: future_wait_def future_get_def state_get_def wait_section_def get_section_def is_ready_unlocked_def
      split: sum.splits option.splits future_state.splits)

section \<open>Functors that use the value of their future\<close>

text \<open>
  A functor that calls \<^verbatim>\<open>get()\<close> on the future it receives and computes its result, a value or an
  exception, from what \<^verbatim>\<open>get()\<close> returned or threw.
\<close>

definition getting :: "('v fval \<Rightarrow> 'v fval) \<Rightarrow> ('f \<Rightarrow> fault + 'v fval \<Rightarrow> fault + 'v fval)
    \<Rightarrow> ('v, 'f, 'k) functor_call" where
  "getting mv g f i h =
     (case state_get True mv i h of
        None \<Rightarrow> (Inl (UB UseDead), h)
      | Some (r, h1) \<Rightarrow> (g f r, h1))"

text \<open>Its results are values, or exceptions other than \<^verbatim>\<open>std::future_error\<close>.\<close>

definition reportable :: "fault + 'v fval \<Rightarrow> bool" where
  "reportable r \<longleftrightarrow>
     (case r of Inr v \<Rightarrow> True
      | Inl (Abn (Thrown ex)) \<Rightarrow> (case ex of future_error ec \<Rightarrow> False | _ \<Rightarrow> True)
      | Inl _ \<Rightarrow> False)"

text \<open>A state is satisfied with a result, and satisfying it.\<close>

definition holds :: "('v, 'f, 'k) fstate \<Rightarrow> fault + 'v fval \<Rightarrow> bool" where
  "holds s r \<longleftrightarrow>
     (case r of Inr v \<Rightarrow> ss_current_state s = has_value \<and> ss_buffer s = Live v
      | Inl (Abn (Thrown ex)) \<Rightarrow> ss_current_state s = has_exception \<and> ss_exception s = Some ex
      | Inl _ \<Rightarrow> False)"

definition satisfy where
  "satisfy exec i r h =
     (case r of Inr v \<Rightarrow> state_set_value exec True i v h
      | Inl (Abn (Thrown ex)) \<Rightarrow> state_set_exception exec True i (Some ex) h
      | Inl e \<Rightarrow> Some (Inl e, h))"

lemma reportable_cases:
  assumes "reportable r"
  obtains v where "r = Inr v"
  | ex where "r = Inl (Abn (Thrown ex))" "\<And>ec. ex \<noteq> future_error ec"
proof (cases r)
  case (Inl e)
  then show ?thesis
    using assms that(2) by (auto simp: reportable_def split: fault.splits abnormal.splits cpp_exception.splits)
qed (use that(1) in blast)

definition satisfied_state :: "fault + 'v fval \<Rightarrow> ('v, 'f, 'k) fstate \<Rightarrow> ('v, 'f, 'k) fstate" where
  "satisfied_state r s =
     (case r of Inr v \<Rightarrow> s\<lparr>ss_buffer := Live v, ss_current_state := has_value\<rparr>
      | Inl (Abn (Thrown ex)) \<Rightarrow> s\<lparr>ss_exception := Some ex, ss_current_state := has_exception\<rparr>
      | Inl _ \<Rightarrow> s)"

lemma satisfy_open:
  assumes "fh_store h i = Some s" "ss_current_state s = not_ready" "ss_buffer s = Uninit" "reportable r"
  shows "satisfy exec i r h = perform exec (notify_now_locked s) (fh_put i (satisfied_state r s) h)"
  using assms(4)
  by (rule reportable_cases)
    (use assms(1-3) in \<open>simp_all add: satisfy_def state_set_value_def state_set_exception_def on_state_def
      future_simps satisfied_state_def\<close>)

lemma satisfied_state_props:
  assumes "reportable r"
  shows "holds (satisfied_state r s) r" "ss_continuation (satisfied_state r s) = ss_continuation s"
  using assms by (auto elim!: reportable_cases simp: holds_def satisfied_state_def)

lemma holds_ready: "reportable r \<Longrightarrow> holds s r \<Longrightarrow> is_ready_unlocked s"
  by (auto elim!: reportable_cases simp: holds_def is_ready_unlocked_def)

text \<open>\<^verbatim>\<open>get()\<close> on a satisfied state returns its result and leaves the continuation alone.\<close>

lemma state_get_holds:
  assumes "fh_store h i = Some s" "holds s r" "reportable r"
  shows "\<exists>s'. state_get True mv i h = Some (r, fh_put i s' h) \<and> ss_continuation s' = ss_continuation s \<and>
           is_ready_unlocked s'"
  using assms(3)
proof (rule reportable_cases)
  fix v assume "r = Inr v"
  with assms show ?thesis
    by (intro exI [of _ "s\<lparr>ss_buffer := Live (mv v)\<rparr>"])
      (simp add: state_get_def get_section_def holds_def is_ready_unlocked_def)
next
  fix ex assume "r = Inl (Abn (Thrown ex))"
  with assms show ?thesis
    by (intro exI [of _ s]) (simp add: state_get_def get_section_def holds_def is_ready_unlocked_def)
qed

lemma satisfy_delegate:
  assumes "reportable r"
  shows "report_exception exec True out (case r of Inl e \<Rightarrow> Some (Inl e, h) | Inr v \<Rightarrow> m v)
       = (case r of Inr v \<Rightarrow> report_exception exec True out (m v) | Inl _ \<Rightarrow> satisfy exec out r h)"
  using assms
  by (rule reportable_cases) (auto simp: report_exception_def satisfy_def split: cpp_exception.splits)

text \<open>Running a continuation whose functor gets its value: the output is satisfied with the result.\<close>

lemma execute_getting:
  assumes h: "fh_store h i = Some s" "holds s r" "reportable r" "reportable (g f r)"
    and sat: "\<And>s'. ss_continuation s' = ss_continuation s \<Longrightarrow> is_ready_unlocked s' \<Longrightarrow>
       satisfy (execute True (getting mv g) mv n) out (g f r)
         (fh_put i s' (h\<lparr>fh_calls := fh_calls h @ [(f, i)]\<rparr>)) = Some (Inr (), h2 s')"
  shows "\<exists>s'. ss_continuation s' = ss_continuation s \<and> is_ready_unlocked s' \<and>
     execute True (getting mv g) mv (Suc n) (Continuation (UserFunctor f) i (Some out)) h =
       Some (Inr (), reset_output (Continuation (UserFunctor f) i (Some out)) i (h2 s'))"
proof -
  let ?h = "h\<lparr>fh_calls := fh_calls h @ [(f, i)]\<rparr>" and ?ex = "execute True (getting mv g) mv n"
  have "fh_store ?h i = Some s" using h(1) by simp
  from state_get_holds [OF this h(2,3), of mv]
  obtain s' where s': "state_get True mv i ?h = Some (r, fh_put i s' ?h)"
    "ss_continuation s' = ss_continuation s" "is_ready_unlocked s'" by blast
  have call: "call_functor True (getting mv g) mv (UserFunctor f) i h = Some (g f r, fh_put i s' ?h)"
    by (simp add: call_functor_def getting_def s'(1))
  have "continuation_execute_delegate ?ex True (getting mv g) mv (UserFunctor f) i out h
      = satisfy ?ex out (g f r) (fh_put i s' ?h)"
  proof (cases "g f r")
    case (Inr v)
    with sat [OF s'(2,3)] call show ?thesis
      by (simp add: continuation_execute_delegate_def satisfy_def report_exception_def)
  next
    case (Inl e)
    from satisfy_delegate [OF h(4), of ?ex out "fh_put i s' ?h" "\<lambda>v. None"] Inl call show ?thesis
      by (simp add: continuation_execute_delegate_def)
  qed
  with sat [OF s'(2,3)] s'(2,3) h(1) show ?thesis by auto
qed

section \<open>Chains of continuations\<close>

text \<open>
  \<open>pending h i [(f1, j1), ..., (fn, jn)]\<close>: the unsatisfied state \<open>i\<close> has a continuation that calls
  \<open>f1\<close> and satisfies \<open>j1\<close>, which has one that calls \<open>f2\<close>, and so on.
\<close>

fun pending :: "('v, 'f, 'k) fheap \<Rightarrow> nat \<Rightarrow> ('f \<times> nat) list \<Rightarrow> bool" where
  "pending h i [] \<longleftrightarrow>
     (\<exists>s. fh_store h i = Some s \<and> ss_current_state s = not_ready \<and> ss_buffer s = Uninit \<and>
          ss_continuation s = None)"
| "pending h i ((f, j) # fs) \<longleftrightarrow>
     (\<exists>s. fh_store h i = Some s \<and> ss_current_state s = not_ready \<and> ss_buffer s = Uninit \<and>
          ss_continuation s = Some (Continuation (UserFunctor f) i (Some j))) \<and> pending h j fs"

lemma pending_frame:
  "(\<And>k. k \<in> set (i # map snd fs) \<Longrightarrow> fh_store h' k = fh_store h k) \<Longrightarrow> pending h' i fs = pending h i fs"
proof (induction fs arbitrary: i)
  case Nil
  then show ?case by simp
next
  case (Cons fj fs)
  obtain f j where fj: "fj = (f, j)" by (cases fj)
  have "pending h' j fs = pending h j fs" using Cons.prems by (intro Cons.IH) (simp add: fj)
  with Cons.prems [of i] show ?case by (simp add: fj)
qed

lemma pending_open:
  assumes "pending h i fs"
  obtains s where "fh_store h i = Some s" "ss_current_state s = not_ready" "ss_buffer s = Uninit"
    "ss_continuation s = (case fs of [] \<Rightarrow> None | (f, j) # _ \<Rightarrow> Some (Continuation (UserFunctor f) i (Some j)))"
  using assms by (cases fs) auto

lemma reset_output_simps [simp]:
  "fh_next (reset_output c i h) = fh_next h" "fh_calls (reset_output c i h) = fh_calls h"
  "k \<noteq> i \<Longrightarrow> fh_store (reset_output c i h) k = fh_store h k"
  by (auto simp: reset_output_def split: option.splits continuation.splits)

lemma reset_output_ready:
  "fh_store h i = Some s \<Longrightarrow> is_ready_unlocked s \<Longrightarrow> \<exists>s'. fh_store (reset_output c i h) i = Some s' \<and> is_ready_unlocked s'"
  by (auto simp: reset_output_def is_ready_unlocked_def split: continuation.splits)

text \<open>The result that the functors make of a result, one after the other.\<close>

definition chain_result :: "('f \<Rightarrow> fault + 'v fval \<Rightarrow> fault + 'v fval) \<Rightarrow> 'f list \<Rightarrow> fault + 'v fval \<Rightarrow> fault + 'v fval" where
  "chain_result g fs r = foldl (\<lambda>r f. g f r) r fs"

lemma chain_result_simps [simp]:
  "chain_result g [] r = r" "chain_result g (f # fs) r = chain_result g fs (g f r)"
  "chain_result g (fs @ fs') r = chain_result g fs' (chain_result g fs r)"
  by (simp_all add: chain_result_def)

text \<open>Store \<open>h'\<close> after the chain that starts at \<open>i\<close> was run from \<open>h\<close>.\<close>

definition chain_done where
  "chain_done g i fs r h h' \<longleftrightarrow>
     (\<exists>s. fh_store h' (last (i # map snd fs)) = Some s \<and> holds s (chain_result g (map fst fs) r) \<and>
          ss_continuation s = None) \<and>
     (\<forall>k \<in> set (i # map snd fs). \<exists>s. fh_store h' k = Some s \<and> is_ready_unlocked s) \<and>
     (\<forall>k. k \<notin> set (i # map snd fs) \<longrightarrow> fh_store h' k = fh_store h k) \<and>
     fh_next h' = fh_next h \<and> fh_calls h' = fh_calls h @ zip (map fst fs) (i # map snd fs)"

lemma chain_satisfy:
  fixes g :: "'f \<Rightarrow> fault + 'v fval \<Rightarrow> fault + 'v fval" and h :: "('v, 'f, 'k) fheap"
  assumes g: "\<And>f r. reportable r \<Longrightarrow> reportable (g f r)"
  shows "pending h i fs \<Longrightarrow> distinct (i # map snd fs) \<Longrightarrow> length fs \<le> n \<Longrightarrow> reportable r \<Longrightarrow>
     \<exists>h'. satisfy (execute True (getting mv g) mv n) i r h = Some (Inr (), h') \<and> chain_done g i fs r h h'"
proof (induction fs arbitrary: i r h n)
  case Nil
  then obtain s where s: "fh_store h i = Some s" "ss_current_state s = not_ready" "ss_buffer s = Uninit"
    "ss_continuation s = None" by (auto elim: pending_open)
  show ?case
    unfolding satisfy_open [OF s(1-3) Nil.prems(4)]
    using s Nil.prems(4)
    by (simp add: notify_now_locked_def perform_def chain_done_def satisfied_state_props holds_ready)
next
  case (Cons fj fs)
  obtain f j where fj: "fj = (f, j)" by (cases fj)
  obtain m where n: "n = Suc m" "length fs \<le> m" using Cons.prems(3) by (cases n) auto
  from Cons.prems(1) obtain s where s: "fh_store h i = Some s" "ss_current_state s = not_ready"
    "ss_buffer s = Uninit" "ss_continuation s = Some (Continuation (UserFunctor f) i (Some j))"
    by (auto simp: fj)
  let ?c = "Continuation (UserFunctor f) i (Some j)" and ?s = "satisfied_state r s"
  let ?h = "fh_put i ?s h"
  let ?hc = "\<lambda>s'. fh_put i s' (?h\<lparr>fh_calls := fh_calls ?h @ [(f, i)]\<rparr>)"
  let ?ex = "execute True (getting mv g) mv"
  note sp = satisfied_state_props [OF Cons.prems(4), of s]
  have "\<exists>h'. satisfy (?ex m) j (g f r) (?hc s') = Some (Inr (), h') \<and> chain_done g j fs (g f r) (?hc s') h'"
    for s'
  proof (rule Cons.IH)
    show "pending (?hc s') j fs"
      using Cons.prems(1,2) by (subst pending_frame [where h = h]) (auto simp: fj)
  qed (use Cons.prems(2,4) n(2) g in \<open>auto simp: fj\<close>)
  then obtain h2 where h2: "satisfy (?ex m) j (g f r) (?hc s') = Some (Inr (), h2 s')"
    "chain_done g j fs (g f r) (?hc s') (h2 s')" for s' by metis
  have "fh_store ?h i = Some ?s" by simp
  from execute_getting [where g = g and f = f and mv = mv and n = m and out = j and ?h2.0 = h2,
      OF this sp(1) Cons.prems(4) g [OF Cons.prems(4)]] h2(1)
  obtain s' where s': "ss_continuation s' = ss_continuation ?s" "is_ready_unlocked s'"
    and run: "?ex (Suc m) ?c ?h = Some (Inr (), reset_output ?c i (h2 s'))" by auto
  have sat: "satisfy (?ex n) i r h = Some (Inr (), reset_output ?c i (h2 s'))"
    unfolding satisfy_open [OF s(1-3) Cons.prems(4)] using s(4) run
    by (simp add: n(1) notify_now_locked_def perform_def)
  have notin: "i \<notin> set (j # map snd fs)" using Cons.prems(2) by (simp add: fj)
  then have l: "last (j # map snd fs) \<noteq> i" by (metis last_in_set list.distinct(1))
  have others: "fh_store (reset_output ?c i (h2 s')) k = fh_store (h2 s') k" if "k \<in> set (j # map snd fs)" for k
    using that notin by (intro reset_output_simps) auto
  have "\<exists>s. fh_store (reset_output ?c i (h2 s')) i = Some s \<and> is_ready_unlocked s"
    using h2(2) [of s'] notin s'(2) by (intro reset_output_ready) (simp add: chain_done_def)
  then have "chain_done g i (fj # fs) r h (reset_output ?c i (h2 s'))"
    using h2(2) [of s'] notin l others by (simp add: chain_done_def fj)
  with sat show ?case by blast
qed

section \<open>Attaching continuations to chains\<close>

lemma then_unsatisfied:
  assumes "fh_store h l = Some s" "ss_current_state s = not_ready" "ss_continuation s = None"
    "l \<noteq> fh_next h"
  shows "future_then he call mv n (UserFunctor f) False (Some l) h =
     Some (Inr (Some (fh_next h)), None,
       fh_put l (s\<lparr>ss_cancellation_callback := None, ss_continuation := Some (Continuation (UserFunctor f) l (Some (fh_next h)))\<rparr>)
         (fh_put (fh_next h) (shared_state_new (ss_cancellation_callback s))
           (fh_put l (s\<lparr>ss_cancellation_callback := None\<rparr>) h)\<lparr>fh_next := Suc (fh_next h)\<rparr>))"
  using assms
  by (simp add: future_then_def check_valid_def make_continuation_def release_cancellation_callback_def
      fh_alloc_def state_set_continuation_def on_state_def set_continuation_section_def
      is_ready_unlocked_def perform_def)

text \<open>\<open>then\<close> on the last future of a chain extends it; the cancellation callback moves to the new end.\<close>

lemma pending_snoc:
  assumes "pending h i fs" "distinct (i # map snd fs)" "\<forall>k \<in> set (i # map snd fs). k < fh_next h"
  shows "\<exists>h'. future_then he call mv n (UserFunctor f) False (Some (last (i # map snd fs))) h =
           Some (Inr (Some (fh_next h)), None, h') \<and> pending h' i (fs @ [(f, fh_next h)]) \<and>
         fh_next h' = Suc (fh_next h) \<and> fh_calls h' = fh_calls h \<and>
         (\<forall>k. k \<noteq> last (i # map snd fs) \<and> k < fh_next h \<longrightarrow> fh_store h' k = fh_store h k) \<and>
         map_option ss_cancellation_callback (fh_store h' (fh_next h)) =
           map_option ss_cancellation_callback (fh_store h (last (i # map snd fs)))"
  using assms
proof (induction fs arbitrary: i)
  case Nil
  then obtain s where s: "fh_store h i = Some s" "ss_current_state s = not_ready" "ss_buffer s = Uninit"
    "ss_continuation s = None" by auto
  from then_unsatisfied [OF s(1,2,4), of he call mv n f] Nil s show ?case by simp
next
  case (Cons fj fs)
  obtain f' j where fj: "fj = (f', j)" by (cases fj)
  let ?l = "last (j # map snd fs)"
  obtain h' where h': "future_then he call mv n (UserFunctor f) False (Some ?l) h = Some (Inr (Some (fh_next h)), None, h')"
      "pending h' j (fs @ [(f, fh_next h)])" "fh_next h' = Suc (fh_next h)" "fh_calls h' = fh_calls h"
      "\<forall>k. k \<noteq> ?l \<and> k < fh_next h \<longrightarrow> fh_store h' k = fh_store h k"
      "map_option ss_cancellation_callback (fh_store h' (fh_next h)) = map_option ss_cancellation_callback (fh_store h ?l)"
    using Cons.IH [of j] Cons.prems by (auto simp: fj)
  have "?l \<in> set (j # map snd fs)" by (rule last_in_set) simp
  moreover have "i \<notin> set (j # map snd fs)" using Cons.prems(2) by (simp add: fj)
  ultimately have "i \<noteq> ?l" by metis
  moreover have "i < fh_next h" using Cons.prems(3) by simp
  ultimately have "fh_store h' i = fh_store h i" using h'(5) by blast
  moreover have "last (i # map snd (fj # fs)) = ?l" by (simp add: fj)
  ultimately show ?case using h' Cons.prems(1) by (auto simp: fj)
qed

text \<open>The calls of \<^verbatim>\<open>then\<close> of an application, each on the future the previous one returned.\<close>

fun thens where
  "thens he call mv n [] fut h = Some (Inr fut, h)"
| "thens he call mv n (f # fs) fut h =
     (case future_then he call mv n (UserFunctor f) False fut h of
        None \<Rightarrow> None
      | Some (Inl e, _, h1) \<Rightarrow> Some (Inl e, h1)
      | Some (Inr fut', _, h1) \<Rightarrow> thens he call mv n fs fut' h1)"

lemma thens_pending:
  assumes "pending h i fs" "distinct (i # map snd fs)" "\<forall>k \<in> set (i # map snd fs). k < fh_next h"
  shows "\<exists>h' js. thens he call mv n gs (Some (last (i # map snd fs))) h =
           Some (Inr (Some (last (i # map snd (fs @ zip gs js)))), h') \<and> length js = length gs \<and>
         pending h' i (fs @ zip gs js) \<and> distinct (i # map snd (fs @ zip gs js)) \<and>
         (\<forall>k \<in> set (i # map snd (fs @ zip gs js)). k < fh_next h') \<and> fh_calls h' = fh_calls h"
  using assms
proof (induction gs arbitrary: fs h)
  case Nil
  then show ?case by auto
next
  case (Cons f gs)
  from pending_snoc [OF Cons.prems, of he call mv n f] obtain h1 where
    h1: "future_then he call mv n (UserFunctor f) False (Some (last (i # map snd fs))) h =
           Some (Inr (Some (fh_next h)), None, h1)" "pending h1 i (fs @ [(f, fh_next h)])"
        "fh_next h1 = Suc (fh_next h)" "fh_calls h1 = fh_calls h" by blast
  have "distinct (i # map snd (fs @ [(f, fh_next h)]))" using Cons.prems(2,3) by auto
  moreover have "\<forall>k \<in> set (i # map snd (fs @ [(f, fh_next h)])). k < fh_next h1"
    using Cons.prems(3) h1(3) by auto
  ultimately obtain h2 js where
    h2: "thens he call mv n gs (Some (last (i # map snd (fs @ [(f, fh_next h)])))) h1 =
           Some (Inr (Some (last (i # map snd ((fs @ [(f, fh_next h)]) @ zip gs js)))), h2)"
        "length js = length gs" "pending h2 i ((fs @ [(f, fh_next h)]) @ zip gs js)"
        "distinct (i # map snd ((fs @ [(f, fh_next h)]) @ zip gs js))"
        "\<forall>k \<in> set (i # map snd ((fs @ [(f, fh_next h)]) @ zip gs js)). k < fh_next h2"
        "fh_calls h2 = fh_calls h1"
    using Cons.IH [OF h1(2)] by blast
  have "thens he call mv n (f # gs) (Some (last (i # map snd fs))) h =
      Some (Inr (Some (last (i # map snd (fs @ zip (f # gs) (fh_next h # js))))), h2)"
    using h1(1) h2(1) by simp
  with h1(4) h2(2-6) show ?case by (intro exI [of _ h2] exI [of _ "fh_next h # js"]) simp
qed

text \<open>\<^verbatim>\<open>then\<close> on a satisfied future runs the functor at once.\<close>

lemma then_satisfied:
  fixes g :: "'f \<Rightarrow> fault + 'v fval \<Rightarrow> fault + 'v fval" and h :: "('v, 'f, 'k) fheap"
  assumes g: "\<And>f r. reportable r \<Longrightarrow> reportable (g f r)"
    and s: "fh_store h l = Some s" "holds s r" "ss_continuation s = None" and r: "reportable r"
    and l: "l < fh_next h"
  shows "\<exists>h' s'. future_then True (getting mv g) mv (Suc n) (UserFunctor f) False (Some l) h =
      Some (Inr (Some (fh_next h)), None, h') \<and> fh_store h' (fh_next h) = Some s' \<and>
      holds s' (g f r) \<and> ss_continuation s' = None \<and> fh_next h' = Suc (fh_next h) \<and>
      fh_calls h' = fh_calls h @ [(f, l)] \<and> (\<forall>k. k \<noteq> l \<and> k < fh_next h \<longrightarrow> fh_store h' k = fh_store h k)"
proof -
  let ?o = "fh_next h" and ?ex = "execute True (getting mv g) mv"
  let ?c = "Continuation (UserFunctor f) l (Some ?o)"
  let ?s1 = "s\<lparr>ss_cancellation_callback := None\<rparr>"
  let ?h1 = "(fh_put ?o (shared_state_new (ss_cancellation_callback s)) (fh_put l ?s1 h))\<lparr>fh_next := Suc ?o\<rparr>"
  let ?h2 = "fh_put l ?s1 ?h1"
  let ?hc = "\<lambda>s'. fh_put l s' (?h2\<lparr>fh_calls := fh_calls ?h2 @ [(f, l)]\<rparr>)"
  have rdy: "is_ready_unlocked s" and h1: "holds ?s1 r"
    using s(2) r by (auto elim!: reportable_cases simp: holds_def is_ready_unlocked_def)
  have mk: "make_continuation True (getting mv g) mv (Suc n) l (UserFunctor f) False h =
      bindH (?ex (Suc n) ?c ?h2) (\<lambda>_ h2. Some (Inr ?o, h2))"
    using s rdy l
    by (simp add: make_continuation_def release_cancellation_callback_def fh_alloc_def
        state_set_continuation_def on_state_def set_continuation_section_def is_ready_unlocked_def
        perform_def del: execute.simps)
  have "\<exists>h'. satisfy (?ex n) ?o (g f r) (?hc s') = Some (Inr (), h') \<and> chain_done g ?o [] (g f r) (?hc s') h'" for s'
    using l by (intro chain_satisfy g r) auto
  then obtain h3 where h3: "satisfy (?ex n) ?o (g f r) (?hc s') = Some (Inr (), h3 s')"
    "chain_done g ?o [] (g f r) (?hc s') (h3 s')" for s' by metis
  have "fh_store ?h2 l = Some ?s1" by simp
  from execute_getting [where g = g and f = f and mv = mv and n = n and out = ?o and ?h2.0 = h3,
      OF this h1 r g [OF r]] h3(1)
  obtain s' where ex: "?ex (Suc n) ?c ?h2 = Some (Inr (), reset_output ?c l (h3 s'))" by auto
  have "future_then True (getting mv g) mv (Suc n) (UserFunctor f) False (Some l) h =
      Some (Inr (Some ?o), None, reset_output ?c l (h3 s'))"
    using mk ex by (simp add: future_then_def check_valid_def del: execute.simps)
  moreover have "?o \<noteq> l" using l by simp
  ultimately show ?thesis
    using h3(2) [of s'] by (auto simp: chain_done_def)
qed

lemma thens_satisfied:
  fixes g :: "'f \<Rightarrow> fault + 'v fval \<Rightarrow> fault + 'v fval" and h :: "('v, 'f, 'k) fheap"
  assumes g: "\<And>f r. reportable r \<Longrightarrow> reportable (g f r)" and n: "fs \<noteq> [] \<Longrightarrow> 1 \<le> n"
    and s: "fh_store h l = Some s" "holds s r" "ss_continuation s = None" and r: "reportable r"
    and l: "l < fh_next h"
  shows "\<exists>h' l' s'. thens True (getting mv g) mv n fs (Some l) h = Some (Inr (Some l'), h') \<and>
      fh_store h' l' = Some s' \<and> holds s' (chain_result g fs r) \<and>
      map fst (fh_calls h') = map fst (fh_calls h) @ fs"
  using n s r l
proof (induction fs arbitrary: h l s r)
  case Nil
  then show ?case by auto
next
  case (Cons f fs)
  obtain m where m: "n = Suc m" using Cons.prems(1) by (cases n) auto
  from then_satisfied [where g = g and mv = mv and n = m and f = f, OF g Cons.prems(2-6)] obtain h1 s1 where
    h1: "future_then True (getting mv g) mv n (UserFunctor f) False (Some l) h =
      Some (Inr (Some (fh_next h)), None, h1)" "fh_store h1 (fh_next h) = Some s1"
      "holds s1 (g f r)" "ss_continuation s1 = None" "fh_next h1 = Suc (fh_next h)"
      "fh_calls h1 = fh_calls h @ [(f, l)]" by (auto simp: m)
  have "fh_next h < fh_next h1" using h1(5) by simp
  from Cons.IH [OF _ h1(2-4) g [OF Cons.prems(5)] this] m h1(1,6) show ?case by fastforce
qed

section \<open>Properties\<close>

text \<open>
  An application: take the future of a new promise, attach the functors \<open>pre\<close>, satisfy the promise
  with a value or an exception, attach the functors \<open>post\<close> and get the result.
\<close>

definition promise_satisfy where
  "promise_satisfy call mv n p r h =
     (case r of Inr v \<Rightarrow> promise_set_value True call mv n p v h
      | Inl (Abn (Thrown ex)) \<Rightarrow> promise_set_exception True call mv n p (Some ex) h
      | Inl e \<Rightarrow> Some (Inl e, h))"

definition chain_program where
  "chain_program call mv n cb pre r post h =
     (let (p, h1) = promise_new cb h in
      case promise_get_future True p h1 of
        (Inl e, h2) \<Rightarrow> Some (Inl e, h2)
      | (Inr fut, h2) \<Rightarrow>
          bindH (thens True call mv n pre fut h2) (\<lambda>fut1 h3.
          bindH (promise_satisfy call mv n p r h3) (\<lambda>_ h4.
          bindH (thens True call mv n post fut1 h4) (\<lambda>fut2 h5.
            map_option (\<lambda>(res, _, h6). (res, h6)) (future_get True mv fut2 h5)))))"

text \<open>The first part of the program: attach functors to a new promise, then satisfy it.\<close>

lemma chain_satisfied:
  fixes g :: "'f \<Rightarrow> fault + 'v fval \<Rightarrow> fault + 'v fval" and h :: "('v, 'f, 'k) fheap"
  assumes "\<And>f r. reportable r \<Longrightarrow> reportable (g f r)" "reportable r" "length pre \<le> n"
    and h2: "fh_store h2 i = Some ((shared_state_new cb)\<lparr>ss_retrieved := True\<rparr>)" "i < fh_next h2"
  shows "\<exists>h3 h4 l s4. thens True (getting mv g) mv n pre (Some i) h2 = Some (Inr (Some l), h3) \<and>
     promise_satisfy (getting mv g) mv n (Some i) r h3 = Some (Inr (), h4) \<and>
     fh_store h4 l = Some s4 \<and> holds s4 (chain_result g pre r) \<and> ss_continuation s4 = None \<and>
     l < fh_next h4 \<and> map fst (fh_calls h4) = map fst (fh_calls h2) @ pre"
proof -
  let ?call = "getting mv g"
  have "pending h2 i []" "distinct (i # map snd ([] :: ('f \<times> nat) list))"
    "\<forall>k \<in> set (i # map snd ([] :: ('f \<times> nat) list)). k < fh_next h2" using h2 by simp_all
  note tp = thens_pending [OF this, of True ?call mv n pre]
  have "last (i # map snd ([] :: ('f \<times> nat) list)) = i" by simp
  from tp [unfolded this append_Nil] obtain h3 js where
    t1: "thens True ?call mv n pre (Some i) h2 = Some (Inr (Some (last (i # map snd (zip pre js)))), h3)"
    and js: "length js = length pre" and pend: "pending h3 i (zip pre js)"
    and dist: "distinct (i # map snd (zip pre js))" and below: "\<forall>k \<in> set (i # map snd (zip pre js)). k < fh_next h3"
    and calls3: "fh_calls h3 = fh_calls h2"
    by blast
  have "length (zip pre js) \<le> n" using assms(3) js by simp
  from chain_satisfy [where g = g and mv = mv, OF assms(1) pend dist this assms(2)] obtain h4 where
    sat: "satisfy (execute True ?call mv n) i r h3 = Some (Inr (), h4)"
    and cdone: "chain_done g i (zip pre js) r h3 h4" by blast
  have sat': "promise_satisfy ?call mv n (Some i) r h3 = Some (Inr (), h4)"
    using assms(2) sat
    by (auto elim!: reportable_cases simp: promise_satisfy_def satisfy_def promise_set_value_def
        promise_set_exception_def)
  let ?l = "last (i # map snd (zip pre js))"
  from cdone js obtain s4 where s4: "fh_store h4 ?l = Some s4" "holds s4 (chain_result g pre r)" "ss_continuation s4 = None"
    by (auto simp: chain_done_def)
  have "?l \<in> set (i # map snd (zip pre js))" by (rule last_in_set) simp
  with below have "?l < fh_next h3" by (rule bspec)
  with cdone have l: "?l < fh_next h4" unfolding chain_done_def by metis
  have "map fst (fh_calls h4) = map fst (fh_calls h2) @ pre"
    using cdone js by (simp add: chain_done_def calls3 map_fst_zip_take)
  with t1 sat' s4 l show ?thesis by blast
qed

text \<open>
  C4: a chain of \<^verbatim>\<open>then\<close> calls returns and yields the composition of its functors applied to the value
  or exception of the promise, every functor being called exactly once and in order, no matter
  which of them were attached before the promise was satisfied and which after; fuel for one
  execution per functor is enough. The exceptions in question, those of the functors and the one
  the promise may be satisfied with, are any but \<^verbatim>\<open>std::future_error\<close>, which the library does not
  pass on from a functor (see the property on it below).
\<close>

theorem future_then_chain:
  fixes g :: "'f \<Rightarrow> fault + 'v fval \<Rightarrow> fault + 'v fval" and h :: "('v, 'f, 'k) fheap"
  assumes "\<And>f r. reportable r \<Longrightarrow> reportable (g f r)" "reportable r"
    and "length pre + length post \<le> n"
  shows "\<exists>h'. chain_program (getting mv g) mv n cb pre r post h =
           Some (chain_result g (pre @ post) r, h') \<and>
         map fst (fh_calls h') = map fst (fh_calls h) @ pre @ post"
proof -
  let ?i = "fh_next h" and ?call = "getting mv g"
  let ?h1 = "(fh_put ?i (shared_state_new cb) h)\<lparr>fh_next := Suc ?i\<rparr>"
  let ?h2 = "fh_put ?i ((shared_state_new cb)\<lparr>ss_retrieved := True\<rparr>) ?h1"
  have p: "promise_new cb h = (Some ?i, ?h1)"
    by (simp add: promise_new_def fh_alloc_def)
  have fut: "promise_get_future True (Some ?i) ?h1 = (Inr (Some ?i), ?h2)"
    by (simp add: promise_get_future_def mark_retrieved_section_def)
  have "length pre \<le> n" "fh_store ?h2 ?i = Some ((shared_state_new cb)\<lparr>ss_retrieved := True\<rparr>)" "?i < fh_next ?h2"
    using assms(3) by simp_all
  from chain_satisfied [where g = g and mv = mv, OF assms(1,2) this] obtain h3 h4 l s4 where
    t1: "thens True ?call mv n pre (Some ?i) ?h2 = Some (Inr (Some l), h3)"
    and sat: "promise_satisfy ?call mv n (Some ?i) r h3 = Some (Inr (), h4)"
    and s4: "fh_store h4 l = Some s4" "holds s4 (chain_result g pre r)" "ss_continuation s4 = None"
    and l: "l < fh_next h4" and calls4: "map fst (fh_calls h4) = map fst (fh_calls h) @ pre" by auto
  have rp: "reportable (chain_result g fs r)" for fs
    using assms(2) by (induction fs arbitrary: r) (simp_all add: assms(1))
  have n1: "1 \<le> n" if "post \<noteq> []" using that assms(3) by (cases post) auto
  from thens_satisfied [where g = g and mv = mv and fs = post, OF assms(1) n1 s4 rp l] obtain h5 l' s5 where
    t2: "thens True ?call mv n post (Some l) h4 = Some (Inr (Some l'), h5)"
    and s5: "fh_store h5 l' = Some s5" "holds s5 (chain_result g (pre @ post) r)"
    and calls5: "map fst (fh_calls h5) = map fst (fh_calls h) @ pre @ post" by (auto simp: calls4)
  from state_get_holds [OF s5 rp, of mv] obtain s6 where
    "state_get True mv l' h5 = Some (chain_result g (pre @ post) r, fh_put l' s6 h5)" by blast
  then have get: "future_get True mv (Some l') h5 = Some (chain_result g (pre @ post) r, None, fh_put l' s6 h5)"
    by (simp add: future_get_def check_valid_def)
  have "chain_program ?call mv n cb pre r post h = Some (chain_result g (pre @ post) r, fh_put l' s6 h5)"
    unfolding chain_program_def p Let_def prod.case fut sum.case t1 bindH_simps sat t2 get by simp
  with calls5 show ?thesis by (intro exI [of _ "fh_put l' s6 h5"]) simp
qed

text \<open>The functors of the example add their number to a value, or rethrow; \<open>0\<close> throws.\<close>

definition example_functor :: "nat \<Rightarrow> fault + nat fval \<Rightarrow> fault + nat fval" where
  "example_functor f r =
     (case r of Inr (Plain v) \<Rightarrow> if f = 0 then Inl (Abn (Thrown (user_exception v))) else Inr (Plain (v + f))
      | r \<Rightarrow> r)"

theorem future_then_chain_witness:
  "\<exists>h'. chain_program (getting id example_functor) id 4 (None :: unit option) [2, 3] (Inr (Plain 10)) [0, 7]
     \<lparr>fh_next = 0, fh_store = Map.empty, fh_calls = []\<rparr>
   = Some (Inl (Abn (Thrown (user_exception 15))), h') \<and> map fst (fh_calls h') = [2, 3, 0, 7]"
proof -
  have g: "reportable (example_functor f r)" if "reportable r" for f r
    using that by (auto simp: reportable_def example_functor_def split: sum.splits fval.splits)
  have r: "reportable (Inr (Plain (10 :: nat)))" by (simp add: reportable_def)
  from future_then_chain [where g = example_functor and mv = id and n = 4 and cb = "None :: unit option"
      and pre = "[2, 3]" and post = "[0, 7]" and h = "\<lparr>fh_next = 0, fh_store = Map.empty, fh_calls = []\<rparr>",
      OF g r]
  show ?thesis by (simp add: chain_result_def example_functor_def)
qed

datatype unwrap_event = MakeUnwrapped | SatisfyOuter | SatisfyInner

fun unwrap_step where
  "unwrap_step call mv n inner outer r MakeUnwrapped fut h =
     (case future_unwrap True call mv n fut h of
        None \<Rightarrow> None | Some (Inl e, _, h1) \<Rightarrow> Some (Inl e, h1) | Some (Inr fut', _, h1) \<Rightarrow> Some (Inr fut', h1))"
| "unwrap_step call mv n inner outer r SatisfyOuter fut h =
     bindH (promise_set_value True call mv n outer (FutureVal inner) h) (\<lambda>_ h1. Some (Inr fut, h1))"
| "unwrap_step call mv n inner outer r SatisfyInner fut h =
     bindH (promise_satisfy call mv n inner r h) (\<lambda>_ h1. Some (Inr fut, h1))"

definition unwrap_program where
  "unwrap_program call mv n cb evs r h =
     (let (inner, h1) = promise_new cb h; (outer, h2) = promise_new cb h1 in
      bindH (fold (\<lambda>ev m. bindH m (unwrap_step call mv n inner outer r ev)) evs (Some (Inr outer, h2)))
        (\<lambda>fut h3. map_option (\<lambda>(res, _, h4). (res, h4)) (future_get True mv fut h3)))"

lemmas run_simps = unwrap_program_def future_unwrap_def promise_new_def fh_alloc_def future_then_def
  check_valid_def make_continuation_def release_cancellation_callback_def state_set_continuation_def
  on_state_def section_defs perform_def promise_set_value_def promise_set_exception_def promise_satisfy_def
  state_set_value_def state_set_exception_def call_functor_def state_get_def get_section_def
  continuation_execute_delegate_def report_exception_def future_get_def reset_output_def

text \<open>
  C5: unwrapping. A \<^verbatim>\<open>future<T>\<close> made from a \<^verbatim>\<open>future<future<T>>\<close> becomes ready with the result of the
  inner future in every order of the three events: creating it, satisfying the outer promise with
  the inner future, and satisfying the inner promise.
\<close>

theorem future_unwrap_any_order:
  fixes h :: "('v, 'f, 'k) fheap"
  assumes "evs \<in> set [[MakeUnwrapped, SatisfyOuter, SatisfyInner], [MakeUnwrapped, SatisfyInner, SatisfyOuter],
      [SatisfyOuter, MakeUnwrapped, SatisfyInner], [SatisfyOuter, SatisfyInner, MakeUnwrapped],
      [SatisfyInner, MakeUnwrapped, SatisfyOuter], [SatisfyInner, SatisfyOuter, MakeUnwrapped]]"
    and "reportable r"
  shows "map_option fst (unwrap_program call mv (Suc (Suc n)) cb evs r h) = Some r"
  using assms(2)
proof (rule reportable_cases)
  fix v assume "r = Inr v"
  with assms(1) show ?thesis
    by (auto simp: run_simps)
next
  fix ex assume "r = Inl (Abn (Thrown ex))" "\<And>ec. ex \<noteq> future_error ec"
  with assms(1) show ?thesis
    by (auto simp: run_simps split: cpp_exception.splits)
qed


theorem future_unwrap_any_order_witness:
  "map_option fst (unwrap_program (getting id example_functor) id 2 (None :: unit option)
     [SatisfyInner, MakeUnwrapped, SatisfyOuter] (Inr (Plain 5))
     \<lparr>fh_next = 0, fh_store = Map.empty, fh_calls = []\<rparr>) = Some (Inr (Plain (5 :: nat)))"
  using future_unwrap_any_order [of "[SatisfyInner, MakeUnwrapped, SatisfyOuter]" "Inr (Plain (5 :: nat))"
      "getting id example_functor" id 0 "None :: unit option" "\<lparr>fh_next = 0, fh_store = Map.empty, fh_calls = []\<rparr>"]
  by (simp add: reportable_def numeral_2_eq_2)



text \<open>
  C40: a functor that throws a \<^verbatim>\<open>std::future_error\<close>, for instance because \<^verbatim>\<open>get()\<close> on its argument
  reports a broken promise, does not have the exception stored in the future that \<^verbatim>\<open>then\<close> returned:
  the exception leaves the call that satisfied the promise and the returned future never becomes
  ready. When the promise was broken before, \<^verbatim>\<open>then\<close> itself throws.
\<close>

theorem functor_future_error_escapes:
  fixes h :: "('v, 'f, 'k) fheap"
  assumes "promise_new cb h = (p, h1)" "promise_get_future True p h1 = (Inr fut, h2)"
  shows "(\<exists>fut' h3 h4. future_then True (\<lambda>f i h. (Inl (Abn (Thrown (future_error ec))), h)) mv (Suc n)
            (UserFunctor f) False fut h2 = Some (Inr fut', None, h3) \<and>
          promise_set_value True (\<lambda>f i h. (Inl (Abn (Thrown (future_error ec))), h)) mv (Suc n) p v h3
            = Some (Inl (Abn (Thrown (future_error ec))), h4) \<and>
          future_is_ready True fut' h4 = Inr False) \<and>
    (\<exists>h3 fut' h4. promise_destroy True (getting mv (\<lambda>f r. r)) mv (Suc n) p h2 = Some (Inr (), h3) \<and>
       future_then True (getting mv (\<lambda>f r. r)) mv (Suc n) (UserFunctor f) False fut h3
         = Some (Inl (Abn (Thrown (future_error broken_promise))), fut', h4))"
  using assms
  by (auto simp: run_simps promise_get_future_def mark_retrieved_section_def future_is_ready_def
      promise_destroy_def state_abandon_def getting_def)

theorem functor_future_error_escapes_witness:
  "\<exists>h1 h2 h3 fut' h4. promise_new (None :: unit option) (\<lparr>fh_next = 0, fh_store = Map.empty, fh_calls = []\<rparr> :: (nat, nat, unit) fheap)
       = (Some 0, h1) \<and> promise_get_future True (Some 0) h1 = (Inr (Some 0), h2) \<and>
     promise_destroy True (getting id (\<lambda>f r. r)) id (Suc 0) (Some 0) h2 = Some (Inr (), h3) \<and>
     future_then True (getting id (\<lambda>f r. r)) id (Suc 0) (UserFunctor 7) False (Some 0) h3
         = Some (Inl (Abn (Thrown (future_error broken_promise))), fut', h4)"
proof -
  let ?h = "\<lparr>fh_next = 0, fh_store = Map.empty, fh_calls = []\<rparr> :: (nat, nat, unit) fheap"
  obtain h1 where h1: "promise_new (None :: unit option) ?h = (Some 0, h1)"
    by (simp add: promise_new_def fh_alloc_def)
  obtain h2 where h2: "promise_get_future True (Some 0) h1 = (Inr (Some 0), h2)"
    using h1 by (auto simp: promise_new_def fh_alloc_def promise_get_future_def mark_retrieved_section_def)
  from functor_future_error_escapes [OF h1 h2, where mv = id and n = 0 and f = 7] h1 h2 show ?thesis by blast
qed



end
