(* ===== verification/Completion_Queue.thy ===== *)
theory Completion_Queue
  imports Status_Or
begin

text \<open>
  The completion queue (\<^verbatim>\<open>internal/completion_queue_impl.{h,cc}\<close>, \<^verbatim>\<open>completion_queue.{h,cc}\<close>): the
  operations it tracks and its critical sections. An operation is known by the address gRPC gets as
  its tag. The promise of an operation is represented by what \<^verbatim>\<open>Notify\<close> stores in it; time points
  are nanosecond counts.
\<close>

section \<open>Operations\<close>

text \<open>\<^verbatim>\<open>AsyncTimerFuture\<close>: the alarm is null in some tests.\<close>

record AsyncTimerFuture =
  timer_deadline :: int
  timer_alarm :: bool

text \<open>\<^verbatim>\<open>AsyncUnaryRpcFuture\<close>: the context is null until \<^verbatim>\<open>Start\<close>; gRPC fills the status and the response.\<close>

record 'r AsyncUnaryRpcFuture =
  rpc_context :: bool
  rpc_status :: grpc_Status
  rpc_response :: 'r

text \<open>The adapters of a read stream, by the member function that \<^verbatim>\<open>Notify\<close> calls.\<close>

datatype 'r stream_adapter =
    NotifyStart
  | NotifyRead 'r
  | NotifyFinish grpc_Status
  | NotifyDiscard 'r

datatype 'r AsyncGrpcOperation =
    TimerOp AsyncTimerFuture
  | UnaryOp "'r AsyncUnaryRpcFuture"
  | StreamOp "'r stream_adapter"

text \<open>What a notification hands on: the value of the promise, or the call of the stream's callback.\<close>

datatype 'r notification =
    TimerValue "int status_or"
  | UnaryValue "'r status_or"
  | OnStart bool
  | OnRead bool 'r
  | OnFinish bool Status
  | OnDiscard bool 'r

definition AsyncTimerFuture_Notify :: "bool \<Rightarrow> AsyncTimerFuture \<Rightarrow> bool \<times> int status_or" where
  "AsyncTimerFuture_Notify ok t =
     (True, if \<not> ok then Inl (mk_Status kCancelled ''timer canceled'') else Inr (timer_deadline t))"

text \<open>\<^verbatim>\<open>Set\<close> stores the deadline and arms the alarm if there is one; the flag says whether it was armed.\<close>

definition AsyncTimerFuture_Set :: "int \<Rightarrow> AsyncTimerFuture \<Rightarrow> bool \<times> AsyncTimerFuture" where
  "AsyncTimerFuture_Set d t = (timer_alarm t, t\<lparr>timer_deadline := d\<rparr>)"

text \<open>\<^verbatim>\<open>Cancel\<close> forwards to the alarm, if any; the result says whether gRPC was asked to cancel.\<close>

definition AsyncTimerFuture_Cancel :: "AsyncTimerFuture \<Rightarrow> bool" where
  "AsyncTimerFuture_Cancel t = timer_alarm t"

definition AsyncUnaryRpcFuture_Start :: "'r AsyncUnaryRpcFuture \<Rightarrow> 'r AsyncUnaryRpcFuture" where
  "AsyncUnaryRpcFuture_Start op = op\<lparr>rpc_context := True\<rparr>"

definition AsyncUnaryRpcFuture_Cancel :: "'r AsyncUnaryRpcFuture \<Rightarrow> fault + bool" where
  "AsyncUnaryRpcFuture_Cancel op = (if rpc_context op then Inr True else Inl (UB NullDeref))"

definition grpc_Status_ok :: "grpc_Status \<Rightarrow> bool" where
  "grpc_Status_ok s \<longleftrightarrow> error_code s = GRPC_OK"

definition AsyncUnaryRpcFuture_Notify :: "bool \<Rightarrow> 'r AsyncUnaryRpcFuture \<Rightarrow> bool \<times> 'r status_or" where
  "AsyncUnaryRpcFuture_Notify ok op =
     (if \<not> ok then (True, Inl (mk_Status kCancelled ''call cancelled''))
      else if \<not> grpc_Status_ok (rpc_status op) then (True, Inl (MakeStatusFromRpcError (rpc_status op)))
      else (True, Inr (rpc_response op)))"

text \<open>
  The virtual function \<^verbatim>\<open>AsyncGrpcOperation::Notify\<close> of all of them: whether the operation is complete, and the value
  it gives to its promise or callback. What the promise does with the value, the continuations of the application and
  the exceptions they may throw out of \<^verbatim>\<open>Notify\<close> included, is \<open>notify_promise\<close> of \<open>Operation_Futures\<close>; what the
  callbacks do, \<open>Async_Retry\<close> and \<open>Read_Stream\<close>.
\<close>

fun Notify :: "bool \<Rightarrow> 'r AsyncGrpcOperation \<Rightarrow> bool \<times> 'r notification" where
  "Notify ok (TimerOp t) = map_prod id TimerValue (AsyncTimerFuture_Notify ok t)"
| "Notify ok (UnaryOp op) = map_prod id UnaryValue (AsyncUnaryRpcFuture_Notify ok op)"
| "Notify ok (StreamOp NotifyStart) = (True, OnStart ok)"
| "Notify ok (StreamOp (NotifyRead r)) = (True, OnRead ok r)"
| "Notify ok (StreamOp (NotifyFinish st)) = (True, OnFinish ok (MakeStatusFromRpcError st))"
| "Notify ok (StreamOp (NotifyDiscard r)) = (True, OnDiscard ok r)"

text \<open>The virtual function \<^verbatim>\<open>AsyncOperation::Cancel\<close>; the adapters of a stream ignore it.\<close>

fun Cancel :: "'r AsyncGrpcOperation \<Rightarrow> fault + bool" where
  "Cancel (TimerOp t) = Inr (AsyncTimerFuture_Cancel t)"
| "Cancel (UnaryOp op) = AsyncUnaryRpcFuture_Cancel op"
| "Cancel (StreamOp _) = Inr False"

section \<open>The implementation class\<close>

text \<open>The hash map of pending operations, in some order; keys are addresses.\<close>

record 'r CompletionQueueImpl =
  shutdown :: bool
  pending_ops :: "(nat \<times> 'r AsyncGrpcOperation) list"

definition mk_CompletionQueueImpl :: "'r CompletionQueueImpl" where
  "mk_CompletionQueueImpl = \<lparr>shutdown = False, pending_ops = []\<rparr>"

text \<open>
  \<^verbatim>\<open>StartOperation\<close>: one critical section, \<open>start\<close> being called inside it. On a queue that was shut
  down the operation is notified at once, outside the lock, and the notification is returned.
\<close>

definition StartOperation ::
  "bool \<Rightarrow> nat \<Rightarrow> 'r AsyncGrpcOperation \<Rightarrow> ('r AsyncGrpcOperation \<Rightarrow> 'r AsyncGrpcOperation)
    \<Rightarrow> 'r CompletionQueueImpl \<Rightarrow> (fault + 'r notification option) \<times> 'r CompletionQueueImpl" where
  "StartOperation have_ex tag op start q =
     (if shutdown q then (Inr (Some (snd (Notify False op))), q)
      else if map_of (pending_ops q) tag = None
      then (Inr None, q\<lparr>pending_ops := pending_ops q @ [(tag, start op)]\<rparr>)
      else (Inl (Abn (ThrowRuntimeError have_ex ''assertion failure: insertion should succeed'')), q))"

definition FindOperation :: "bool \<Rightarrow> nat \<Rightarrow> 'r CompletionQueueImpl \<Rightarrow> fault + 'r AsyncGrpcOperation" where
  "FindOperation have_ex tag q =
     (case map_of (pending_ops q) tag of
        None \<Rightarrow> Inl (Abn (ThrowRuntimeError have_ex ''assertion failure: searching for async op tag''))
      | Some op \<Rightarrow> Inr op)"

definition ForgetOperation :: "bool \<Rightarrow> nat \<Rightarrow> 'r CompletionQueueImpl \<Rightarrow> fault + 'r CompletionQueueImpl" where
  "ForgetOperation have_ex tag q =
     (if tag \<notin> fst ` set (pending_ops q)
      then Inl (Abn (ThrowRuntimeError have_ex
        ''assertion failure: searching for async op tag when trying to unregister''))
      else Inr (q\<lparr>pending_ops := filter (\<lambda>kv. fst kv \<noteq> tag) (pending_ops q)\<rparr>))"

text \<open>The critical section of \<^verbatim>\<open>Shutdown\<close>, before it shuts the gRPC queue down.\<close>

definition Shutdown_section :: "'r CompletionQueueImpl \<Rightarrow> 'r CompletionQueueImpl" where
  "Shutdown_section q = q\<lparr>shutdown := True\<rparr>"

text \<open>\<^verbatim>\<open>CancelAll\<close>: the tags whose cancellation gRPC is asked for.\<close>

fun cancel_each :: "(nat \<times> 'r AsyncGrpcOperation) list \<Rightarrow> fault + nat list" where
  "cancel_each [] = Inr []"
| "cancel_each ((tag, op) # kvs) =
     bindR (Cancel op) (\<lambda>asked. bindR (cancel_each kvs) (\<lambda>tags. Inr (if asked then tag # tags else tags)))"

definition CancelAll :: "'r CompletionQueueImpl \<Rightarrow> fault + nat list" where
  "CancelAll q = cancel_each (pending_ops q)"

definition cq_empty :: "'r CompletionQueueImpl \<Rightarrow> bool" where
  "cq_empty q \<longleftrightarrow> pending_ops q = []"

definition cq_size :: "'r CompletionQueueImpl \<Rightarrow> nat" where
  "cq_size q = length (pending_ops q)"

text \<open>
  The simulated completions of the unit tests: one operation, and all that are pending (after which
  the events of the gRPC queue are discarded). The notifications are returned in order.
\<close>

definition SimulateCompletion ::
  "bool \<Rightarrow> nat \<Rightarrow> bool \<Rightarrow> 'r CompletionQueueImpl \<Rightarrow> fault + 'r notification \<times> 'r CompletionQueueImpl" where
  "SimulateCompletion have_ex tag ok q =
     bindR (FindOperation have_ex tag q) (\<lambda>op.
     bindR (Cancel op) (\<lambda>_.
       let (done, n) = Notify ok op in
       if done then bindR (ForgetOperation have_ex tag q) (\<lambda>q'. Inr (n, q')) else Inr (n, q)))"

fun simulate_each ::
  "bool \<Rightarrow> nat list \<Rightarrow> bool \<Rightarrow> 'r CompletionQueueImpl \<Rightarrow> fault + 'r notification list \<times> 'r CompletionQueueImpl" where
  "simulate_each have_ex [] ok q = Inr ([], q)"
| "simulate_each have_ex (tag # tags) ok q =
     bindR (SimulateCompletion have_ex tag ok q) (\<lambda>(n, q1).
     bindR (simulate_each have_ex tags ok q1) (\<lambda>(ns, q2). Inr (n # ns, q2)))"

definition SimulateCompletion_all ::
  "bool \<Rightarrow> bool \<Rightarrow> 'r CompletionQueueImpl \<Rightarrow> fault + 'r notification list \<times> 'r CompletionQueueImpl" where
  "SimulateCompletion_all have_ex ok q = simulate_each have_ex (map fst (pending_ops q)) ok q"

section \<open>The interface class\<close>

text \<open>\<open>alarm\<close> says whether the virtual \<^verbatim>\<open>CreateAlarm\<close> returned an alarm: the base class always does.\<close>

definition CreateAlarm :: bool where
  "CreateAlarm = True"

definition set_deadline :: "int \<Rightarrow> 'r AsyncGrpcOperation \<Rightarrow> 'r AsyncGrpcOperation" where
  "set_deadline d op = (case op of TimerOp t \<Rightarrow> TimerOp (snd (AsyncTimerFuture_Set d t)) | _ \<Rightarrow> op)"

definition MakeDeadlineTimer ::
  "bool \<Rightarrow> nat \<Rightarrow> int \<Rightarrow> 'r CompletionQueueImpl \<Rightarrow> (fault + 'r notification option) \<times> 'r CompletionQueueImpl" where
  "MakeDeadlineTimer have_ex tag d q =
     StartOperation have_ex tag (TimerOp \<lparr>timer_deadline = 0, timer_alarm = CreateAlarm\<rparr>) (set_deadline d) q"

text \<open>
  The deadline of a relative timer is a sum in the 64-bit type of the clock. A sum outside its range
  (a deadline after the year 2262), which C++ leaves undefined, is taken as the wrapped value of the machine;
  the code only hands the deadline on to gRPC.
\<close>

definition clock_sum :: "int \<Rightarrow> int \<Rightarrow> int" where
  "clock_sum a b = (a + b + 2 ^ 63) mod 2 ^ 64 - 2 ^ 63"

lemma clock_sum_in_range [simp]: "in_int64 (a + b) \<Longrightarrow> clock_sum a b = a + b"
  by (simp add: clock_sum_def in_int64_def)

lemma in_int64_clock_sum: "in_int64 (clock_sum a b)"
  using pos_mod_bound [of "2 ^ 64 :: int" "a + b + 2 ^ 63"] pos_mod_sign [of "2 ^ 64 :: int" "a + b + 2 ^ 63"]
  by (simp add: clock_sum_def in_int64_def)

definition MakeRelativeTimer ::
  "bool \<Rightarrow> nat \<Rightarrow> int \<Rightarrow> int \<Rightarrow> 'r CompletionQueueImpl \<Rightarrow> (fault + 'r notification option) \<times> 'r CompletionQueueImpl" where
  "MakeRelativeTimer have_ex tag now duration q = MakeDeadlineTimer have_ex tag (clock_sum now duration) q"

definition start_call :: "'r AsyncGrpcOperation \<Rightarrow> 'r AsyncGrpcOperation" where
  "start_call op = (case op of UnaryOp u \<Rightarrow> UnaryOp (AsyncUnaryRpcFuture_Start u) | _ \<Rightarrow> op)"

text \<open>A new operation has an OK status and a default response until gRPC fills them.\<close>

definition MakeUnaryRpc ::
  "bool \<Rightarrow> nat \<Rightarrow> 'r \<Rightarrow> 'r CompletionQueueImpl \<Rightarrow> (fault + 'r notification option) \<times> 'r CompletionQueueImpl" where
  "MakeUnaryRpc have_ex tag default_response q =
     StartOperation have_ex tag
       (UnaryOp \<lparr>rpc_context = False, rpc_status = \<lparr>error_code = GRPC_OK, error_message = []\<rparr>,
                 rpc_response = default_response\<rparr>) start_call q"

text \<open>\<^verbatim>\<open>RunAsync\<close> starts a timer without delay; its continuation calls the functor whatever the timer says.\<close>

definition RunAsync ::
  "bool \<Rightarrow> nat \<Rightarrow> int \<Rightarrow> 'r CompletionQueueImpl \<Rightarrow> (fault + 'r notification option) \<times> 'r CompletionQueueImpl" where
  "RunAsync have_ex tag now q = MakeRelativeTimer have_ex tag now 0 q"

section \<open>Lemmas\<close>

text \<open>Every operation of the library is complete after one notification.\<close>

lemma Notify_done [simp]: "fst (Notify ok op) = True"
  by (cases "(ok, op)" rule: Notify.cases)
    (auto simp: AsyncTimerFuture_Notify_def AsyncUnaryRpcFuture_Notify_def)

lemma Notify_pair [simp]: "Notify ok op = (b, n) \<longleftrightarrow> b \<and> snd (Notify ok op) = n"
  using Notify_done [of ok op] by (cases "Notify ok op") auto

lemma MakeStatus_not_ok: "\<not> grpc_Status_ok st \<Longrightarrow> \<not> Status_ok (MakeStatusFromRpcError st)"
  by (cases "error_code st")
    (auto simp: grpc_Status_ok_def MakeStatusFromRpcError_def MakeStatusFromRpcError_code_def Status_ok_def mk_Status_def)

text \<open>The context of a pending RPC is set: \<^verbatim>\<open>StartOperation\<close> never stores an unstarted one.\<close>

fun op_started :: "'r AsyncGrpcOperation \<Rightarrow> bool" where
  "op_started (UnaryOp op) = rpc_context op"
| "op_started (TimerOp t) = timer_alarm t"
| "op_started (StreamOp _) = True"

definition cq_inv :: "'r CompletionQueueImpl \<Rightarrow> bool" where
  "cq_inv q \<longleftrightarrow> distinct (map fst (pending_ops q)) \<and> (\<forall>kv \<in> set (pending_ops q). op_started (snd kv))"

lemma cancel_each_ok:
  "\<forall>kv \<in> set kvs. op_started (snd kv) \<Longrightarrow>
     cancel_each kvs = Inr (map fst (filter (\<lambda>kv. \<not> (\<exists>s. snd kv = StreamOp s)) kvs))"
proof (induction kvs)
  case Nil
  then show ?case by simp
next
  case (Cons kv kvs)
  obtain tag op where kv: "kv = (tag, op)" by (cases kv)
  have "Cancel op = Inr (\<not> (\<exists>s. op = StreamOp s))" using Cons.prems kv
    by (cases op) (auto simp: AsyncTimerFuture_Cancel_def AsyncUnaryRpcFuture_Cancel_def)
  with Cons kv show ?case by simp
qed

lemma map_of_None_iff: "map_of xs k = None \<longleftrightarrow> k \<notin> fst ` set xs"
  by (simp add: map_of_eq_None_iff)

lemma filter_fst_Cons: "distinct (map fst ((k, v) # xs)) \<Longrightarrow> filter (\<lambda>kv. fst kv \<noteq> k) xs = xs"
  by (auto simp: filter_id_conv)

lemma simulate_each_ok:
  assumes "cq_inv q"
  shows "simulate_each have_ex (map fst (pending_ops q)) ok q =
     Inr (map (\<lambda>kv. snd (Notify ok (snd kv))) (pending_ops q), q\<lparr>pending_ops := []\<rparr>)"
  using assms
proof (induction "pending_ops q" arbitrary: q)
  case Nil
  then show ?case by (cases q) simp
next
  case (Cons kv kvs)
  obtain tag op where kv: "kv = (tag, op)" by (cases kv)
  note q = Cons.hyps(2) [symmetric, unfolded kv]
  let ?q = "q\<lparr>pending_ops := kvs\<rparr>"
  have inv: "cq_inv ?q" using Cons.prems q by (simp add: cq_inv_def)
  have "\<exists>asked. Cancel op = Inr asked"
    using Cons.prems q by (cases op) (auto simp: cq_inv_def AsyncUnaryRpcFuture_Cancel_def)
  moreover have "filter (\<lambda>kv. fst kv \<noteq> tag) kvs = kvs"
    using Cons.prems q by (intro filter_fst_Cons) (simp add: cq_inv_def)
  ultimately have "SimulateCompletion have_ex tag ok q = Inr (snd (Notify ok op), ?q)"
    by (auto simp: SimulateCompletion_def FindOperation_def ForgetOperation_def q split: prod.splits)
  moreover have "simulate_each have_ex (map fst kvs) ok ?q =
      Inr (map (\<lambda>kv. snd (Notify ok (snd kv))) kvs, q\<lparr>pending_ops := []\<rparr>)"
    using Cons.hyps(1) [of ?q] inv by simp
  ultimately show ?case unfolding q by simp
qed

text \<open>Lookups in the map of pending operations.\<close>

lemma map_of_snoc: "k \<notin> fst ` set xs \<Longrightarrow> map_of (xs @ [(k, v)]) k = Some v"
  by (induction xs) auto

lemma map_of_filter_other: "k \<noteq> t \<Longrightarrow> map_of (filter (\<lambda>kv. fst kv \<noteq> t) xs) k = map_of xs k"
  by (induction xs) auto

end
