(* ===== verification/Event_Loop.thy ===== *)
theory Event_Loop
  imports Completion_Queue
begin

text \<open>
  The event loop \<^verbatim>\<open>CompletionQueueImpl::Run\<close> in any number of threads, interleaved with application
  threads that start operations and shut the queue down, and with gRPC. A step is one critical
  section or one call of gRPC; an \<^verbatim>\<open>AsyncNext\<close> that times out changes nothing. gRPC is represented by what its documentation promises: an operation
  that was started completes once, \<^verbatim>\<open>AsyncNext\<close> returns every completion to one caller, and reports
  \<^verbatim>\<open>SHUTDOWN\<close> only after \<^verbatim>\<open>Shutdown\<close> and when no operation is left.
\<close>

section \<open>Threads and the system\<close>

datatype 'r run_thread =
    Polling
  | GotEvent nat bool
  | Notifying nat bool "'r AsyncGrpcOperation"
  | Forgetting nat
  | Stopped
  | Threw fault

record 'r system =
  sys_impl :: "'r CompletionQueueImpl"
  grpc_outstanding :: "nat set"
  grpc_ready :: "nat \<rightharpoonup> bool"
  grpc_down :: bool
  grpc_misused :: bool
  sys_shutting :: nat
  sys_threads :: "'r run_thread list"
  sys_started :: "nat list"
  sys_notified :: "(nat \<times> 'r notification) list"

definition system_init :: "nat \<Rightarrow> 'r system" where
  "system_init n = \<lparr>sys_impl = mk_CompletionQueueImpl, grpc_outstanding = {}, grpc_ready = Map.empty,
     grpc_down = False, grpc_misused = False, sys_shutting = 0, sys_threads = replicate n Polling,
     sys_started = [], sys_notified = []\<rparr>"

text \<open>The tag a thread of the loop is working on.\<close>

fun thread_tags :: "'r run_thread \<Rightarrow> nat list" where
  "thread_tags (GotEvent tag ok) = [tag]"
| "thread_tags (Notifying tag ok op) = [tag]"
| "thread_tags (Forgetting tag) = [tag]"
| "thread_tags _ = []"

definition busy_tags :: "'r run_thread list \<Rightarrow> nat list" where
  "busy_tags ths = concat (map thread_tags ths)"

section \<open>Steps\<close>

text \<open>The steps of the loop for an event: find the operation, notify it, forget it.\<close>

fun run_thread_step :: "bool \<Rightarrow> 'r run_thread \<Rightarrow> 'r system \<Rightarrow> ('r run_thread \<times> 'r system) option" where
  "run_thread_step have_ex (GotEvent tag ok) s =
     (case FindOperation have_ex tag (sys_impl s) of
        Inl e \<Rightarrow> Some (Threw e, s)
      | Inr op \<Rightarrow> Some (Notifying tag ok op, s))"
| "run_thread_step have_ex (Notifying tag ok op) s =
     (let (completed, n) = Notify ok op; s' = s\<lparr>sys_notified := sys_notified s @ [(tag, n)]\<rparr> in
      Some (if completed then Forgetting tag else Polling, s'))"
| "run_thread_step have_ex (Forgetting tag) s =
     (case ForgetOperation have_ex tag (sys_impl s) of
        Inl e \<Rightarrow> Some (Threw e, s)
      | Inr q \<Rightarrow> Some (Polling, s\<lparr>sys_impl := q\<rparr>))"
| "run_thread_step have_ex _ s = None"

text \<open>
  An application thread starts an operation whose object is new: no live object has its address.
  Starting it while the gRPC queue is down would be a misuse of gRPC. On a queue that was shut down
  \<^verbatim>\<open>StartOperation\<close> leaves its critical section before it calls \<^verbatim>\<open>Notify(false)\<close>; both are one step here, since
  the operation is not in the map, no thread but the caller has a pointer to it until \<^verbatim>\<open>Notify\<close> returns, and the
  call changes neither the queue nor gRPC, so it commutes with all steps of other threads.
\<close>

definition start_step ::
  "bool \<Rightarrow> nat \<Rightarrow> 'r AsyncGrpcOperation \<Rightarrow> ('r AsyncGrpcOperation \<Rightarrow> 'r AsyncGrpcOperation) \<Rightarrow> 'r system
    \<Rightarrow> fault + 'r system" where
  "start_step have_ex tag op start s =
     (case StartOperation have_ex tag op start (sys_impl s) of
        (Inl e, q) \<Rightarrow> Inl e
      | (Inr (Some n), q) \<Rightarrow>
          Inr (s\<lparr>sys_impl := q, sys_started := sys_started s @ [tag], sys_notified := sys_notified s @ [(tag, n)]\<rparr>)
      | (Inr None, q) \<Rightarrow>
          Inr (s\<lparr>sys_impl := q, sys_started := sys_started s @ [tag],
                 grpc_outstanding := insert tag (grpc_outstanding s),
                 grpc_misused := (grpc_misused s \<or> grpc_down s)\<rparr>))"

text \<open>gRPC writes the status and the response of an operation before it reports it.\<close>

definition write_result ::
  "nat \<Rightarrow> ('r AsyncGrpcOperation \<Rightarrow> 'r AsyncGrpcOperation) \<Rightarrow> 'r CompletionQueueImpl \<Rightarrow> 'r CompletionQueueImpl" where
  "write_result tag f q =
     q\<lparr>pending_ops := map (\<lambda>(k, op). (k, if k = tag then f op else op)) (pending_ops q)\<rparr>"

inductive step :: "bool \<Rightarrow> 'r system \<Rightarrow> 'r system \<Rightarrow> bool" for have_ex where
  poll_event: "i < length (sys_threads s) \<Longrightarrow> sys_threads s ! i = Polling \<Longrightarrow> grpc_ready s tag = Some ok \<Longrightarrow>
    step have_ex s (s\<lparr>grpc_ready := (grpc_ready s)(tag := None), sys_threads := (sys_threads s)[i := GotEvent tag ok]\<rparr>)"
| poll_shutdown: "i < length (sys_threads s) \<Longrightarrow> sys_threads s ! i = Polling \<Longrightarrow> grpc_down s \<Longrightarrow>
    grpc_outstanding s = {} \<Longrightarrow> grpc_ready s = Map.empty \<Longrightarrow>
    step have_ex s (s\<lparr>sys_threads := (sys_threads s)[i := Stopped]\<rparr>)"
| handle: "i < length (sys_threads s) \<Longrightarrow> run_thread_step have_ex (sys_threads s ! i) s = Some (th, s') \<Longrightarrow>
    step have_ex s (s'\<lparr>sys_threads := (sys_threads s)[i := th]\<rparr>)"
| start: "tag \<notin> fst ` set (pending_ops (sys_impl s)) \<Longrightarrow> op_started (st op) \<Longrightarrow>
    start_step have_ex tag op st s = Inr s' \<Longrightarrow> step have_ex s s'"
| shutdown_flag: "step have_ex s (s\<lparr>sys_impl := Shutdown_section (sys_impl s), sys_shutting := Suc (sys_shutting s)\<rparr>)"
| shutdown_grpc: "0 < sys_shutting s \<Longrightarrow> step have_ex s (s\<lparr>grpc_down := True\<rparr>)"
| complete: "tag \<in> grpc_outstanding s \<Longrightarrow> (\<And>op. op_started op \<Longrightarrow> op_started (f op)) \<Longrightarrow>
    step have_ex s (s\<lparr>grpc_outstanding := grpc_outstanding s - {tag}, grpc_ready := (grpc_ready s)(tag \<mapsto> ok),
      sys_impl := write_result tag f (sys_impl s)\<rparr>)"

section \<open>Steps without the application\<close>

text \<open>A step of the threads of the loop or of gRPC: nobody starts an operation or shuts the queue down.\<close>

definition quiet_step :: "bool \<Rightarrow> 'r system \<Rightarrow> 'r system \<Rightarrow> bool" where
  "quiet_step have_ex s s' \<longleftrightarrow> step have_ex s s' \<and> sys_started s' = sys_started s \<and>
     sys_shutting s' = sys_shutting s \<and> grpc_down s' = grpc_down s"

section \<open>Invariant\<close>

text \<open>The tag of a thread whose operation is still to be notified.\<close>

fun unnotified_tags :: "'r run_thread \<Rightarrow> nat list" where
  "unnotified_tags (GotEvent tag ok) = [tag]"
| "unnotified_tags (Notifying tag ok op) = [tag]"
| "unnotified_tags _ = []"

definition unnotified :: "'r system \<Rightarrow> nat set" where
  "unnotified s = grpc_outstanding s \<union> dom (grpc_ready s) \<union> set (concat (map unnotified_tags (sys_threads s)))"

definition tags_ok :: "nat set \<Rightarrow> nat set \<Rightarrow> nat set \<Rightarrow> 'r run_thread list \<Rightarrow> bool" where
  "tags_ok P out rdy ths \<longleftrightarrow>
     P = out \<union> rdy \<union> set (busy_tags ths) \<and> out \<inter> rdy = {} \<and> out \<inter> set (busy_tags ths) = {} \<and>
     rdy \<inter> set (busy_tags ths) = {} \<and> distinct (busy_tags ths)"

definition sys_inv :: "'r system \<Rightarrow> bool" where
  "sys_inv s \<longleftrightarrow> cq_inv (sys_impl s) \<and>
     tags_ok (fst ` set (pending_ops (sys_impl s))) (grpc_outstanding s) (dom (grpc_ready s)) (sys_threads s) \<and>
     (\<forall>e. Threw e \<notin> set (sys_threads s)) \<and> (0 < sys_shutting s \<or> grpc_down s \<longrightarrow> shutdown (sys_impl s)) \<and>
     \<not> grpc_misused s \<and>
     (Stopped \<in> set (sys_threads s) \<longrightarrow> grpc_down s \<and> grpc_outstanding s = {} \<and> grpc_ready s = Map.empty)"

definition balanced :: "'r system \<Rightarrow> bool" where
  "balanced s \<longleftrightarrow> (\<forall>tag. count_list (sys_started s) tag =
     count_list (map fst (sys_notified s)) tag + (if tag \<in> unnotified s then 1 else 0))"

lemma unnotified_subset_thread: "set (unnotified_tags th) \<subseteq> set (thread_tags th)"
  by (cases th) auto

lemma busy_tags_append [simp]: "busy_tags (xs @ ys) = busy_tags xs @ busy_tags ys"
  by (simp add: busy_tags_def)

lemma busy_tags_Cons [simp]: "busy_tags (x # xs) = thread_tags x @ busy_tags xs"
  by (simp add: busy_tags_def)

lemma busy_tags_Nil [simp]: "busy_tags [] = []"
  by (simp add: busy_tags_def)

lemma unnotified_subset: "set (concat (map unnotified_tags ths)) \<subseteq> set (busy_tags ths)"
  using unnotified_subset_thread by (fastforce simp: busy_tags_def)

lemma thread_split:
  assumes "i < length ths"
  obtains xs ys where "ths = xs @ ths ! i # ys" "\<And>th. ths[i := th] = xs @ th # ys"
  using assms id_take_nth_drop [OF assms] upd_conv_take_nth_drop [OF assms] that by metis

lemma busy_pending:
  assumes "sys_inv s" "i < length (sys_threads s)" "tag \<in> set (thread_tags (sys_threads s ! i))"
  shows "tag \<in> fst ` set (pending_ops (sys_impl s))"
proof -
  have "sys_threads s ! i \<in> set (sys_threads s)" using assms(2) by simp
  with assms(3) have "tag \<in> set (busy_tags (sys_threads s))" by (auto simp: busy_tags_def)
  with assms(1) show ?thesis by (simp add: sys_inv_def tags_ok_def)
qed

section \<open>The steps of a thread\<close>

lemma inv_init: "sys_inv (system_init n)" "balanced (system_init n)"
proof -
  have "busy_tags (replicate n Polling :: 'r run_thread list) = []" by (induction n) auto
  then show "sys_inv (system_init n)"
    by (auto simp: sys_inv_def system_init_def mk_CompletionQueueImpl_def cq_inv_def tags_ok_def)
  show "balanced (system_init n)"
    by (simp add: balanced_def system_init_def unnotified_def)
qed

lemma inv_poll_event:
  assumes "sys_inv s" "balanced s" "i < length (sys_threads s)" "sys_threads s ! i = Polling" "grpc_ready s tag = Some ok"
  defines "s' \<equiv> s\<lparr>grpc_ready := (grpc_ready s)(tag := None), sys_threads := (sys_threads s)[i := GotEvent tag ok]\<rparr>"
  shows "sys_inv s' \<and> balanced s'"
proof -
  obtain xs ys where ths: "sys_threads s = xs @ Polling # ys" "(sys_threads s)[i := GotEvent tag ok] = xs @ GotEvent tag ok # ys"
    using thread_split [OF assms(3)] assms(4) by metis
  have tag: "tag \<in> dom (grpc_ready s)" using assms(5) by blast
  note s' = s'_def [unfolded ths(2)]
  have "unnotified s' = unnotified s" using tag by (auto simp: unnotified_def s' ths(1))
  with assms(2) have "balanced s'" by (simp add: balanced_def s'_def)
  moreover have "sys_inv s'"
    using assms(1) tag by (auto simp: sys_inv_def tags_ok_def s' ths(1))
  ultimately show ?thesis by simp
qed

lemma inv_poll_shutdown:
  assumes "sys_inv s" "balanced s" "i < length (sys_threads s)" "sys_threads s ! i = Polling" "grpc_down s"
    "grpc_outstanding s = {}" "grpc_ready s = Map.empty"
  shows "sys_inv (s\<lparr>sys_threads := (sys_threads s)[i := Stopped]\<rparr>) \<and> balanced (s\<lparr>sys_threads := (sys_threads s)[i := Stopped]\<rparr>)"
proof -
  obtain xs ys where "sys_threads s = xs @ Polling # ys" "(sys_threads s)[i := Stopped] = xs @ Stopped # ys"
    using thread_split [OF assms(3)] assms(4) by metis
  with assms show ?thesis by (auto simp: sys_inv_def tags_ok_def balanced_def unnotified_def)
qed

lemma inv_find:
  assumes "sys_inv s" "balanced s" "i < length (sys_threads s)" "sys_threads s ! i = GotEvent tag ok"
    "FindOperation he tag (sys_impl s) = Inr op"
  shows "sys_inv (s\<lparr>sys_threads := (sys_threads s)[i := Notifying tag ok op]\<rparr>) \<and>
    balanced (s\<lparr>sys_threads := (sys_threads s)[i := Notifying tag ok op]\<rparr>)"
proof -
  obtain xs ys where "sys_threads s = xs @ GotEvent tag ok # ys"
    "(sys_threads s)[i := Notifying tag ok op] = xs @ Notifying tag ok op # ys"
    using thread_split [OF assms(3)] assms(4) by metis
  with assms show ?thesis by (auto simp: sys_inv_def tags_ok_def balanced_def unnotified_def)
qed

lemma inv_notify:
  fixes n :: "'r notification"
  assumes "sys_inv s" "balanced s" "i < length (sys_threads s)" "sys_threads s ! i = Notifying tag ok op"
  defines "s' \<equiv> s\<lparr>sys_notified := sys_notified s @ [(tag, n)], sys_threads := (sys_threads s)[i := Forgetting tag]\<rparr>"
  shows "sys_inv s' \<and> balanced s'"
proof -
  obtain xs ys where ths: "sys_threads s = xs @ Notifying tag ok op # ys"
    "(sys_threads s)[i := Forgetting tag] = xs @ Forgetting tag # ys"
    using thread_split [OF assms(3)] assms(4) by metis
  note s' = s'_def [unfolded ths(2)]
  have inv: "sys_inv s'" using assms(1) by (auto simp: sys_inv_def tags_ok_def s' ths(1))
  have "tag \<notin> set (busy_tags xs) \<union> set (busy_tags ys)" "tag \<notin> grpc_outstanding s" "tag \<notin> dom (grpc_ready s)"
    using assms(1) by (auto simp: sys_inv_def tags_ok_def ths(1))
  then have "unnotified s' = unnotified s - {tag}" "tag \<in> unnotified s"
    using unnotified_subset [of xs] unnotified_subset [of ys] by (auto simp: unnotified_def s' ths(1))
  with assms(2) have "balanced s'" by (simp add: balanced_def s')
  with inv show ?thesis by simp
qed

lemma inv_forget:
  assumes "sys_inv s" "balanced s" "i < length (sys_threads s)" "sys_threads s ! i = Forgetting tag"
    "ForgetOperation he tag (sys_impl s) = Inr q"
  defines "s' \<equiv> s\<lparr>sys_impl := q, sys_threads := (sys_threads s)[i := Polling]\<rparr>"
  shows "sys_inv s' \<and> balanced s'"
proof -
  obtain xs ys where ths: "sys_threads s = xs @ Forgetting tag # ys" "(sys_threads s)[i := Polling] = xs @ Polling # ys"
    using thread_split [OF assms(3)] assms(4) by metis
  note s' = s'_def [unfolded ths(2)]
  have q: "q = (sys_impl s)\<lparr>pending_ops := filter (\<lambda>kv. fst kv \<noteq> tag) (pending_ops (sys_impl s))\<rparr>"
    using assms(5) by (simp add: ForgetOperation_def split: if_splits)
  have "fst ` set (pending_ops q) = fst ` set (pending_ops (sys_impl s)) - {tag}" by (auto simp: q)
  moreover have "cq_inv q" using assms(1) by (auto simp: q sys_inv_def cq_inv_def distinct_map inj_on_def)
  moreover have "shutdown q = shutdown (sys_impl s)" by (simp add: q)
  ultimately have "sys_inv s'" using assms(1) by (auto simp: sys_inv_def tags_ok_def s' ths(1))
  moreover have "unnotified s' = unnotified s" by (simp add: unnotified_def s' ths(1))
  ultimately show ?thesis using assms(2) by (simp add: balanced_def s'_def)
qed

lemma inv_handle:
  assumes "sys_inv s" "balanced s" "i < length (sys_threads s)"
    "run_thread_step he (sys_threads s ! i) s = Some (th, s')"
  shows "sys_inv (s'\<lparr>sys_threads := (sys_threads s)[i := th]\<rparr>) \<and> balanced (s'\<lparr>sys_threads := (sys_threads s)[i := th]\<rparr>)"
proof (cases "sys_threads s ! i")
  case (GotEvent tag ok)
  have "tag \<in> fst ` set (pending_ops (sys_impl s))" using busy_pending [OF assms(1,3), of tag] GotEvent by simp
  then obtain op where "FindOperation he tag (sys_impl s) = Inr op"
    by (cases "map_of (pending_ops (sys_impl s)) tag") (auto simp: FindOperation_def map_of_None_iff)
  with inv_find [OF assms(1-3) GotEvent this] assms(4) GotEvent show ?thesis by auto
next
  case (Notifying tag ok op)
  with inv_notify [OF assms(1-3) Notifying] assms(4) show ?thesis by (auto split: prod.splits)
next
  case (Forgetting tag)
  have "tag \<in> fst ` set (pending_ops (sys_impl s))" using busy_pending [OF assms(1,3), of tag] Forgetting by simp
  then obtain q where "ForgetOperation he tag (sys_impl s) = Inr q" by (auto simp: ForgetOperation_def)
  with inv_forget [OF assms(1-3) Forgetting this] assms(4) Forgetting show ?thesis by auto
qed (use assms(4) in auto)

section \<open>The steps of applications and of gRPC\<close>

lemma inv_start:
  assumes "sys_inv s" "balanced s" "tag \<notin> fst ` set (pending_ops (sys_impl s))" "op_started (st op)"
    "start_step he tag op st s = Inr s'"
  shows "sys_inv s' \<and> balanced s'"
proof (cases "shutdown (sys_impl s)")
  case True
  let ?n = "snd (Notify False op)"
  have s': "s' = s\<lparr>sys_started := sys_started s @ [tag], sys_notified := sys_notified s @ [(tag, ?n)]\<rparr>"
    using assms(5) True by (simp add: start_step_def StartOperation_def)
  have "unnotified s' = unnotified s" by (simp add: unnotified_def s')
  with assms(1,2) show ?thesis by (simp add: sys_inv_def balanced_def s')
next
  case False
  let ?q = "(sys_impl s)\<lparr>pending_ops := pending_ops (sys_impl s) @ [(tag, st op)]\<rparr>"
  have down: "\<not> grpc_down s" "Stopped \<notin> set (sys_threads s)" using assms(1) False by (auto simp: sys_inv_def)
  have s': "s' = s\<lparr>sys_impl := ?q, sys_started := sys_started s @ [tag],
      grpc_outstanding := insert tag (grpc_outstanding s), grpc_misused := False\<rparr>"
    using assms(1,3,5) False down by (simp add: start_step_def StartOperation_def map_of_None_iff sys_inv_def
        eq_commute [of _ s'])
  have new: "tag \<notin> grpc_outstanding s" "tag \<notin> dom (grpc_ready s)" "tag \<notin> set (busy_tags (sys_threads s))"
    using assms(1,3) by (auto simp: sys_inv_def tags_ok_def)
  have "sys_inv s'"
    using assms(1,3,4) down new by (auto simp: sys_inv_def cq_inv_def tags_ok_def s')
  moreover have "unnotified s' = insert tag (unnotified s)" "tag \<notin> unnotified s"
    using new unnotified_subset [of "sys_threads s"] by (auto simp: unnotified_def s')
  ultimately show ?thesis using assms(2) by (simp add: balanced_def s')
qed

lemma write_result_tags [simp]: "map fst (pending_ops (write_result tag f q)) = map fst (pending_ops q)"
  by (simp add: write_result_def comp_def case_prod_unfold)

lemma write_result_keys [simp]: "fst ` set (pending_ops (write_result tag f q)) = fst ` set (pending_ops q)"
  using arg_cong [OF write_result_tags [of tag f q], of set] by (simp only: set_map)

lemma write_result_inv:
  "cq_inv q \<Longrightarrow> (\<And>op. op_started op \<Longrightarrow> op_started (f op)) \<Longrightarrow> cq_inv (write_result tag f q)"
  unfolding cq_inv_def write_result_tags by (auto simp: write_result_def)

lemma inv_complete:
  fixes ok :: bool
  assumes "sys_inv s" "balanced s" "tag \<in> grpc_outstanding s" "\<And>op. op_started op \<Longrightarrow> op_started (f op)"
  defines "s' \<equiv> s\<lparr>grpc_outstanding := grpc_outstanding s - {tag}, grpc_ready := (grpc_ready s)(tag \<mapsto> ok),
      sys_impl := write_result tag f (sys_impl s)\<rparr>"
  shows "sys_inv s' \<and> balanced s'"
proof -
  have "shutdown (write_result tag f (sys_impl s)) = shutdown (sys_impl s)" by (simp add: write_result_def)
  then have "sys_inv s'"
    using assms(1,3,4) write_result_inv [of "sys_impl s" f tag] by (auto simp: sys_inv_def tags_ok_def s'_def)
  moreover have "unnotified s' = unnotified s" using assms(3) by (auto simp: unnotified_def s'_def)
  ultimately show ?thesis using assms(2) by (simp add: balanced_def s'_def)
qed

lemma step_inv: "step he s s' \<Longrightarrow> sys_inv s \<Longrightarrow> balanced s \<Longrightarrow> sys_inv s' \<and> balanced s'"
proof (induction rule: step.induct)
  case (shutdown_flag s)
  then show ?case by (simp add: sys_inv_def balanced_def unnotified_def Shutdown_section_def cq_inv_def)
next
  case (shutdown_grpc s)
  then show ?case by (simp add: sys_inv_def balanced_def unnotified_def)
next
  case (poll_event i s tag ok)
  then show ?case by (intro inv_poll_event)
next
  case (poll_shutdown i s)
  then show ?case by (intro inv_poll_shutdown)
next
  case (handle i s th s')
  then show ?case by (intro inv_handle)
next
  case (start tag s st op s')
  then show ?case by (intro inv_start)
next
  case (complete tag s f ok)
  then show ?case by (intro inv_complete)
qed

lemma steps_inv: "(step he)\<^sup>*\<^sup>* s s' \<Longrightarrow> sys_inv s \<Longrightarrow> balanced s \<Longrightarrow> sys_inv s' \<and> balanced s'"
  by (induction rule: rtranclp_induct) (use step_inv in blast)+

lemma reachable_inv: "(step he)\<^sup>*\<^sup>* (system_init n) s \<Longrightarrow> sys_inv s" "(step he)\<^sup>*\<^sup>* (system_init n) s \<Longrightarrow> balanced s"
  using steps_inv [OF _ inv_init] by blast+

section \<open>Progress\<close>

fun thread_weight :: "'r run_thread \<Rightarrow> nat" where
  "thread_weight Polling = 1"
| "thread_weight (GotEvent tag ok) = 4"
| "thread_weight (Notifying tag ok op) = 3"
| "thread_weight (Forgetting tag) = 2"
| "thread_weight _ = 0"

definition weight :: "'r system \<Rightarrow> nat" where
  "weight s = 5 * card (grpc_outstanding s) + 4 * card (dom (grpc_ready s)) + sum_list (map thread_weight (sys_threads s))"

lemma finite_tags: "sys_inv s \<Longrightarrow> finite (grpc_outstanding s)" "sys_inv s \<Longrightarrow> finite (dom (grpc_ready s))"
proof -
  assume "sys_inv s"
  then have "grpc_outstanding s \<union> dom (grpc_ready s) \<subseteq> fst ` set (pending_ops (sys_impl s))"
    by (auto simp: sys_inv_def tags_ok_def)
  then have "finite (grpc_outstanding s \<union> dom (grpc_ready s))" by (rule finite_subset) simp
  then show "finite (grpc_outstanding s)" "finite (dom (grpc_ready s))" by simp_all
qed

lemma thread_weight_update:
  "i < length ths \<Longrightarrow>
     sum_list (map thread_weight (ths[i := th])) + thread_weight (ths ! i) =
     sum_list (map thread_weight ths) + thread_weight th"
proof -
  assume i: "i < length ths"
  obtain xs ys where s: "ths = xs @ ths ! i # ys" "ths[i := th] = xs @ th # ys" using thread_split [OF i] by metis
  from arg_cong [OF s(1), of "\<lambda>xs. sum_list (map thread_weight xs)"] show ?thesis by (simp add: s(2))
qed

lemma weight_poll_event:
  assumes "sys_inv s" "i < length (sys_threads s)" "sys_threads s ! i = Polling" "grpc_ready s tag = Some ok"
  shows "weight (s\<lparr>grpc_ready := (grpc_ready s)(tag := None), sys_threads := (sys_threads s)[i := GotEvent tag ok]\<rparr>) < weight s"
proof -
  have "tag \<in> dom (grpc_ready s)" using assms(4) by blast
  then have "card (dom (grpc_ready s)) = Suc (card (dom (grpc_ready s) - {tag}))"
    using card_Suc_Diff1 [OF finite_tags(2) [OF assms(1)]] by simp
  then show ?thesis
    using thread_weight_update [OF assms(2), of "GotEvent tag ok"] assms(3) by (simp add: weight_def)
qed

lemma weight_complete:
  assumes "sys_inv s" "tag \<in> grpc_outstanding s"
  shows "weight (s\<lparr>grpc_outstanding := grpc_outstanding s - {tag}, grpc_ready := (grpc_ready s)(tag \<mapsto> ok), sys_impl := q\<rparr>)
    < weight s"
proof -
  have "tag \<notin> dom (grpc_ready s)" using assms by (auto simp: sys_inv_def tags_ok_def)
  moreover have "card (grpc_outstanding s) = Suc (card (grpc_outstanding s - {tag}))"
    using card_Suc_Diff1 [OF finite_tags(1) [OF assms(1)] assms(2)] by simp
  ultimately show ?thesis using finite_tags(2) [OF assms(1)] by (simp add: weight_def)
qed

lemma run_thread_step_frame:
  "run_thread_step he th s = Some (th', s') \<Longrightarrow>
     grpc_outstanding s' = grpc_outstanding s \<and> grpc_ready s' = grpc_ready s \<and> thread_weight th' < thread_weight th \<and>
     sys_started s' = sys_started s \<and> sys_shutting s' = sys_shutting s \<and> grpc_down s' = grpc_down s"
  by (cases th) (auto split: sum.splits prod.splits if_splits)

lemma weight_handle:
  assumes "i < length (sys_threads s)" "run_thread_step he (sys_threads s ! i) s = Some (th, s')"
  shows "weight (s'\<lparr>sys_threads := (sys_threads s)[i := th]\<rparr>) < weight s"
  using run_thread_step_frame [OF assms(2)] thread_weight_update [OF assms(1), of th] by (simp add: weight_def)

text \<open>Once the flag is set no step of any thread adds work.\<close>

lemma step_weight: "step he s s' \<Longrightarrow> sys_inv s \<Longrightarrow> shutdown (sys_impl s) \<Longrightarrow> weight s' \<le> weight s"
proof (induction rule: step.induct)
  case (poll_event i s tag ok)
  then show ?case by (intro less_imp_le weight_poll_event)
next
  case (poll_shutdown i s)
  then show ?case using thread_weight_update [of i "sys_threads s" Stopped] by (simp add: weight_def)
next
  case (handle i s th s')
  then show ?case by (intro less_imp_le weight_handle)
next
  case (start tag s op st s')
  then show ?case by (auto simp: start_step_def StartOperation_def weight_def)
next
  case (complete tag s f ok)
  then show ?case by (intro less_imp_le weight_complete)
qed (simp_all add: weight_def)

lemma busy_can_step:
  assumes "thread_tags th \<noteq> []"
  shows "\<exists>th' s'. run_thread_step he th s = Some (th', s')"
  using assms by (cases th) (auto split: sum.splits prod.splits)

lemma progress:
  assumes "sys_inv s" "grpc_down s" "\<not> set (sys_threads s) \<subseteq> {Stopped}"
  shows "\<exists>s'. quiet_step he s s' \<and> weight s' < weight s"
proof -
  obtain i where i: "i < length (sys_threads s)" "sys_threads s ! i \<noteq> Stopped"
    using assms(3) by (auto simp: set_conv_nth)
  show ?thesis
  proof (cases "thread_tags (sys_threads s ! i) = []")
    case False
    then obtain th s' where "run_thread_step he (sys_threads s ! i) s = Some (th, s')"
      using busy_can_step by blast
    then have "quiet_step he s (s'\<lparr>sys_threads := (sys_threads s)[i := th]\<rparr>)"
      using step.handle [OF i(1)] run_thread_step_frame by (fastforce simp: quiet_step_def)
    with weight_handle [OF i(1)] \<open>run_thread_step he (sys_threads s ! i) s = Some (th, s')\<close> show ?thesis by blast
  next
    case True
    have "sys_threads s ! i \<in> set (sys_threads s)" using i(1) by simp
    with True i(2) assms(1) have pol: "sys_threads s ! i = Polling"
      by (cases "sys_threads s ! i") (auto simp: sys_inv_def)
    consider tag where "tag \<in> grpc_outstanding s" | tag ok where "grpc_ready s tag = Some ok"
      | "grpc_outstanding s = {}" "grpc_ready s = Map.empty" by (cases "grpc_ready s = Map.empty") (auto simp: fun_eq_iff)
    then show ?thesis
    proof cases
      case 1
      let ?s = "s\<lparr>grpc_outstanding := grpc_outstanding s - {tag}, grpc_ready := (grpc_ready s)(tag \<mapsto> False),
        sys_impl := write_result tag (\<lambda>op. op) (sys_impl s)\<rparr>"
      have "quiet_step he s ?s" using step.complete [OF 1, where f = "\<lambda>op. op" and ok = False] by (simp add: quiet_step_def)
      with weight_complete [OF assms(1) 1] show ?thesis by blast
    next
      case 2
      let ?s = "s\<lparr>grpc_ready := (grpc_ready s)(tag := None), sys_threads := (sys_threads s)[i := GotEvent tag ok]\<rparr>"
      have "quiet_step he s ?s" using step.poll_event [OF i(1) pol 2] by (simp add: quiet_step_def)
      with weight_poll_event [OF assms(1) i(1) pol 2] show ?thesis by blast
    next
      case 3
      have "weight (s\<lparr>sys_threads := (sys_threads s)[i := Stopped]\<rparr>) < weight s"
        using thread_weight_update [OF i(1), of Stopped] pol by (simp add: weight_def)
      moreover have "quiet_step he s (s\<lparr>sys_threads := (sys_threads s)[i := Stopped]\<rparr>)"
        using step.poll_shutdown [OF i(1) pol assms(2) 3] by (simp add: quiet_step_def)
      ultimately show ?thesis by blast
    qed
  qed
qed

text \<open>The end of a shutdown.\<close>

lemma threads_length: "(step he)\<^sup>*\<^sup>* (system_init n) s \<Longrightarrow> length (sys_threads s) = n"
proof (induction rule: rtranclp_induct)
  case base
  then show ?case by (simp add: system_init_def)
next
  case (step s s')
  from step(2,3) show ?case by cases (auto simp: start_step_def split: prod.splits sum.splits option.splits)
qed

lemma stopped_end:
  assumes "sys_inv s" "balanced s" "set (sys_threads s) = {Stopped}"
  shows "pending_ops (sys_impl s) = [] \<and>
    (\<forall>tag. count_list (sys_started s) tag = count_list (map fst (sys_notified s)) tag)"
proof -
  have "busy_tags (sys_threads s) = []" "concat (map unnotified_tags (sys_threads s)) = []"
    using assms(3) by (auto simp: busy_tags_def)
  moreover have "grpc_outstanding s = {}" "grpc_ready s = Map.empty" using assms(1,3) by (simp_all add: sys_inv_def)
  ultimately have "fst ` set (pending_ops (sys_impl s)) = {}" "unnotified s = {}"
    using assms(1) by (simp_all add: sys_inv_def tags_ok_def unnotified_def)
  with assms(2) show ?thesis by (simp add: balanced_def)
qed

section \<open>Properties\<close>

text \<open>
  C10: however the threads of the event loop, the threads that start operations and shut the queue
  down, and gRPC are interleaved: no internal assertion fails, every started operation is notified
  at most once, exactly those not yet notified are still in flight, gRPC is never given an operation
  after it was shut down, and \<^verbatim>\<open>CancelAll\<close> can always be called, reaching every pending timer and RPC.
\<close>

theorem event_loop_safety:
  assumes "(step he)\<^sup>*\<^sup>* (system_init n) s"
  shows "(\<forall>e. Threw e \<notin> set (sys_threads s)) \<and> \<not> grpc_misused s \<and>
     (\<forall>tag. count_list (sys_started s) tag =
        count_list (map fst (sys_notified s)) tag + (if tag \<in> unnotified s then 1 else 0)) \<and>
     unnotified s \<subseteq> fst ` set (pending_ops (sys_impl s)) \<and>
     CancelAll (sys_impl s) =
       Inr (map fst (filter (\<lambda>kv. \<not> (\<exists>a. snd kv = StreamOp a)) (pending_ops (sys_impl s))))"
proof -
  have inv: "sys_inv s" and "balanced s" using reachable_inv [OF assms] by blast+
  then have 1: "\<forall>tag. count_list (sys_started s) tag =
        count_list (map fst (sys_notified s)) tag + (if tag \<in> unnotified s then 1 else 0)"
    by (simp add: balanced_def)
  have 2: "unnotified s \<subseteq> fst ` set (pending_ops (sys_impl s))"
    using inv unnotified_subset [of "sys_threads s"] by (auto simp: sys_inv_def tags_ok_def unnotified_def)
  have 3: "CancelAll (sys_impl s) =
       Inr (map fst (filter (\<lambda>kv. \<not> (\<exists>a. snd kv = StreamOp a)) (pending_ops (sys_impl s))))"
    unfolding CancelAll_def using inv by (intro cancel_each_ok) (simp add: sys_inv_def cq_inv_def)
  from inv 1 2 3 show ?thesis by (simp add: sys_inv_def)
qed

text \<open>A queue with one thread and a timer, and the same queue when it is being shut down.\<close>

definition example_timer :: "int AsyncGrpcOperation" where
  "example_timer = TimerOp \<lparr>timer_deadline = 0, timer_alarm = True\<rparr>"

definition example_started :: "int system" where
  "example_started = (system_init 1)\<lparr>sys_impl := \<lparr>shutdown = False, pending_ops = [(42, set_deadline 5 example_timer)]\<rparr>,
     sys_started := [42], grpc_outstanding := {42}\<rparr>"

definition example_down :: "int system" where
  "example_down = example_started\<lparr>sys_impl := Shutdown_section (sys_impl example_started), sys_shutting := 1, grpc_down := True\<rparr>"

lemma example_started_reachable: "(step True)\<^sup>*\<^sup>* (system_init 1) example_started"
proof (rule r_into_rtranclp)
  have "start_step True 42 example_timer (set_deadline 5) (system_init 1) = Inr example_started"
    by (simp add: start_step_def StartOperation_def system_init_def mk_CompletionQueueImpl_def example_started_def)
  then show "step True (system_init 1) example_started"
    by (rule step.start [rotated 2])
      (simp_all add: system_init_def mk_CompletionQueueImpl_def set_deadline_def example_timer_def AsyncTimerFuture_Set_def)
qed

lemma example_down_reachable: "(step True)\<^sup>*\<^sup>* (system_init 1) example_down"
proof -
  let ?s = "example_started\<lparr>sys_impl := Shutdown_section (sys_impl example_started), sys_shutting := 1\<rparr>"
  have "step True example_started ?s"
    using step.shutdown_flag [of True example_started] by (simp add: example_started_def system_init_def)
  moreover have "step True ?s example_down"
    using step.shutdown_grpc [of ?s True] by (simp add: example_down_def)
  ultimately show ?thesis
    using example_started_reachable by (meson rtranclp.rtrancl_into_rtrancl)
qed

theorem event_loop_safety_witness:
  "(step True)\<^sup>*\<^sup>* (system_init 1) example_started \<and> \<not> grpc_misused example_started \<and>
   count_list (map fst (sys_notified example_started)) 42 = 0 \<and> CancelAll (sys_impl example_started) = Inr [42]"
proof -
  have "pending_ops (sys_impl example_started) = [(42, set_deadline 5 example_timer)]"
    "sys_notified example_started = []" by (simp_all add: example_started_def system_init_def)
  moreover have "set_deadline 5 example_timer = TimerOp \<lparr>timer_deadline = 5, timer_alarm = True\<rparr>"
    by (simp add: set_deadline_def example_timer_def AsyncTimerFuture_Set_def)
  ultimately show ?thesis
    using event_loop_safety [OF example_started_reachable] example_started_reachable by simp
qed

text \<open>
  C11: shutting down completes. Once the gRPC queue is shut down there is, until every thread of the
  loop has returned from \<^verbatim>\<open>Run\<close>, a step that brings the end closer, and no step of any thread moves
  away from it; when they have all returned no operation is pending and each operation ever started
  has been notified exactly as often as it was started.
\<close>

theorem event_loop_shutdown_completes:
  assumes "(step he)\<^sup>*\<^sup>* (system_init (Suc n)) s" "grpc_down s"
  shows "((\<exists>s'. step he s s' \<and> weight s' < weight s) \<or>
          set (sys_threads s) = {Stopped} \<and> pending_ops (sys_impl s) = [] \<and>
          (\<forall>tag. count_list (sys_started s) tag = count_list (map fst (sys_notified s)) tag)) \<and>
         (\<forall>s'. step he s s' \<longrightarrow> weight s' \<le> weight s)"
proof -
  have inv: "sys_inv s" and bal: "balanced s" using reachable_inv [OF assms(1)] by blast+
  have len: "length (sys_threads s) = Suc n" by (rule threads_length [OF assms(1)])
  have "shutdown (sys_impl s)" using inv assms(2) by (simp add: sys_inv_def)
  then have mono: "\<forall>s'. step he s s' \<longrightarrow> weight s' \<le> weight s" using step_weight inv by blast
  show ?thesis
  proof (cases "set (sys_threads s) \<subseteq> {Stopped}")
    case False
    with progress [OF inv assms(2), of he] mono show ?thesis unfolding quiet_step_def by blast
  next
    case True
    then have all: "set (sys_threads s) = {Stopped}" using len by (cases "sys_threads s") auto
    from stopped_end [OF inv bal all] all mono show ?thesis by simp
  qed
qed

theorem event_loop_shutdown_completes_witness:
  "(step True)\<^sup>*\<^sup>* (system_init 1) example_down \<and> (\<exists>s'. step True example_down s' \<and> weight s' < weight example_down)"
proof -
  have "sys_threads example_down = [Polling]" "grpc_down example_down"
    by (simp_all add: example_down_def example_started_def system_init_def)
  then show ?thesis
    using event_loop_shutdown_completes [of True 0 example_down] example_down_reachable by simp
qed

lemma step_keeps_down: "step he s s' \<Longrightarrow> grpc_down s \<Longrightarrow> grpc_down s'"
  by (induction rule: step.induct)
    (auto simp: start_step_def elim!: run_thread_step.elims split: prod.splits sum.splits option.splits)

end
