(* ===== verification/Background_Threads.thy ===== *)
theory Background_Threads
  imports Event_Loop
begin

text \<open>
  \<^verbatim>\<open>AutomaticallyCreatedBackgroundThreads\<close> (\<^verbatim>\<open>internal/background_threads_impl.cc\<close>): a queue with one thread in
  \<^verbatim>\<open>Run\<close>, and the call of \<^verbatim>\<open>Shutdown\<close> that stops it. The call is a sequence of steps, between which the threads of
  the loop, gRPC and other users of the queue go on.
\<close>

section \<open>The class\<close>

text \<open>Where the call of \<^verbatim>\<open>Shutdown\<close> is; \<open>NoCall\<close> before it is called and after it returned.\<close>

datatype shutdown_pc = NoCall | CallShutdown | CallGrpcShutdown | CallJoin

record 'r background_threads =
  bg_cq :: "'r system"
  bg_runner_joinable :: bool
  bg_pc :: shutdown_pc

definition mk_AutomaticallyCreatedBackgroundThreads :: "'r background_threads" where
  "mk_AutomaticallyCreatedBackgroundThreads = \<lparr>bg_cq = system_init 1, bg_runner_joinable = True, bg_pc = NoCall\<rparr>"

text \<open>\<^verbatim>\<open>CompletionQueueImpl::Shutdown\<close>: the locked section, then the call of gRPC.\<close>

definition Shutdown_flag :: "'r system \<Rightarrow> 'r system" where
  "Shutdown_flag s = s\<lparr>sys_impl := Shutdown_section (sys_impl s), sys_shutting := Suc (sys_shutting s)\<rparr>"

definition Shutdown_grpc :: "'r system \<Rightarrow> 'r system" where
  "Shutdown_grpc s = s\<lparr>grpc_down := True\<rparr>"

text \<open>The next step of the call; \<open>None\<close> while \<^verbatim>\<open>join\<close> waits for the thread, or when there is no call.\<close>

definition AutomaticallyCreatedBackgroundThreads_Shutdown :: "'r background_threads \<Rightarrow> 'r background_threads option" where
  "AutomaticallyCreatedBackgroundThreads_Shutdown b =
     (case bg_pc b of
        NoCall \<Rightarrow> None
      | CallShutdown \<Rightarrow> Some (b\<lparr>bg_cq := Shutdown_flag (bg_cq b), bg_pc := CallGrpcShutdown\<rparr>)
      | CallGrpcShutdown \<Rightarrow> Some (b\<lparr>bg_cq := Shutdown_grpc (bg_cq b), bg_pc := CallJoin\<rparr>)
      | CallJoin \<Rightarrow>
          if \<not> bg_runner_joinable b then Some (b\<lparr>bg_pc := NoCall\<rparr>)
          else if set (sys_threads (bg_cq b)) = {Stopped} then Some (b\<lparr>bg_runner_joinable := False, bg_pc := NoCall\<rparr>)
          else None)"

inductive bg_step :: "bool \<Rightarrow> 'r background_threads \<Rightarrow> 'r background_threads \<Rightarrow> bool" for have_ex where
  bg_call: "bg_pc b = NoCall \<Longrightarrow> bg_step have_ex b (b\<lparr>bg_pc := CallShutdown\<rparr>)"
| bg_next: "AutomaticallyCreatedBackgroundThreads_Shutdown b = Some b' \<Longrightarrow> bg_step have_ex b b'"
| bg_queue: "step have_ex (bg_cq b) s \<Longrightarrow> bg_step have_ex b (b\<lparr>bg_cq := s\<rparr>)"

text \<open>A step that needs no other user of the queue.\<close>

inductive bg_own_step :: "bool \<Rightarrow> 'r background_threads \<Rightarrow> 'r background_threads \<Rightarrow> bool" for have_ex where
  own_next: "AutomaticallyCreatedBackgroundThreads_Shutdown b = Some b' \<Longrightarrow> bg_own_step have_ex b b'"
| own_queue: "quiet_step have_ex (bg_cq b) s \<Longrightarrow> bg_own_step have_ex b (b\<lparr>bg_cq := s\<rparr>)"

inductive_cases bg_stepE: "bg_step have_ex b b'"

text \<open>How far the call is from its return: the position, and in \<^verbatim>\<open>join\<close> the work left for the thread.\<close>

definition bg_distance :: "'r background_threads \<Rightarrow> nat \<times> nat" where
  "bg_distance b =
     (case bg_pc b of
        NoCall \<Rightarrow> (0, 0)
      | CallShutdown \<Rightarrow> (3, 0)
      | CallGrpcShutdown \<Rightarrow> (2, 0)
      | CallJoin \<Rightarrow> (1, weight (bg_cq b)))"

abbreviation closer :: "((nat \<times> nat) \<times> (nat \<times> nat)) set" where
  "closer \<equiv> less_than <*lex*> less_than"

section \<open>Invariant\<close>

definition bg_inv :: "'r background_threads \<Rightarrow> bool" where
  "bg_inv b \<longleftrightarrow> sys_inv (bg_cq b) \<and> balanced (bg_cq b) \<and> length (sys_threads (bg_cq b)) = 1 \<and>
     (bg_pc b = CallGrpcShutdown \<longrightarrow> 0 < sys_shutting (bg_cq b)) \<and>
     (bg_pc b = CallJoin \<longrightarrow> grpc_down (bg_cq b)) \<and>
     (\<not> bg_runner_joinable b \<longrightarrow> set (sys_threads (bg_cq b)) = {Stopped})"

lemma step_keeps:
  "step he s s' \<Longrightarrow> length (sys_threads s') = length (sys_threads s) \<and> sys_shutting s \<le> sys_shutting s'"
  by (induction rule: step.induct)
    (auto simp: start_step_def elim!: run_thread_step.elims split: prod.splits sum.splits option.splits)

lemma step_keeps_stopped: "step he s s' \<Longrightarrow> set (sys_threads s) = {Stopped} \<Longrightarrow> set (sys_threads s') = {Stopped}"
proof (induction rule: step.induct)
  case (poll_event i s tag ok)
  then show ?case by (metis nth_mem run_thread.distinct(7) singletonD)
next
  case (poll_shutdown i s)
  then show ?case by (metis nth_mem run_thread.distinct(7) singletonD)
next
  case (handle i s th s')
  then have "sys_threads s ! i = Stopped" by (metis nth_mem singletonD)
  with handle show ?case by simp
qed (auto simp: start_step_def split: prod.splits sum.splits option.splits)

lemma Shutdown_steps:
  "step he s (Shutdown_flag s)" "0 < sys_shutting s \<Longrightarrow> step he s (Shutdown_grpc s)"
  unfolding Shutdown_flag_def Shutdown_grpc_def by (rule step.shutdown_flag step.shutdown_grpc; assumption?)+

lemma Shutdown_cases:
  assumes "AutomaticallyCreatedBackgroundThreads_Shutdown b = Some b'"
  obtains (flag) "bg_pc b = CallShutdown" "b' = b\<lparr>bg_cq := Shutdown_flag (bg_cq b), bg_pc := CallGrpcShutdown\<rparr>"
    | (grpc) "bg_pc b = CallGrpcShutdown" "b' = b\<lparr>bg_cq := Shutdown_grpc (bg_cq b), bg_pc := CallJoin\<rparr>"
    | (gone) "bg_pc b = CallJoin" "\<not> bg_runner_joinable b" "b' = b\<lparr>bg_pc := NoCall\<rparr>"
    | (joined) "bg_pc b = CallJoin" "set (sys_threads (bg_cq b)) = {Stopped}"
        "b' = b\<lparr>bg_runner_joinable := False, bg_pc := NoCall\<rparr>"
  using assms unfolding AutomaticallyCreatedBackgroundThreads_Shutdown_def
  by (cases "bg_pc b"; simp split: if_split_asm)

lemma Shutdown_closer:
  assumes "AutomaticallyCreatedBackgroundThreads_Shutdown b = Some b'"
  shows "(bg_distance b', bg_distance b) \<in> closer"
  using assms by (cases rule: Shutdown_cases) (simp_all add: bg_distance_def)

lemma bg_inv_step:
  assumes "bg_step he b b'" "bg_inv b"
  shows "bg_inv b'"
  using assms
proof (cases rule: bg_step.cases)
  case bg_call
  with assms(2) show ?thesis by (simp add: bg_inv_def)
next
  case bg_next
  from bg_next(1) show ?thesis
  proof (cases rule: Shutdown_cases)
    case flag
    with assms(2) step_inv [OF Shutdown_steps(1), of "bg_cq b"] show ?thesis by (simp add: bg_inv_def) (simp add: Shutdown_flag_def)
  next
    case grpc
    with assms(2) step_inv [OF Shutdown_steps(2), of "bg_cq b"] show ?thesis by (simp add: bg_inv_def) (simp add: Shutdown_grpc_def)
  qed (use assms(2) in \<open>simp_all add: bg_inv_def\<close>)
next
  case (bg_queue s)
  have "sys_inv s \<and> balanced s" using step_inv [OF bg_queue(2)] assms(2) by (simp add: bg_inv_def)
  moreover have "0 < sys_shutting (bg_cq b) \<longrightarrow> 0 < sys_shutting s" "length (sys_threads s) = length (sys_threads (bg_cq b))"
    using step_keeps [OF bg_queue(2)] by simp_all
  moreover note step_keeps_down [OF bg_queue(2)] step_keeps_stopped [OF bg_queue(2)]
  ultimately show ?thesis using assms(2) unfolding bg_queue(1) bg_inv_def by simp
qed

lemma bg_reachable_inv:
  assumes "(bg_step he)\<^sup>*\<^sup>* mk_AutomaticallyCreatedBackgroundThreads b"
  shows "bg_inv b"
proof -
  have "bg_inv mk_AutomaticallyCreatedBackgroundThreads"
    using inv_init [of 1] by (simp add: bg_inv_def mk_AutomaticallyCreatedBackgroundThreads_def) (simp add: system_init_def)
  with assms show ?thesis by (induction rule: rtranclp_induct) (auto intro: bg_inv_step)
qed

lemma bg_progress:
  assumes "bg_inv b" "bg_pc b \<noteq> NoCall"
  shows "\<exists>b'. bg_own_step he b b' \<and> (bg_distance b', bg_distance b) \<in> closer"
proof (cases "AutomaticallyCreatedBackgroundThreads_Shutdown b")
  case (Some b')
  with own_next [OF Some] Shutdown_closer [OF Some] show ?thesis by blast
next
  case None
  with assms(2) have pc: "bg_pc b = CallJoin" "set (sys_threads (bg_cq b)) \<noteq> {Stopped}"
    by (cases "bg_pc b"; simp add: AutomaticallyCreatedBackgroundThreads_Shutdown_def split: if_splits)+
  with assms(1) have "sys_inv (bg_cq b)" "grpc_down (bg_cq b)" "\<not> set (sys_threads (bg_cq b)) \<subseteq> {Stopped}"
    by (cases "sys_threads (bg_cq b)"; auto simp: bg_inv_def)+
  then obtain s where s: "quiet_step he (bg_cq b) s" "weight s < weight (bg_cq b)" using progress by blast
  from s(2) pc(1) have "(bg_distance (b\<lparr>bg_cq := s\<rparr>), bg_distance b) \<in> closer" by (simp add: bg_distance_def)
  with own_queue [OF s(1)] show ?thesis by blast
qed

lemma bg_no_retreat:
  assumes "bg_inv b" "bg_pc b \<noteq> NoCall" "bg_step he b b'"
  shows "bg_distance b' = bg_distance b \<or> (bg_distance b', bg_distance b) \<in> closer"
  using assms(3)
proof (cases rule: bg_step.cases)
  case bg_next
  then show ?thesis using Shutdown_closer by blast
next
  case (bg_queue s)
  have "weight s \<le> weight (bg_cq b)" if "bg_pc b = CallJoin"
    using step_weight [OF bg_queue(2)] assms(1) that by (simp add: bg_inv_def sys_inv_def)
  with bg_queue(1) show ?thesis by (cases "bg_pc b") (auto simp: bg_distance_def)
qed (use assms(2) in simp)

section \<open>Property\<close>

text \<open>
  C12: shutting background threads down. At every moment of a call of \<^verbatim>\<open>Shutdown\<close>, whatever the queue, its
  thread and its other users did before, there is a step of the call itself, of the thread or of gRPC that brings
  the return closer, and no step of anybody moves it away: the call does not depend on another user to
  shut the queue down. Once it has joined, the thread has left \<^verbatim>\<open>Run\<close>, no operation is pending and each operation ever
  started has been notified exactly as often as it was started. A later call, as from the destructor,
  does not wait for the thread again.
\<close>

theorem background_threads_Shutdown_joins:
  assumes "(bg_step he)\<^sup>*\<^sup>* mk_AutomaticallyCreatedBackgroundThreads b"
  shows "(bg_pc b \<noteq> NoCall \<longrightarrow> (\<exists>b'. bg_own_step he b b' \<and> (bg_distance b', bg_distance b) \<in> closer)) \<and>
     (bg_pc b \<noteq> NoCall \<longrightarrow> (\<forall>b'. bg_step he b b' \<longrightarrow>
        bg_distance b' = bg_distance b \<or> (bg_distance b', bg_distance b) \<in> closer)) \<and>
     (\<not> bg_runner_joinable b \<longrightarrow>
        set (sys_threads (bg_cq b)) = {Stopped} \<and> pending_ops (sys_impl (bg_cq b)) = [] \<and>
        (\<forall>tag. count_list (sys_started (bg_cq b)) tag = count_list (map fst (sys_notified (bg_cq b))) tag))"
proof -
  have inv: "bg_inv b" by (rule bg_reachable_inv [OF assms])
  with bg_progress bg_no_retreat have "bg_pc b \<noteq> NoCall \<longrightarrow> (\<exists>b'. bg_own_step he b b' \<and> (bg_distance b', bg_distance b) \<in> closer)"
    "bg_pc b \<noteq> NoCall \<longrightarrow> (\<forall>b'. bg_step he b b' \<longrightarrow> bg_distance b' = bg_distance b \<or> (bg_distance b', bg_distance b) \<in> closer)"
    by blast+
  moreover have "\<not> bg_runner_joinable b \<longrightarrow>
        set (sys_threads (bg_cq b)) = {Stopped} \<and> pending_ops (sys_impl (bg_cq b)) = [] \<and>
        (\<forall>tag. count_list (sys_started (bg_cq b)) tag = count_list (map fst (sys_notified (bg_cq b))) tag)"
    using inv stopped_end [of "bg_cq b"] by (simp add: bg_inv_def)
  ultimately show ?thesis by blast
qed

text \<open>A call while a timer is pending: it waits in \<^verbatim>\<open>join\<close> after two steps.\<close>

definition example_joining :: "int background_threads" where
  "example_joining = \<lparr>bg_cq = example_down, bg_runner_joinable = True, bg_pc = CallJoin\<rparr>"

lemma example_joining_reachable: "(bg_step True)\<^sup>*\<^sup>* mk_AutomaticallyCreatedBackgroundThreads example_joining"
proof -
  let ?b = "\<lambda>s pc. \<lparr>bg_cq = s, bg_runner_joinable = True, bg_pc = pc\<rparr> :: int background_threads"
  have queue: "(bg_step True)\<^sup>*\<^sup>* (?b s NoCall) (?b s' NoCall)" if "(step True)\<^sup>*\<^sup>* s s'" for s s'
    using that
  proof (induction rule: rtranclp_induct)
    case (step s1 s2)
    from bg_queue [where b = "?b s1 NoCall" and have_ex = True] step(2) have "bg_step True (?b s1 NoCall) (?b s2 NoCall)" by simp
    with step(3) show ?case by (rule rtranclp.rtrancl_into_rtrancl)
  qed simp
  have 1: "bg_step True (?b example_started NoCall) (?b example_started CallShutdown)"
    using bg_call [of "?b example_started NoCall" True] by simp
  have 2: "bg_step True (?b example_started CallShutdown) (?b (Shutdown_flag example_started) CallGrpcShutdown)"
    by (rule bg_next) (simp add: AutomaticallyCreatedBackgroundThreads_Shutdown_def)
  have "example_down = Shutdown_grpc (Shutdown_flag example_started)"
    by (simp add: example_down_def Shutdown_grpc_def Shutdown_flag_def example_started_def system_init_def)
  then have 3: "bg_step True (?b (Shutdown_flag example_started) CallGrpcShutdown) example_joining"
    by (intro bg_next) (simp add: AutomaticallyCreatedBackgroundThreads_Shutdown_def example_joining_def)
  from queue [OF example_started_reachable] 1 2 3 show ?thesis
    unfolding mk_AutomaticallyCreatedBackgroundThreads_def by (meson rtranclp.rtrancl_into_rtrancl)
qed

theorem background_threads_Shutdown_joins_witness:
  "(bg_step True)\<^sup>*\<^sup>* mk_AutomaticallyCreatedBackgroundThreads example_joining \<and>
   (\<exists>b'. bg_own_step True example_joining b' \<and> (bg_distance b', bg_distance example_joining) \<in> closer)"
  using background_threads_Shutdown_joins [OF example_joining_reachable] example_joining_reachable
  by (simp add: example_joining_def)

end
