(* ===== verification/Retry_Policy.thy ===== *)
theory Retry_Policy
  imports Status_Or
begin

text \<open>
  Retry policies (\<^verbatim>\<open>internal/retry_policy.h\<close>). The template parameter \<^verbatim>\<open>RetryableTraits\<close> is the
  argument \<open>perm\<close>, the test for permanent failures; the system clock is the argument \<open>now\<close>, in
  nanoseconds. The locale \<open>retry_policy\<close> is what a retry loop relies on; both policies interpret it.
\<close>

section \<open>The base class\<close>

text \<open>\<^verbatim>\<open>RetryPolicy::OnFailure\<close>, over the two virtual functions of the derived class.\<close>

definition OnFailure ::
  "('s \<Rightarrow> bool) \<Rightarrow> ('p \<Rightarrow> fault + 'p) \<Rightarrow> ('t \<Rightarrow> 'p \<Rightarrow> bool) \<Rightarrow> 't \<Rightarrow> 's \<Rightarrow> 'p \<Rightarrow> fault + bool \<times> 'p" where
  "OnFailure perm impl exhausted now status p =
     (if perm status then Inr (False, p)
      else bindR (impl p) (\<lambda>p'. Inr (\<not> exhausted now p', p')))"

section \<open>Limited number of errors\<close>

record LimitedErrorCount =
  failure_count :: int
  maximum_failures :: int

definition mk_LimitedErrorCount :: "int \<Rightarrow> LimitedErrorCount" where
  "mk_LimitedErrorCount maximum = \<lparr>failure_count = 0, maximum_failures = maximum\<rparr>"

text \<open>Copy and move constructors start a new count.\<close>

definition LimitedErrorCount_copy :: "LimitedErrorCount \<Rightarrow> LimitedErrorCount" where
  "LimitedErrorCount_copy rhs = mk_LimitedErrorCount (maximum_failures rhs)"

definition LimitedErrorCount_clone :: "LimitedErrorCount \<Rightarrow> LimitedErrorCount" where
  "LimitedErrorCount_clone p = mk_LimitedErrorCount (maximum_failures p)"

definition LimitedErrorCount_IsExhausted :: "int \<Rightarrow> LimitedErrorCount \<Rightarrow> bool" where
  "LimitedErrorCount_IsExhausted now p \<longleftrightarrow> failure_count p > maximum_failures p"

text \<open>\<^verbatim>\<open>++failure_count_\<close> on an \<^verbatim>\<open>int\<close>.\<close>

definition LimitedErrorCount_OnFailureImpl :: "LimitedErrorCount \<Rightarrow> fault + LimitedErrorCount" where
  "LimitedErrorCount_OnFailureImpl p =
     (if in_int32 (failure_count p + 1) then Inr (p\<lparr>failure_count := failure_count p + 1\<rparr>)
      else Inl (UB SignedOverflow))"

section \<open>Limited time\<close>

text \<open>
  The maximum duration is kept in milliseconds, the deadline as a time point of the clock, a signed
  64-bit count of nanoseconds.
\<close>

record LimitedTime =
  maximum_duration :: int
  deadline :: int

definition mk_LimitedTime :: "int \<Rightarrow> int \<Rightarrow> fault + LimitedTime" where
  "mk_LimitedTime now duration_ns =
     (let ms = trunc_div duration_ns 1000000 in
      if in_int64 (now + ms * 1000000) then Inr \<lparr>maximum_duration = ms, deadline = now + ms * 1000000\<rparr>
      else Inl (UB SignedOverflow))"

definition LimitedTime_copy :: "int \<Rightarrow> LimitedTime \<Rightarrow> fault + LimitedTime" where
  "LimitedTime_copy now rhs = mk_LimitedTime now (maximum_duration rhs * 1000000)"

definition LimitedTime_clone :: "int \<Rightarrow> LimitedTime \<Rightarrow> fault + LimitedTime" where
  "LimitedTime_clone now p = mk_LimitedTime now (maximum_duration p * 1000000)"

definition LimitedTime_IsExhausted :: "int \<Rightarrow> LimitedTime \<Rightarrow> bool" where
  "LimitedTime_IsExhausted now p \<longleftrightarrow> now \<ge> deadline p"

definition LimitedTime_OnFailureImpl :: "LimitedTime \<Rightarrow> fault + LimitedTime" where
  "LimitedTime_OnFailureImpl p = Inr p"

section \<open>What a retry loop relies on\<close>

text \<open>The answers of a policy to a sequence of failures at given times.\<close>

fun on_failures ::
  "('s \<Rightarrow> bool) \<Rightarrow> ('p \<Rightarrow> fault + 'p) \<Rightarrow> (int \<Rightarrow> 'p \<Rightarrow> bool) \<Rightarrow> (int \<times> 's) list \<Rightarrow> 'p \<Rightarrow> fault + bool list \<times> 'p" where
  "on_failures perm impl exhausted [] p = Inr ([], p)"
| "on_failures perm impl exhausted ((now, status) # fs) p =
     bindR (OnFailure perm impl exhausted now status p) (\<lambda>(b, p1).
     bindR (on_failures perm impl exhausted fs p1) (\<lambda>(bs, p2). Inr (b # bs, p2)))"

text \<open>Exhaustion is final: neither a later failure nor a later time revokes it.\<close>

locale retry_policy =
  fixes impl :: "'p \<Rightarrow> fault + 'p"
    and exhausted :: "int \<Rightarrow> 'p \<Rightarrow> bool"
    and clone :: "int \<Rightarrow> 'p \<Rightarrow> fault + 'p"
  assumes exhausted_later: "exhausted now p \<Longrightarrow> now \<le> now' \<Longrightarrow> exhausted now' p"
    and exhausted_failure: "exhausted now p \<Longrightarrow> impl p = Inr p' \<Longrightarrow> exhausted now p'"
    and clone_clone: "clone now' p = Inr p' \<Longrightarrow> clone now p' = clone now p"
    and clone_failure: "impl p = Inr p' \<Longrightarrow> clone now p' = clone now p"
begin

lemma refused_forever:
  assumes "exhausted t p" "\<forall>(now, status) \<in> set fs. t \<le> now"
    "on_failures perm impl exhausted fs p = Inr (bs, p')"
  shows "\<forall>b \<in> set bs. \<not> b"
  using assms
proof (induction fs arbitrary: p bs)
  case Nil
  then show ?case by simp
next
  case (Cons f fs)
  obtain now status where f: "f = (now, status)" by (cases f)
  from Cons.prems(3) obtain b p1 bs' where
    one: "OnFailure perm impl exhausted now status p = Inr (b, p1)"
    and rest: "on_failures perm impl exhausted fs p1 = Inr (bs', p')" and bs: "bs = b # bs'"
    by (auto simp: f)
  have "t \<le> now" using Cons.prems(2) by (simp add: f)
  have "exhausted t p1 \<and> \<not> b"
  proof (cases "perm status")
    case True
    with one Cons.prems(1) show ?thesis by (simp add: OnFailure_def)
  next
    case False
    with one have "impl p = Inr p1" and b: "b \<longleftrightarrow> \<not> exhausted now p1" by (auto simp: OnFailure_def)
    with Cons.prems(1) have ex: "exhausted t p1" by (blast intro: exhausted_failure)
    then have "exhausted now p1" using \<open>t \<le> now\<close> by (rule exhausted_later)
    with ex b show ?thesis by simp
  qed
  with Cons.IH [OF _ _ rest] Cons.prems(2) show ?case by (simp add: bs)
qed

text \<open>A clone taken after any failures is the clone taken before them.\<close>

lemma clone_after_failures:
  "on_failures perm impl exhausted fs p = Inr (bs, p') \<Longrightarrow> clone now p' = clone now p"
proof (induction fs arbitrary: p bs)
  case Nil
  then show ?case by simp
next
  case (Cons f fs)
  obtain t status where f: "f = (t, status)" by (cases f)
  from Cons.prems obtain b p1 bs' where
    "OnFailure perm impl exhausted t status p = Inr (b, p1)"
    "on_failures perm impl exhausted fs p1 = Inr (bs', p')" by (auto simp: f)
  with Cons.IH [of p1 bs'] clone_failure show ?case by (auto simp: OnFailure_def split: if_splits)
qed

end

interpretation error_count: retry_policy
  LimitedErrorCount_OnFailureImpl LimitedErrorCount_IsExhausted "\<lambda>now p. Inr (LimitedErrorCount_clone p)"
  by unfold_locales
    (auto simp: LimitedErrorCount_OnFailureImpl_def LimitedErrorCount_IsExhausted_def
      LimitedErrorCount_clone_def mk_LimitedErrorCount_def split: if_splits)

lemma trunc_div_exact: "b \<noteq> 0 \<Longrightarrow> trunc_div (a * b) b = a"
  using sgn_mult_abs [of a] by (cases "0 < b") (simp_all add: trunc_div_def abs_mult sgn_mult)

interpretation limited_time: retry_policy
  LimitedTime_OnFailureImpl LimitedTime_IsExhausted LimitedTime_clone
  by unfold_locales
    (auto simp: LimitedTime_OnFailureImpl_def LimitedTime_IsExhausted_def LimitedTime_clone_def
      mk_LimitedTime_def Let_def trunc_div_exact split: if_splits)

section \<open>Lemmas\<close>

lemma error_count_run:
  assumes "0 \<le> failure_count p" "failure_count p + int (length fs) < 2 ^ 31" "\<forall>(now, st) \<in> set fs. \<not> perm st"
  shows "on_failures perm LimitedErrorCount_OnFailureImpl LimitedErrorCount_IsExhausted fs p =
     Inr (map (\<lambda>i. failure_count p + int i + 1 \<le> maximum_failures p) [0..<length fs],
          p\<lparr>failure_count := failure_count p + int (length fs)\<rparr>)"
  using assms
proof (induction fs arbitrary: p)
  case Nil
  then show ?case by simp
next
  case (Cons f fs)
  obtain now st where f: "f = (now, st)" by (cases f)
  let ?p = "p\<lparr>failure_count := failure_count p + 1\<rparr>"
  have one: "OnFailure perm LimitedErrorCount_OnFailureImpl LimitedErrorCount_IsExhausted now st p
      = Inr (failure_count p + 1 \<le> maximum_failures p, ?p)"
    using Cons.prems
    by (auto simp: OnFailure_def f LimitedErrorCount_OnFailureImpl_def LimitedErrorCount_IsExhausted_def in_int32_def)
  have "on_failures perm LimitedErrorCount_OnFailureImpl LimitedErrorCount_IsExhausted fs ?p =
     Inr (map (\<lambda>i. failure_count ?p + int i + 1 \<le> maximum_failures ?p) [0..<length fs],
          ?p\<lparr>failure_count := failure_count ?p + int (length fs)\<rparr>)"
    using Cons.prems by (intro Cons.IH) auto
  then have rest: "on_failures perm LimitedErrorCount_OnFailureImpl LimitedErrorCount_IsExhausted fs ?p =
     Inr (map (\<lambda>i. failure_count p + int (Suc i) + 1 \<le> maximum_failures p) [0..<length fs],
          p\<lparr>failure_count := failure_count p + int (length (f # fs))\<rparr>)"
    by (simp add: algebra_simps)
  have "map (\<lambda>i. failure_count p + int i + 1 \<le> maximum_failures p) [0..<length (f # fs)] =
      (failure_count p + 1 \<le> maximum_failures p) #
      map (\<lambda>i. failure_count p + int (Suc i) + 1 \<le> maximum_failures p) [0..<length fs]"
    by (simp add: upt_conv_Cons map_Suc_upt [symmetric] comp_def del: upt_Suc map_Suc_upt)
  with one rest show ?case by (simp add: f)
qed

section \<open>Properties\<close>

text \<open>
  C20: the error-count policy tolerates exactly \<^verbatim>\<open>maximum_failures\<close> transient failures: of any sequence
  of them it allows a retry after the first so many and refuses from then on, a permanent failure is
  refused at any time without being counted, and a copy or clone starts afresh.
\<close>

theorem LimitedErrorCount_tolerates_exactly:
  assumes "int (length fs) < 2 ^ 31" "\<forall>(now, st) \<in> set fs. \<not> perm st"
  shows "(\<exists>p'. on_failures perm LimitedErrorCount_OnFailureImpl LimitedErrorCount_IsExhausted fs
              (mk_LimitedErrorCount maximum)
            = Inr (map (\<lambda>i. int i < maximum) [0..<length fs], p') \<and>
          LimitedErrorCount_clone p' = mk_LimitedErrorCount maximum \<and>
          LimitedErrorCount_copy p' = mk_LimitedErrorCount maximum) \<and>
         (perm st \<longrightarrow> OnFailure perm LimitedErrorCount_OnFailureImpl LimitedErrorCount_IsExhausted now st p
            = Inr (False, p))"
proof -
  have "failure_count (mk_LimitedErrorCount maximum) + int i + 1 \<le> maximum_failures (mk_LimitedErrorCount maximum)
      \<longleftrightarrow> int i < maximum" for i by (auto simp: mk_LimitedErrorCount_def)
  with error_count_run [of "mk_LimitedErrorCount maximum" fs perm] assms show ?thesis
    by (simp add: OnFailure_def LimitedErrorCount_clone_def LimitedErrorCount_copy_def)
      (simp add: mk_LimitedErrorCount_def)
qed

theorem LimitedErrorCount_tolerates_exactly_witness:
  "\<exists>p'. on_failures (\<lambda>s. s = kPermissionDenied) LimitedErrorCount_OnFailureImpl LimitedErrorCount_IsExhausted
       [(0, kUnavailable), (1, kUnavailable), (2, kUnavailable)] (mk_LimitedErrorCount 2)
     = Inr ([True, True, False], p') \<and> LimitedErrorCount_clone p' = mk_LimitedErrorCount 2"
proof -
  let ?fs = "[(0, kUnavailable), (1, kUnavailable), (2, kUnavailable)]"
  have *: "int (length ?fs) < 2 ^ 31" "\<forall>(now, st) \<in> set ?fs. \<not> st = kPermissionDenied" by simp_all
  have bs: "map (\<lambda>i. int i < 2) [0..<length ?fs] = [True, True, False]" by code_simp
  from LimitedErrorCount_tolerates_exactly [OF *, of 2] show ?thesis unfolding bs by blast
qed

text \<open>
  C21: the time-limit policy refuses every retry from its deadline on, whatever happens later, and
  before the deadline it allows exactly the retries of transient failures; a clone gets a deadline
  of its own from the time of cloning.
\<close>

theorem LimitedTime_deadline:
  assumes "mk_LimitedTime start d = Inr p"
    "on_failures perm LimitedTime_OnFailureImpl LimitedTime_IsExhausted fs p = Inr (bs, p')"
    "in_int64 (now' + trunc_div d 1000000 * 1000000)"
  shows "bs = map (\<lambda>(now, st). \<not> perm st \<and> now < start + trunc_div d 1000000 * 1000000) fs \<and>
         map_sum id deadline (LimitedTime_clone now' p') = Inr (now' + trunc_div d 1000000 * 1000000)"
proof -
  have "bs = map (\<lambda>(now, st). \<not> perm st \<and> now < deadline p) fs"
    if "on_failures perm LimitedTime_OnFailureImpl LimitedTime_IsExhausted fs p = Inr (bs, p')" for p bs
    using that
    by (induction fs arbitrary: bs)
      (auto simp: OnFailure_def LimitedTime_OnFailureImpl_def LimitedTime_IsExhausted_def split: if_splits)
  from this [OF assms(2)] limited_time.clone_after_failures [OF assms(2), of now'] assms(1,3) show ?thesis
    by (auto simp: mk_LimitedTime_def LimitedTime_clone_def Let_def trunc_div_exact split: if_splits)
qed

theorem LimitedTime_deadline_witness:
  "mk_LimitedTime 0 2500000 = Inr \<lparr>maximum_duration = 2, deadline = 2000000\<rparr> \<and>
   on_failures (\<lambda>s. s = kPermissionDenied) LimitedTime_OnFailureImpl LimitedTime_IsExhausted
       [(1, kUnavailable), (2, kPermissionDenied), (2000000, kUnavailable)] \<lparr>maximum_duration = 2, deadline = 2000000\<rparr>
     = Inr ([True, False, False], \<lparr>maximum_duration = 2, deadline = 2000000\<rparr>) \<and>
   map_sum id deadline (LimitedTime_clone 7 \<lparr>maximum_duration = 2, deadline = 2000000\<rparr>) = Inr 2000007"
proof -
  let ?p = "\<lparr>maximum_duration = 2, deadline = 2000000\<rparr>"
  have mk: "mk_LimitedTime 0 2500000 = Inr ?p"
    by (simp add: mk_LimitedTime_def trunc_div_def Let_def in_int64_def)
  have run: "on_failures (\<lambda>s. s = kPermissionDenied) LimitedTime_OnFailureImpl LimitedTime_IsExhausted
       [(1, kUnavailable), (2, kPermissionDenied), (2000000, kUnavailable)] ?p
     = Inr ([True, False, False], ?p)" by code_simp
  have d: "trunc_div 2500000 1000000 = 2" by (simp add: trunc_div_def)
  then have "in_int64 (7 + trunc_div 2500000 1000000 * 1000000)" by (simp add: in_int64_def)
  from LimitedTime_deadline [OF mk run this] have "map_sum id deadline (LimitedTime_clone 7 ?p) = Inr 2000007"
    by (simp add: d)
  with mk run show ?thesis by blast
qed

end
