(* ===== verification/Backoff_Policy.thy ===== *)
theory Backoff_Policy
  imports Optional
begin

text \<open>
  The truncated exponential backoff of \<^verbatim>\<open>internal/backoff_policy.{h,cc}\<close>. Delays are microsecond
  counts in a signed 64-bit integer; the scaling factor is an IEEE 754 double, and the product of the
  two is computed with its roundings. The distribution of the standard library and the freshly
  seeded generator are arguments.
\<close>

section \<open>Double precision arithmetic\<close>

text \<open>\<open>Finite m e\<close> is the number \<open>m * 2 ^ e\<close>.\<close>

datatype double = Finite int int | Infinite bool | NotANumber

definition double_wf :: "double \<Rightarrow> bool" where
  "double_wf x = (case x of Finite m e \<Rightarrow> \<bar>m\<bar> < 2 ^ 53 | _ \<Rightarrow> True)"

text \<open>The comparison \<open>x \<le> 1.0\<close>, false for NaN.\<close>

definition double_le_1 :: "double \<Rightarrow> bool" where
  "double_le_1 x = (case x of
     Finite m e \<Rightarrow> if 0 \<le> e then m * 2 ^ nat e \<le> 1 else m \<le> 2 ^ nat (- e)
   | Infinite positive \<Rightarrow> \<not> positive
   | NotANumber \<Rightarrow> False)"

fun bit_length :: "nat \<Rightarrow> nat" where
  "bit_length n = (if n = 0 then 0 else Suc (bit_length (n div 2)))"

declare bit_length.simps [simp del]

text \<open>Round to nearest, ties to even, keeping 53 significant bits.\<close>

definition round53 :: "nat \<Rightarrow> nat" where
  "round53 n =
     (let s = bit_length n - 53; q = n div 2 ^ s; r = n mod 2 ^ s in
      if 2 * r < 2 ^ s \<or> (2 * r = 2 ^ s \<and> even q) then q * 2 ^ s else (q + 1) * 2 ^ s)"

definition round53_int :: "int \<Rightarrow> int" where
  "round53_int i = sgn i * int (round53 (nat \<bar>i\<bar>))"

text \<open>
  \<^verbatim>\<open>static_cast<std::int64_t>(count * scaling)\<close>: the count is converted to double, the product is
  rounded, and the result truncated; a value out of range is undefined behaviour.
\<close>

definition scale_count :: "int \<Rightarrow> double \<Rightarrow> fault + int" where
  "scale_count count scaling = (case scaling of
     Finite m e \<Rightarrow>
       (let p = round53_int (round53_int count * m);
            v = (if 0 \<le> e then p * 2 ^ nat e else trunc_div p (2 ^ nat (- e))) in
        if in_int64 v then Inr v else Inl (UB SignedOverflow))
   | _ \<Rightarrow> Inl (UB SignedOverflow))"

section \<open>The policy\<close>

record 'g ExponentialBackoffPolicy =
  current_delay_range :: int
  maximum_delay :: int
  scaling :: double
  generator :: "'g option"

text \<open>The constructor, for delays given in nanoseconds.\<close>

definition mk_ExponentialBackoffPolicy ::
  "bool \<Rightarrow> int \<Rightarrow> int \<Rightarrow> double \<Rightarrow> fault + 'g ExponentialBackoffPolicy" where
  "mk_ExponentialBackoffPolicy have_ex initial_delay maximum s =
     (if \<not> in_int64 (2 * initial_delay) then Inl (UB SignedOverflow)
      else if double_le_1 s then Inl (Abn (ThrowInvalidArgument have_ex ''scaling factor must be > 1.0''))
      else Inr \<lparr>current_delay_range = trunc_div (2 * initial_delay) 1000,
                maximum_delay = trunc_div maximum 1000, scaling = s, generator = None\<rparr>)"

definition ExponentialBackoffPolicy_clone ::
  "'g ExponentialBackoffPolicy \<Rightarrow> 'g ExponentialBackoffPolicy" where
  "ExponentialBackoffPolicy_clone p = p\<lparr>generator := None\<rparr>"

text \<open>
  \<open>uniform a b g\<close> is a draw of \<^verbatim>\<open>std::uniform_int_distribution(a, b)\<close>, undefined unless \<open>a \<le> b\<close>;
  \<open>fresh\<close> is what \<^verbatim>\<open>MakeDefaultPRNG()\<close> returns if it is called.
\<close>

definition OnCompletion ::
  "(int \<Rightarrow> int \<Rightarrow> 'g \<Rightarrow> int \<times> 'g) \<Rightarrow> 'g \<Rightarrow> 'g ExponentialBackoffPolicy
    \<Rightarrow> fault + int \<times> 'g ExponentialBackoffPolicy" where
  "OnCompletion uniform fresh p =
     (let g = (case generator p of None \<Rightarrow> fresh | Some g \<Rightarrow> g);
          a = trunc_div (current_delay_range p) 2; b = current_delay_range p in
      if \<not> a \<le> b then Inl (UB OutOfBounds)
      else let (delay, g') = uniform a b g in
        bindR (scale_count (current_delay_range p) (scaling p)) (\<lambda>scaled.
        Inr (trunc_div delay 1000,
             p\<lparr>generator := Some g',
               current_delay_range := (if scaled \<ge> maximum_delay p then maximum_delay p else scaled)\<rparr>)))"

text \<open>The delays of a sequence of completions; one generator is available per call.\<close>

fun backoff_delays ::
  "(int \<Rightarrow> int \<Rightarrow> 'g \<Rightarrow> int \<times> 'g) \<Rightarrow> 'g list \<Rightarrow> 'g ExponentialBackoffPolicy
    \<Rightarrow> fault + (int \<times> int) list \<times> 'g ExponentialBackoffPolicy" where
  "backoff_delays uniform [] p = Inr ([], p)"
| "backoff_delays uniform (fresh # gs) p =
     bindR (OnCompletion uniform fresh p) (\<lambda>(d, p1).
     bindR (backoff_delays uniform gs p1) (\<lambda>(ds, p2). Inr ((current_delay_range p, d) # ds, p2)))"

text \<open>What the standard promises of the distribution.\<close>

definition uniform_in_range :: "(int \<Rightarrow> int \<Rightarrow> 'g \<Rightarrow> int \<times> 'g) \<Rightarrow> bool" where
  "uniform_in_range uniform \<longleftrightarrow> (\<forall>a b g. a \<le> b \<longrightarrow> a \<le> fst (uniform a b g) \<and> fst (uniform a b g) \<le> b)"

section \<open>Rounding\<close>

lemma bit_length_bounds: "n < 2 ^ bit_length n" "0 < n \<Longrightarrow> 2 ^ (bit_length n - 1) \<le> n"
proof (induction n rule: bit_length.induct)
  case (1 n)
  {
    case 1
    with "1.IH"(1) show ?case
      by (cases "n = 0") (auto simp: bit_length.simps [of n] less_mult_imp_div_less)
  next
    case 2
    show ?case
    proof (cases "n div 2 = 0")
      case True
      with 2 show ?thesis by (simp add: bit_length.simps [of n] bit_length.simps [of 0])
    next
      case False
      with "1.IH"(2) 2 have ih: "2 ^ (bit_length (n div 2) - 1) \<le> n div 2" by simp
      have "bit_length n = Suc (Suc (bit_length (n div 2) - 1))"
        using 2 False by (simp add: bit_length.simps [of n] bit_length.simps [of "n div 2"])
      with ih show ?thesis by simp
    qed
  }
qed

lemma round53_exact: "n < 2 ^ 53 \<Longrightarrow> round53 n = n"
proof -
  assume n: "n < 2 ^ 53"
  have "bit_length n \<le> 53"
  proof (cases "n = 0")
    case True
    then show ?thesis by (simp add: bit_length.simps)
  next
    case False
    then have "(2::nat) ^ (bit_length n - 1) < 2 ^ 53" using bit_length_bounds(2) [of n] n by linarith
    then have "bit_length n - 1 < 53" by (rule power_less_imp_less_exp [rotated]) simp
    then show ?thesis by simp
  qed
  then show ?thesis by (simp add: round53_def)
qed

lemma round53_ge: "n div 2 ^ (bit_length n - 53) * 2 ^ (bit_length n - 53) \<le> round53 n"
  by (simp add: round53_def Let_def)

text \<open>A representable number below \<open>n\<close> stays below the rounded \<open>n\<close>.\<close>

lemma round53_representable:
  assumes "c < 2 ^ 53" "c * 2 ^ k \<le> n"
  shows "c * 2 ^ k \<le> round53 n"
proof -
  define s where "s = bit_length n - 53"
  have ge: "n div 2 ^ s * 2 ^ s \<le> round53 n" using round53_ge by (simp add: s_def)
  show ?thesis
  proof (cases "s \<le> k")
    case True
    then obtain j where k: "k = s + j" by (auto simp: le_iff_add)
    have "c * 2 ^ j * 2 ^ s \<le> n" using assms(2) by (simp add: k power_add ac_simps)
    then have "c * 2 ^ j \<le> n div 2 ^ s" by (simp add: less_eq_div_iff_mult_less_eq)
    then have "c * 2 ^ j * 2 ^ s \<le> n div 2 ^ s * 2 ^ s" by (rule mult_right_mono) simp
    also note ge
    also have "c * 2 ^ j * 2 ^ s = c * 2 ^ k" by (simp add: k power_add ac_simps)
    finally show ?thesis .
  next
    case False
    then have s: "0 < s" "k \<le> s - 1" by simp_all
    have len: "bit_length n - 1 = 52 + s" using s by (simp add: s_def)
    have "0 < n" using s by (intro gr0I) (simp add: s_def bit_length.simps)
    with bit_length_bounds(2) [of n] len have "2 ^ 52 * 2 ^ s \<le> n" by (simp add: power_add)
    then have q: "2 ^ 52 * 2 ^ s \<le> n div 2 ^ s * 2 ^ s" by (simp add: less_eq_div_iff_mult_less_eq)
    have "c * 2 ^ k \<le> 2 ^ 53 * 2 ^ (s - 1)"
      using assms(1) s(2) by (intro mult_mono power_increasing) simp_all
    also have "(2::nat) ^ 53 * 2 ^ (s - 1) = 2 ^ 52 * 2 ^ s" using s(1) by (cases s) simp_all
    finally show ?thesis using q ge by linarith
  qed
qed

lemma round53_le: "round53 n \<le> 2 * n"
proof (cases "bit_length n \<le> 53")
  case True
  then show ?thesis by (simp add: round53_def)
next
  case False
  let ?s = "bit_length n - 53"
  have "2 ^ ?s \<le> (2::nat) ^ (bit_length n - 1)" by (rule power_increasing) simp_all
  also have "\<dots> \<le> n" by (rule bit_length_bounds(2), rule gr0I) (use False in \<open>simp add: bit_length.simps\<close>)
  finally have s: "2 ^ ?s \<le> n" .
  have "n div 2 ^ ?s * 2 ^ ?s \<le> n" by (rule div_times_less_eq_dividend)
  moreover have "round53 n \<le> n div 2 ^ ?s * 2 ^ ?s + 2 ^ ?s" by (simp add: round53_def Let_def)
  ultimately show ?thesis using s by linarith
qed

section \<open>One completion\<close>

text \<open>A scaling factor \<open>m / 2 ^ k\<close> with \<open>1 < m / 2 ^ k \<le> 512\<close>.\<close>

definition scaling_ok :: "nat \<Rightarrow> nat \<Rightarrow> bool" where
  "scaling_ok m k \<longleftrightarrow> m < 2 ^ 53 \<and> 2 ^ k < m \<and> m \<le> 2 ^ (k + 9)"

lemma scale_count_value:
  assumes "c < 2 ^ 53" "scaling_ok m k"
  shows "scale_count (int c) (Finite (int m) (- int k)) = Inr (int (round53 (c * m) div 2 ^ k))"
proof -
  have c: "round53_int (int c) = int c" using assms(1) by (cases "c = 0") (simp_all add: round53_int_def round53_exact)
  have r: "round53_int (int c * int m) = int (round53 (c * m))"
  proof (cases "c * m = 0")
    case True
    then show ?thesis by (auto simp: round53_int_def round53_exact)
  next
    case False
    then show ?thesis by (simp add: round53_int_def nat_mult_distrib)
  qed
  have "round53 (c * m) \<le> 2 * (c * m)" by (rule round53_le)
  also have "\<dots> \<le> 2 * (c * 2 ^ (k + 9))" using assms(2) by (simp add: scaling_ok_def)
  also have "\<dots> < 2 * (2 ^ 53 * 2 ^ (k + 9))" using assms(1) by simp
  also have "\<dots> = 2 ^ 63 * 2 ^ k" by (simp add: power_add)
  finally have "round53 (c * m) div 2 ^ k < 2 ^ 63" by (simp add: less_mult_imp_div_less)
  then have "in_int64 (int (round53 (c * m) div 2 ^ k))" by (simp add: in_int64_def)
  moreover have "trunc_div (int (round53 (c * m))) (2 ^ k) = int (round53 (c * m) div 2 ^ k)"
    by (simp add: trunc_div_nonneg zdiv_int)
  moreover have "trunc_div (int (round53 (c * m))) 1 = int (round53 (c * m))" by (simp add: trunc_div_nonneg)
  ultimately show ?thesis
    by (cases "k = 0") (simp_all add: scale_count_def c r Let_def)
qed

lemma scaled_ge: "c < 2 ^ 53 \<Longrightarrow> scaling_ok m k \<Longrightarrow> c \<le> round53 (c * m) div 2 ^ k"
  using round53_representable [of c k "c * m"] by (simp add: scaling_ok_def less_eq_div_iff_mult_less_eq)

lemma scaled_gt:
  assumes "c + 1 < 2 ^ 53" "scaling_ok m k" "2 ^ k \<le> c * (m - 2 ^ k)"
  shows "c + 1 \<le> round53 (c * m) div 2 ^ k"
proof -
  have "(c + 1) * 2 ^ k \<le> c * 2 ^ k + c * (m - 2 ^ k)" using assms(3) by simp
  also have "\<dots> = c * m" using assms(2) by (simp add: scaling_ok_def flip: distrib_left)
  finally show ?thesis
    using round53_representable [of "c + 1" k "c * m"] assms(1) by (simp add: less_eq_div_iff_mult_less_eq)
qed

text \<open>The range after one completion.\<close>

definition next_range :: "nat \<Rightarrow> nat \<Rightarrow> nat \<Rightarrow> nat \<Rightarrow> nat" where
  "next_range mx m k r = min mx (round53 (r * m) div 2 ^ k)"

lemma OnCompletion_value:
  assumes "uniform_in_range uniform" "scaling_ok m k" "r < 2 ^ 53"
    "current_delay_range p = int r" "maximum_delay p = int mx" "scaling p = Finite (int m) (- int k)"
  shows "\<exists>d g'. OnCompletion uniform fresh p =
           Inr (d, p\<lparr>generator := Some g', current_delay_range := int (next_range mx m k r)\<rparr>) \<and>
         int (r div 2 div 1000) \<le> d \<and> d \<le> int (r div 1000)"
proof -
  define g where "g = (case generator p of None \<Rightarrow> fresh | Some g \<Rightarrow> g)"
  obtain d g' where u: "uniform (int (r div 2)) (int r) g = (d, g')" by (cases "uniform (int (r div 2)) (int r) g")
  have half: "trunc_div (int r) 2 = int (r div 2)" by (simp add: trunc_div_nonneg zdiv_int)
  have d: "int (r div 2) \<le> d" "d \<le> int r"
    using assms(1) u unfolding uniform_in_range_def by (metis fst_conv of_nat_le_iff div_le_dividend)+
  then have nn: "0 \<le> d" by linarith
  have "OnCompletion uniform fresh p =
     Inr (trunc_div d 1000, p\<lparr>generator := Some g', current_delay_range := int (next_range mx m k r)\<rparr>)"
    by (simp add: OnCompletion_def g_def [symmetric] assms(4-6) half u next_range_def min_def
        scale_count_value [OF assms(3,2)] zdiv_int [symmetric] del: bindR_eq_Inr_iff)
  moreover have "int (r div 2 div 1000) \<le> trunc_div d 1000" "trunc_div d 1000 \<le> int (r div 1000)"
    using zdiv_mono1 [OF d(1), of 1000] zdiv_mono1 [OF d(2), of 1000] nn by (simp_all add: trunc_div_nonneg zdiv_int)
  ultimately show ?thesis by blast
qed

lemma next_range_bounds:
  assumes "scaling_ok m k" "r < 2 ^ 53"
  shows "next_range mx m k r \<le> mx" "min mx r \<le> next_range mx m k r"
  using scaled_ge [OF assms(2,1)] by (simp_all add: next_range_def min_def)

lemma next_range_grows:
  assumes "scaling_ok m k" "r + 1 < 2 ^ 53" "2 ^ k \<le> r * (m - 2 ^ k)"
  shows "min mx (r + 1) \<le> next_range mx m k r"
  using scaled_gt [OF assms(2,1,3)] by (simp add: next_range_def min_def)

text \<open>The ranges of a run are the iterates of \<^const>\<open>next_range\<close>.\<close>

lemma backoff_run:
  assumes "uniform_in_range uniform" "scaling_ok m k" "r < 2 ^ 53" "mx < 2 ^ 53"
    "current_delay_range p = int r" "maximum_delay p = int mx" "scaling p = Finite (int m) (- int k)"
  shows "\<exists>ds p'. backoff_delays uniform gs p = Inr (ds, p') \<and>
           map fst ds = map (\<lambda>i. int ((next_range mx m k ^^ i) r)) [0..<length gs] \<and>
           (\<forall>(c, d) \<in> set ds. c div 2 div 1000 \<le> d \<and> d \<le> c div 1000)"
  using assms(3,5-)
proof (induction gs arbitrary: p r)
  case Nil
  then show ?case by simp
next
  case (Cons g gs)
  let ?r = "next_range mx m k r"
  obtain d g' where one: "OnCompletion uniform g p =
           Inr (d, p\<lparr>generator := Some g', current_delay_range := int ?r\<rparr>)"
    and d: "int (r div 2 div 1000) \<le> d" "d \<le> int (r div 1000)"
    using OnCompletion_value [OF assms(1,2) Cons.prems] by blast
  have "?r < 2 ^ 53" using next_range_bounds(1) [OF assms(2) Cons.prems(1), of mx] assms(4) by linarith
  with Cons.IH [of ?r "p\<lparr>generator := Some g', current_delay_range := int ?r\<rparr>"] Cons.prems obtain ds p' where
    rest: "backoff_delays uniform gs (p\<lparr>generator := Some g', current_delay_range := int ?r\<rparr>) = Inr (ds, p')"
      "map fst ds = map (\<lambda>i. int ((next_range mx m k ^^ i) ?r)) [0..<length gs]"
      "\<forall>(c, d) \<in> set ds. c div 2 div 1000 \<le> d \<and> d \<le> c div 1000" by auto
  have "map (\<lambda>i. int ((next_range mx m k ^^ i) r)) [0..<length (g # gs)] =
      int r # map (\<lambda>i. int ((next_range mx m k ^^ i) ?r)) [0..<length gs]"
    by (simp add: upt_conv_Cons map_Suc_upt [symmetric] comp_def funpow_swap1 del: upt_Suc map_Suc_upt)
  with one rest d Cons.prems show ?case by (simp add: zdiv_int)
qed

lemma iterate_bounds:
  assumes "scaling_ok m k" "r < 2 ^ 53" "mx < 2 ^ 53"
  shows "(next_range mx m k ^^ i) r < 2 ^ 53" "0 < i \<Longrightarrow> (next_range mx m k ^^ i) r \<le> mx"
    "min mx ((next_range mx m k ^^ i) r) \<le> (next_range mx m k ^^ Suc i) r"
proof -
  show lt: "(next_range mx m k ^^ i) r < 2 ^ 53"
    using next_range_bounds(1) [OF assms(1)] assms(2,3) by (induction i) (auto intro: le_less_trans)
  show "0 < i \<Longrightarrow> (next_range mx m k ^^ i) r \<le> mx"
    by (cases i) (simp_all add: next_range_def)
  show "min mx ((next_range mx m k ^^ i) r) \<le> (next_range mx m k ^^ Suc i) r"
    using next_range_bounds(2) [OF assms(1) lt] by simp
qed

text \<open>From a range that the factor moves at all, every completion adds at least a microsecond.\<close>

lemma iterate_grows:
  assumes "scaling_ok m k" "r < 2 ^ 53 - 1" "mx < 2 ^ 53 - 1" "2 ^ k \<le> r * (m - 2 ^ k)"
  shows "min mx (r + i) \<le> (next_range mx m k ^^ i) r"
proof (induction i)
  case 0
  then show ?case by simp
next
  case (Suc i)
  let ?x = "(next_range mx m k ^^ i) r"
  have lt: "?x < 2 ^ 53" using iterate_bounds(1) [OF assms(1), of r mx i] assms(2,3) by linarith
  show ?case
  proof (cases "mx \<le> ?x")
    case True
    then show ?thesis using next_range_bounds(2) [OF assms(1) lt, of mx] by simp
  next
    case False
    with Suc have x: "r + i \<le> ?x" "?x + 1 < 2 ^ 53" using assms(3) by auto
    then have "r * (m - 2 ^ k) \<le> ?x * (m - 2 ^ k)" by (intro mult_right_mono) simp_all
    then have "2 ^ k \<le> ?x * (m - 2 ^ k)" using assms(4) by (rule order_trans [rotated])
    then have "min mx (?x + 1) \<le> next_range mx m k ?x"
      by (rule next_range_grows [OF assms(1) x(2)])
    with x(1) show ?thesis by simp
  qed
qed

section \<open>Properties\<close>

lemma mk_ExponentialBackoffPolicy_ok:
  assumes "scaling_ok m k" "2 * initial div 1000 < 2 ^ 53"
  shows "mk_ExponentialBackoffPolicy have_ex (int initial) (int maximum) (Finite (int m) (- int k)) =
    Inr \<lparr>current_delay_range = int (2 * initial div 1000), maximum_delay = int (maximum div 1000),
         scaling = Finite (int m) (- int k), generator = None\<rparr>"
proof -
  have "int (2 * initial div 1000) = trunc_div (2 * int initial) 1000"
    "int (maximum div 1000) = trunc_div (int maximum) 1000"
    by (simp_all add: trunc_div_nonneg zdiv_int)
  moreover have "in_int64 (2 * int initial)" using assms(2) by (simp add: in_int64_def)
  moreover have "\<not> double_le_1 (Finite (int m) (- int k))"
    using assms(1) by (cases "k = 0") (simp_all add: double_le_1_def scaling_ok_def flip: of_nat_power_less_of_nat_cancel_iff)
  ultimately show ?thesis by (simp add: mk_ExponentialBackoffPolicy_def)
qed

text \<open>
  C19: the backoff policy returns a delay for every completion. With \<open>c\<close> the range before the
  completion the delay lies between \<open>c / 2\<close> and \<open>c\<close>, truncated to milliseconds; the first range is
  twice the initial delay, every later one is at most the maximum delay, the ranges never decrease
  below the maximum, and they reach it, gaining at least a microsecond each time, if the factor
  moves the first one. A factor of at most one is refused by the constructor.
\<close>

theorem ExponentialBackoff_delays:
  fixes uniform :: "int \<Rightarrow> int \<Rightarrow> 'g \<Rightarrow> int \<times> 'g" and initial maximum :: nat
  defines "r \<equiv> 2 * initial div 1000" and "mx \<equiv> maximum div 1000"
  assumes "uniform_in_range uniform" "scaling_ok m k" "r < 2 ^ 53 - 1" "mx < 2 ^ 53 - 1"
  shows "(\<exists>p ds p'. mk_ExponentialBackoffPolicy have_ex (int initial) (int maximum) (Finite (int m) (- int k)) = Inr p \<and>
     backoff_delays uniform gs p = Inr (ds, p') \<and> length ds = length gs \<and>
     (\<forall>(c, d) \<in> set ds. c div 2 div 1000 \<le> d \<and> d \<le> c div 1000) \<and>
     (\<forall>i < length ds. (i = 0 \<longrightarrow> fst (ds ! i) = int r) \<and> (0 < i \<longrightarrow> fst (ds ! i) \<le> int mx) \<and>
        (Suc i < length ds \<longrightarrow> min (int mx) (fst (ds ! i)) \<le> fst (ds ! Suc i)) \<and>
        (2 ^ k \<le> r * (m - 2 ^ k) \<longrightarrow> min (int mx) (int (r + i)) \<le> fst (ds ! i)))) \<and>
     (m' \<le> 2 ^ k \<longrightarrow>
       mk_ExponentialBackoffPolicy have_ex (int initial) (int maximum) (Finite (int m') (- int k)) =
         (Inl (Abn (ThrowInvalidArgument have_ex ''scaling factor must be > 1.0'')) :: fault + 'g ExponentialBackoffPolicy))"
proof (intro conjI impI)
  let ?p = "\<lparr>current_delay_range = int r, maximum_delay = int mx, scaling = Finite (int m) (- int k), generator = None\<rparr>"
  let ?it = "\<lambda>i. (next_range mx m k ^^ i) r"
  have lt: "r < 2 ^ 53" "mx < 2 ^ 53" using assms(5,6) by simp_all
  have in_int64: "in_int64 (2 * int initial)" using lt by (simp add: r_def in_int64_def)
  obtain ds p' where run: "backoff_delays uniform gs ?p = Inr (ds, p')"
    and fsts: "map fst ds = map (\<lambda>i. int (?it i)) [0..<length gs]"
    and bounds: "\<forall>(c, d) \<in> set ds. c div 2 div 1000 \<le> d \<and> d \<le> c div 1000"
    using backoff_run [OF assms(3,4) lt, where p = ?p and gs = gs] by auto
  have len: "length ds = length gs" using arg_cong [OF fsts, of length] by simp
  have nth: "fst (ds ! i) = int (?it i)" if "i < length ds" for i
    using arg_cong [OF fsts, of "\<lambda>xs. xs ! i"] that len by simp
  have "(i = 0 \<longrightarrow> fst (ds ! i) = int r) \<and> (0 < i \<longrightarrow> fst (ds ! i) \<le> int mx) \<and>
        (Suc i < length ds \<longrightarrow> min (int mx) (fst (ds ! i)) \<le> fst (ds ! Suc i)) \<and>
        (2 ^ k \<le> r * (m - 2 ^ k) \<longrightarrow> min (int mx) (int (r + i)) \<le> fst (ds ! i))" if i: "i < length ds" for i
    using iterate_bounds(2,3) [OF assms(4) lt, of i] iterate_grows [OF assms(4-6), of i] nth [OF i] nth [of "Suc i"]
    by (auto simp flip: of_nat_min simp del: funpow.simps)
  with mk_ExponentialBackoffPolicy_ok [OF assms(4) lt(1) [unfolded r_def], of have_ex maximum] run len bounds
  show "\<exists>p ds p'. mk_ExponentialBackoffPolicy have_ex (int initial) (int maximum) (Finite (int m) (- int k)) = Inr p \<and>
     backoff_delays uniform gs p = Inr (ds, p') \<and> length ds = length gs \<and>
     (\<forall>(c, d) \<in> set ds. c div 2 div 1000 \<le> d \<and> d \<le> c div 1000) \<and>
     (\<forall>i < length ds. (i = 0 \<longrightarrow> fst (ds ! i) = int r) \<and> (0 < i \<longrightarrow> fst (ds ! i) \<le> int mx) \<and>
        (Suc i < length ds \<longrightarrow> min (int mx) (fst (ds ! i)) \<le> fst (ds ! Suc i)) \<and>
        (2 ^ k \<le> r * (m - 2 ^ k) \<longrightarrow> min (int mx) (int (r + i)) \<le> fst (ds ! i)))"
    unfolding r_def mx_def by blast
  show "mk_ExponentialBackoffPolicy have_ex (int initial) (int maximum) (Finite (int m') (- int k)) =
         (Inl (Abn (ThrowInvalidArgument have_ex ''scaling factor must be > 1.0'')) :: fault + 'g ExponentialBackoffPolicy)"
    if "m' \<le> 2 ^ k"
    using that in_int64 by (cases "k = 0") (simp_all add: mk_ExponentialBackoffPolicy_def double_le_1_def)
qed

theorem ExponentialBackoff_delays_witness:
  "\<exists>p ds p'. mk_ExponentialBackoffPolicy True 10000000 500000000 (Finite 3 (- 1)) = Inr p \<and>
     backoff_delays (\<lambda>a b g. (a + int g mod (b - a + 1), Suc g)) (replicate 4 (7 :: nat)) p = Inr (ds, p') \<and> length ds = 4"
proof -
  have "uniform_in_range (\<lambda>a b g. (a + int g mod (b - a + 1), Suc g))"
    unfolding uniform_in_range_def
  proof (intro allI impI)
    fix a b :: int and g :: nat
    assume "a \<le> b"
    then have "0 < b - a + 1" by simp
    then have "0 \<le> int g mod (b - a + 1)" "int g mod (b - a + 1) < b - a + 1"
      by (simp_all only: pos_mod_sign pos_mod_bound)
    then show "a \<le> fst (a + int g mod (b - a + 1), Suc g) \<and> fst (a + int g mod (b - a + 1), Suc g) \<le> b"
      by simp
  qed
  moreover have "scaling_ok 3 1" by (simp add: scaling_ok_def)
  ultimately show ?thesis
    using ExponentialBackoff_delays [of "\<lambda>a b g. (a + int g mod (b - a + 1), Suc g)" 3 1 10000000 500000000 True
        "replicate 4 (7 :: nat)" 0]
    by auto
qed

text \<open>
  The first delay is not bounded by the maximum delay: the second example of the class
  documentation (10 minutes, at most 10 minutes and 2 seconds, factor 1.002) can wait 20 minutes
  before the first retry.
\<close>

lemma ExponentialBackoff_first_delay_exceeds_maximum:
  "\<exists>p p'. mk_ExponentialBackoffPolicy True 600000000000 602000000000 (Finite 4512606826625237 (- 52)) = Inr p \<and>
     OnCompletion (\<lambda>a b g. (b, g)) (0 :: nat) p = Inr (1200000, p') \<and> maximum_delay p = 602000000 \<and>
     current_delay_range p' = 602000000"
proof -
  have ok: "scaling_ok 4512606826625237 52" by (simp add: scaling_ok_def)
  from mk_ExponentialBackoffPolicy_ok [OF ok, of 600000000000 True 602000000000] 
  have mk: "mk_ExponentialBackoffPolicy True 600000000000 602000000000 (Finite 4512606826625237 (- 52)) =
    Inr \<lparr>current_delay_range = 1200000000, maximum_delay = 602000000,
         scaling = Finite 4512606826625237 (- 52), generator = None :: nat option\<rparr>" by simp
  let ?p = "\<lparr>current_delay_range = 1200000000, maximum_delay = 602000000,
         scaling = Finite 4512606826625237 (- 52), generator = None :: nat option\<rparr>"
  obtain x where "scale_count 1200000000 (Finite 4512606826625237 (- 52)) = Inr (int x)" "1200000000 \<le> x"
    using scale_count_value [OF _ ok, of 1200000000] scaled_ge [OF _ ok, of 1200000000] by simp
  then have "OnCompletion (\<lambda>a b g. (b, g)) 0 ?p =
      Inr (1200000, ?p\<lparr>current_delay_range := 602000000, generator := Some 0\<rparr>)"
    by (simp add: OnCompletion_def trunc_div_def del: bindR_eq_Inr_iff)
  with mk show ?thesis by auto
qed

end
