(* ===== verification/Pagination.thy ===== *)
theory Pagination
  imports Status_Or
begin

text \<open>
  Paginated lists as input ranges (\<^verbatim>\<open>internal/pagination_range.h\<close>). The request and response types
  are template parameters: \<open>set_page_token\<close> and \<open>mutable_next_page_token\<close> are their accessors,
  \<open>get_items\<close> the extractor and \<open>equals\<close> the message comparison given with them. The loader makes
  the RPC: it acts on a world \<open>'w\<close> outside the range.
\<close>

section \<open>The range and its iterators\<close>

text \<open>\<^verbatim>\<open>current_\<close> is an index into the page; an iterator has a null owner or refers to the range.\<close>

record ('q, 'a) PaginationRange =
  request :: 'q
  current_page :: "'a list"
  current :: nat
  next_page_token :: string
  on_last_page :: bool

record 'a PaginationIterator =
  owner :: bool
  it_value :: "'a status_or"

definition mk_PaginationRange :: "'q \<Rightarrow> ('q, 'a) PaginationRange" where
  "mk_PaginationRange req =
     \<lparr>request = req, current_page = [], current = 0, next_page_token = [], on_last_page = False\<rparr>"

definition kPastTheEndError :: Status where
  "kPastTheEndError = mk_Status kFailedPrecondition ''Cannot iterating past the end of ListObjectReader''"

text \<open>Returning the element at \<^verbatim>\<open>current_\<close>, which is advanced.\<close>

definition return_current ::
  "('q, 'a) PaginationRange \<Rightarrow> 'a PaginationIterator \<times> ('q, 'a) PaginationRange" where
  "return_current r =
     (\<lparr>owner = True, it_value = Inr (current_page r ! current r)\<rparr>, r\<lparr>current := current r + 1\<rparr>)"

definition GetNext ::
  "(string \<Rightarrow> 'q \<Rightarrow> 'q) \<Rightarrow> ('p \<Rightarrow> string) \<Rightarrow> ('p \<Rightarrow> 'a list) \<Rightarrow> ('q \<Rightarrow> 'w \<Rightarrow> 'p status_or \<times> 'w)
    \<Rightarrow> ('q, 'a) PaginationRange \<Rightarrow> 'w \<Rightarrow> 'a PaginationIterator \<times> ('q, 'a) PaginationRange \<times> 'w" where
  "GetNext set_page_token mutable_next_page_token get_items loader r w =
     (if current r = length (current_page r) then
        if on_last_page r then (\<lparr>owner = False, it_value = Inl kPastTheEndError\<rparr>, r, w)
        else
          let req = set_page_token (next_page_token r) (request r) in
          case loader req w of
            (Inl st, w') \<Rightarrow>
              (\<lparr>owner = True, it_value = Inl st\<rparr>,
               r\<lparr>request := req, next_page_token := [], current_page := [], on_last_page := True, current := 0\<rparr>, w')
          | (Inr response, w') \<Rightarrow>
              let tok = mutable_next_page_token response;
                  r' = r\<lparr>request := req, next_page_token := tok, current_page := get_items response, current := 0,
                         on_last_page := (if tok = [] then True else on_last_page r)\<rparr> in
              if current r' = length (current_page r')
              then (\<lparr>owner = False, it_value = Inl kPastTheEndError\<rparr>, r', w')
              else let (it, r'') = return_current r' in (it, r'', w')
      else let (it, r'') = return_current r in (it, r'', w))"

text \<open>\<^verbatim>\<open>operator++\<close> replaces the iterator by the owner's next one; a null owner is dereferenced.\<close>

definition PaginationIterator_inc ::
  "(('q, 'a) PaginationRange \<Rightarrow> 'w \<Rightarrow> 'a PaginationIterator \<times> ('q, 'a) PaginationRange \<times> 'w)
    \<Rightarrow> 'a PaginationIterator \<Rightarrow> ('q, 'a) PaginationRange \<Rightarrow> 'w
    \<Rightarrow> fault + 'a PaginationIterator \<times> ('q, 'a) PaginationRange \<times> 'w" where
  "PaginationIterator_inc get_next it r w = (if owner it then Inr (get_next r w) else Inl (UB NullDeref))"

text \<open>The default constructor leaves a default \<^verbatim>\<open>StatusOr\<close>, an unknown error, as the value.\<close>

definition PaginationIterator_default :: "'a PaginationIterator" where
  "PaginationIterator_default = \<lparr>owner = False, it_value = Inl (mk_Status kUnknown ''default'')\<rparr>"

definition PaginationRange_end :: "'a PaginationIterator" where
  "PaginationRange_end = PaginationIterator_default"

definition PaginationIterator_eq ::
  "('a \<Rightarrow> 'a \<Rightarrow> bool) \<Rightarrow> 'a PaginationIterator \<Rightarrow> 'a PaginationIterator \<Rightarrow> bool" where
  "PaginationIterator_eq equals lhs rhs =
     (if owner lhs \<noteq> owner rhs then False
      else if \<not> owner lhs then True
      else case (it_value lhs, it_value rhs) of
          (Inr x, Inr y) \<Rightarrow> equals x y
        | (Inl _, Inl _) \<Rightarrow> True
        | _ \<Rightarrow> False)"

definition PaginationIterator_neq ::
  "('a \<Rightarrow> 'a \<Rightarrow> bool) \<Rightarrow> 'a PaginationIterator \<Rightarrow> 'a PaginationIterator \<Rightarrow> bool" where
  "PaginationIterator_neq equals lhs rhs = (\<not> PaginationIterator_eq equals lhs rhs)"

section \<open>A range-based loop\<close>

text \<open>
  \<^verbatim>\<open>for (auto& x : range) out.push_back(x)\<close>: at most \<open>fuel\<close> comparisons with the end; \<open>None\<close> if the
  loop has not ended by then.
\<close>

fun range_for_from ::
  "nat \<Rightarrow> ('a \<Rightarrow> 'a \<Rightarrow> bool)
    \<Rightarrow> (('q, 'a) PaginationRange \<Rightarrow> 'w \<Rightarrow> 'a PaginationIterator \<times> ('q, 'a) PaginationRange \<times> 'w)
    \<Rightarrow> 'a PaginationIterator \<Rightarrow> ('q, 'a) PaginationRange \<Rightarrow> 'w
    \<Rightarrow> (fault + 'a status_or list \<times> ('q, 'a) PaginationRange \<times> 'w) option" where
  "range_for_from 0 equals get_next it r w = None"
| "range_for_from (Suc fuel) equals get_next it r w =
     (if PaginationIterator_neq equals it PaginationRange_end then
        (case PaginationIterator_inc get_next it r w of
           Inl e \<Rightarrow> Some (Inl e)
         | Inr (it', r', w') \<Rightarrow>
             map_option (\<lambda>res. bindR res (\<lambda>(xs, r'', w''). Inr (it_value it # xs, r'', w'')))
               (range_for_from fuel equals get_next it' r' w'))
      else Some (Inr ([], r, w)))"

definition range_for ::
  "nat \<Rightarrow> ('a \<Rightarrow> 'a \<Rightarrow> bool)
    \<Rightarrow> (('q, 'a) PaginationRange \<Rightarrow> 'w \<Rightarrow> 'a PaginationIterator \<times> ('q, 'a) PaginationRange \<times> 'w)
    \<Rightarrow> ('q, 'a) PaginationRange \<Rightarrow> 'w
    \<Rightarrow> (fault + 'a status_or list \<times> ('q, 'a) PaginationRange \<times> 'w) option" where
  "range_for fuel equals get_next r w =
     (let (it, r', w') = get_next r w in range_for_from fuel equals get_next it r' w')"

section \<open>What a service lists\<close>

text \<open>
  The pages a service returns when its tokens are followed to the end: the last one has no token, and a failure
  ends the list with a status. Any page may be empty. \<open>ws\<close> are the worlds after each request.
\<close>

inductive service_lists ::
  "(string \<Rightarrow> 'q \<Rightarrow> 'q) \<Rightarrow> ('p \<Rightarrow> string) \<Rightarrow> ('p \<Rightarrow> 'a list) \<Rightarrow> ('q \<Rightarrow> 'w \<Rightarrow> 'p status_or \<times> 'w)
    \<Rightarrow> 'q \<Rightarrow> string \<Rightarrow> 'w \<Rightarrow> 'a list list \<Rightarrow> Status option \<Rightarrow> 'w list \<Rightarrow> bool"
  for set_page_token mutable_next_page_token get_items loader where
  last_page: "loader (set_page_token tok req) w = (Inr resp, w') \<Longrightarrow> mutable_next_page_token resp = [] \<Longrightarrow>
    service_lists set_page_token mutable_next_page_token get_items loader req tok w [get_items resp] None [w']"
| failed: "loader (set_page_token tok req) w = (Inl st, w') \<Longrightarrow>
    service_lists set_page_token mutable_next_page_token get_items loader req tok w [] (Some st) [w']"
| page: "loader (set_page_token tok req) w = (Inr resp, w1) \<Longrightarrow> mutable_next_page_token resp \<noteq> [] \<Longrightarrow>
    service_lists set_page_token mutable_next_page_token get_items loader (set_page_token tok req)
      (mutable_next_page_token resp) w1 pages err ws \<Longrightarrow>
    service_lists set_page_token mutable_next_page_token get_items loader req tok w (get_items resp # pages) err (w1 # ws)"

text \<open>
  What a loop over the range delivers: the items of the pages before the first empty one, in order, and the
  failure if no page was empty; and the number of requests it makes.
\<close>

definition full_pages :: "'a list list \<Rightarrow> 'a list list" where
  "full_pages pages = takeWhile (\<lambda>p. p \<noteq> []) pages"

definition delivered :: "'a list list \<Rightarrow> Status option \<Rightarrow> 'a status_or list" where
  "delivered pages err = map Inr (concat (full_pages pages)) @
     (if [] \<in> set pages then [] else case err of None \<Rightarrow> [] | Some st \<Rightarrow> [Inl st])"

section \<open>Lemmas\<close>

lemma neq_end [simp]: "PaginationIterator_neq equals it PaginationRange_end \<longleftrightarrow> owner it"
  by (simp add: PaginationIterator_neq_def PaginationIterator_eq_def PaginationRange_end_def
      PaginationIterator_default_def)

text \<open>The loop that starts with the next element of the range, as \<^const>\<open>range_for\<close> does.\<close>

lemma range_for_step:
  assumes "get_next r w = (it, r', w')" "owner it"
    "range_for fuel equals get_next r' w' = Some (Inr (xs, r'', w''))"
  shows "range_for (Suc fuel) equals get_next r w = Some (Inr (it_value it # xs, r'', w''))"
  using assms by (auto simp: range_for_def PaginationIterator_inc_def split: prod.splits)

lemma range_for_stop:
  assumes "get_next r w = (it, r', w')" "\<not> owner it"
  shows "range_for (Suc fuel) equals get_next r w = Some (Inr ([], r', w'))"
  using assms by (simp add: range_for_def)

text \<open>The rest of the current page is delivered without any RPC.\<close>

lemma range_for_page:
  assumes "current r \<le> length (current_page r)"
    "range_for fuel equals (GetNext st nt gi loader) (r\<lparr>current := length (current_page r)\<rparr>) w
       = Some (Inr (ys, r', w'))"
  shows "range_for (length (current_page r) - current r + fuel) equals (GetNext st nt gi loader) r w
       = Some (Inr (map Inr (drop (current r) (current_page r)) @ ys, r', w'))"
  using assms
proof (induction "length (current_page r) - current r" arbitrary: r)
  case 0
  then have "r\<lparr>current := length (current_page r)\<rparr> = r" by simp
  with 0 show ?case by simp
next
  case (Suc n)
  let ?x = "current_page r ! current r" and ?r = "r\<lparr>current := current r + 1\<rparr>"
  from Suc.hyps(2) have lt: "current r < length (current_page r)" by linarith
  then have get: "GetNext st nt gi loader r w = (\<lparr>owner = True, it_value = Inr ?x\<rparr>, ?r, w)"
    by (simp add: GetNext_def return_current_def)
  have n: "n = length (current_page r) - Suc (current r)" using Suc.hyps(2) by simp
  have rest: "range_for (n + fuel) equals (GetNext st nt gi loader) ?r w =
      Some (Inr (map Inr (drop (Suc (current r)) (current_page r)) @ ys, r', w'))"
    using Suc.hyps(1) [of ?r] n Suc.prems lt by simp
  with n range_for_step [where it = "\<lparr>owner = True, it_value = Inr ?x\<rparr>", OF get _ rest] lt show ?case
    by (simp add: Suc_diff_Suc flip: Cons_nth_drop_Suc)
qed

text \<open>A range that is about to load a page.\<close>

definition at_page_end :: "'q \<Rightarrow> string \<Rightarrow> ('q, 'a) PaginationRange \<Rightarrow> bool" where
  "at_page_end req tok r \<longleftrightarrow> current r = length (current_page r) \<and> \<not> on_last_page r \<and>
     next_page_token r = tok \<and> request r = req"

definition loaded ::
  "'q \<Rightarrow> string \<Rightarrow> 'a list \<Rightarrow> ('q, 'a) PaginationRange \<Rightarrow> ('q, 'a) PaginationRange" where
  "loaded req tok items r = r\<lparr>request := req, next_page_token := tok, current_page := items, current := 0,
     on_last_page := (tok = [])\<rparr>"

lemma GetNext_loads:
  assumes "at_page_end req tok r" "loader (st tok req) w = (Inr resp, w')" "gi resp \<noteq> []"
  shows "GetNext st nt gi loader r w = GetNext st nt gi loader (loaded (st tok req) (nt resp) (gi resp) r) w'"
  using assms by (simp add: GetNext_def at_page_end_def loaded_def Let_def)

lemma range_for_cong: "g r w = g r' w' \<Longrightarrow> range_for fuel equals g r w = range_for fuel equals g r' w'"
  by (simp add: range_for_def)

lemma range_for_loads:
  assumes "at_page_end req tok r" "loader (st tok req) w = (Inr resp, w1)" "gi resp \<noteq> []"
    "range_for fuel equals (GetNext st nt gi loader)
       (loaded (st tok req) (nt resp) (gi resp) r\<lparr>current := length (gi resp)\<rparr>) w1 = Some (Inr (ys, r', w'))"
  shows "range_for (length (gi resp) + fuel) equals (GetNext st nt gi loader) r w
       = Some (Inr (map Inr (gi resp) @ ys, r', w'))"
proof -
  let ?r = "loaded (st tok req) (nt resp) (gi resp) r"
  have "range_for (length (current_page ?r) - current ?r + fuel) equals (GetNext st nt gi loader) ?r w1
       = Some (Inr (map Inr (drop (current ?r) (current_page ?r)) @ ys, r', w'))"
    by (rule range_for_page) (use assms(4) in \<open>simp_all add: loaded_def\<close>)
  then have "range_for (length (gi resp) + fuel) equals (GetNext st nt gi loader) ?r w1
       = Some (Inr (map Inr (gi resp) @ ys, r', w'))" by (simp add: loaded_def)
  moreover have "GetNext st nt gi loader r w = GetNext st nt gi loader ?r w1"
    by (rule GetNext_loads [where loader = loader]) (fact assms)+
  ultimately show ?thesis
    using range_for_cong [where g = "GetNext st nt gi loader" and r = r and r' = ?r and w = w and w' = w1] by simp
qed

lemma service_lists_worlds: "service_lists st nt gi loader req tok w pages err ws \<Longrightarrow> ws \<noteq> []"
  by (induction rule: service_lists.induct) simp_all

lemma concat_full_pages: "length (concat (full_pages pages)) \<le> length (concat pages)"
  unfolding full_pages_def by (induction pages) auto

text \<open>A page without items ends the loop, with or without a token.\<close>

lemma range_for_empty_page:
  assumes "at_page_end req tok r" "loader (st tok req) w = (Inr resp, w')" "gi resp = []"
  shows "\<exists>r'. range_for (Suc fuel) equals (GetNext st nt gi loader) r w = Some (Inr ([], r', w'))"
proof -
  from assms obtain r' where "GetNext st nt gi loader r w = (\<lparr>owner = False, it_value = Inl kPastTheEndError\<rparr>, r', w')"
    by (auto simp add: GetNext_def at_page_end_def Let_def)
  from range_for_stop [where get_next = "GetNext st nt gi loader" and fuel = fuel, OF this] show ?thesis by auto
qed

lemma range_for_lists:
  assumes "service_lists st nt gi loader req tok w pages err ws" "at_page_end req tok r"
  shows "\<exists>r'. range_for (length (concat (full_pages pages)) + 2 + extra) equals (GetNext st nt gi loader) r w =
     Some (Inr (delivered pages err, r', last (take (Suc (length (full_pages pages))) ws)))"
  using assms
proof (induction arbitrary: r)
  case (last_page tok req w resp w')
  show ?case
  proof (cases "gi resp = []")
    case True
    with range_for_empty_page [where fuel = "Suc extra" and st = st and loader = loader and gi = gi, OF last_page(3,1)] show ?thesis
      by (simp add: delivered_def full_pages_def)
  next
    case False
    let ?r = "loaded (st tok req) (nt resp) (gi resp) r\<lparr>current := length (gi resp)\<rparr>"
    have "range_for (2 + extra) equals (GetNext st nt gi loader) ?r w' = Some (Inr ([], ?r, w'))"
      using range_for_stop [where fuel = "Suc extra" and get_next = "GetNext st nt gi loader" and r = ?r] last_page(2)
      by (simp add: GetNext_def loaded_def)
    from range_for_loads [where st = st and loader = loader and gi = gi, OF last_page(3,1) False this] False show ?thesis
      by (auto simp: delivered_def full_pages_def)
  qed
next
  case (failed tok req w status w')
  let ?r = "r\<lparr>request := st tok req, next_page_token := [], current_page := [], on_last_page := True, current := 0\<rparr>"
  have get: "GetNext st nt gi loader r w = (\<lparr>owner = True, it_value = Inl status\<rparr>, ?r, w')"
    using failed by (simp add: GetNext_def at_page_end_def Let_def)
  have "range_for (Suc extra) equals (GetNext st nt gi loader) ?r w' = Some (Inr ([], ?r, w'))"
    using range_for_stop [where fuel = extra and get_next = "GetNext st nt gi loader" and r = ?r]
    by (simp add: GetNext_def)
  from range_for_step [where it = "\<lparr>owner = True, it_value = Inl status\<rparr>", OF get _ this] show ?case
    by (auto simp: delivered_def full_pages_def)
next
  case (page tok req w resp w1 pages err ws)
  show ?case
  proof (cases "gi resp = []")
    case True
    with range_for_empty_page [where fuel = "Suc extra" and st = st and loader = loader and gi = gi, OF page.prems page(1)] show ?thesis
      by (simp add: delivered_def full_pages_def)
  next
    case False
    let ?r = "loaded (st tok req) (nt resp) (gi resp) r\<lparr>current := length (gi resp)\<rparr>"
    have "at_page_end (st tok req) (nt resp) ?r" using page(2) by (simp add: at_page_end_def loaded_def)
    from page.IH [OF this] obtain r' where
      "range_for (length (concat (full_pages pages)) + 2 + extra) equals (GetNext st nt gi loader) ?r w1 =
        Some (Inr (delivered pages err, r', last (take (Suc (length (full_pages pages))) ws)))" by blast
    from range_for_loads [where st = st and loader = loader and gi = gi, OF page.prems page(1) False this]
      False service_lists_worlds [OF page(3)] show ?thesis
      by (auto simp: delivered_def full_pages_def add.assoc)
  qed
qed

section \<open>Properties\<close>

text \<open>
  C22: a loop over a pagination range ends, after as many comparisons as there are items and two. It
  delivers the items of the pages in order, each once, up to the first page that has no items, where it stops whether
  or not the service has more; if there is no such page it delivers every item, followed by the failure of the RPC if there was
  one. The service has then been asked exactly for the pages up to that one.
\<close>

theorem PaginationRange_enumerates:
  assumes "service_lists set_page_token nt get_items loader req [] w pages err ws"
    "length (concat pages) + 2 \<le> fuel"
  shows "\<exists>r'. range_for fuel equals (GetNext set_page_token nt get_items loader) (mk_PaginationRange req) w =
     Some (Inr (map Inr (concat (takeWhile (\<lambda>p. p \<noteq> []) pages)) @
         (if [] \<in> set pages then [] else case err of None \<Rightarrow> [] | Some st \<Rightarrow> [Inl st]),
       r', last (take (Suc (length (takeWhile (\<lambda>p. p \<noteq> []) pages))) ws)))"
proof -
  have "at_page_end req [] (mk_PaginationRange req)"
    by (simp add: at_page_end_def mk_PaginationRange_def)
  from range_for_lists [OF assms(1) this, where equals = equals and extra = "fuel - (length (concat (full_pages pages)) + 2)"]
  show ?thesis
    using le_add_diff_inverse [of "length (concat (full_pages pages)) + 2" fuel] assms(2) concat_full_pages [of pages]
    unfolding delivered_def full_pages_def by (simp only: le_trans add_le_mono1)
qed

text \<open>Requests and responses of a listing service: a token with items.\<close>

definition example_loader :: "string \<Rightarrow> string list \<Rightarrow> (string \<times> int list) status_or \<times> string list" where
  "example_loader token asked =
     ((if token = [] then Inr (''p2'', [1, 2]) else if token = ''p2'' then Inr (''p3'', [3])
       else Inl (mk_Status kUnavailable ''try again'')), asked @ [token])"

theorem PaginationRange_enumerates_witness:
  "\<exists>r'. range_for 5 (=) (GetNext (\<lambda>tok req. tok) fst snd example_loader) (mk_PaginationRange ''x'') [] =
     Some (Inr ([Inr 1, Inr 2, Inr 3, Inl (mk_Status kUnavailable ''try again'')], r', [[], ''p2'', ''p3'']))"
proof -
  let ?L = "service_lists (\<lambda>tok req. tok) fst snd example_loader"
  let ?err = "Some (mk_Status kUnavailable ''try again'')"
  have 1: "?L ''p2'' ''p3'' [[], ''p2''] [] ?err [[[], ''p2'', ''p3'']]"
    by (rule service_lists.failed) (simp add: example_loader_def)
  have 2: "?L [] ''p2'' [[]] [snd (''p3'', [3])] ?err [[[], ''p2''], [[], ''p2'', ''p3'']]"
    by (rule service_lists.page [where ?w1.0 = "[[], ''p2'']" and loader = example_loader and pages = "[]"
          and set_page_token = "\<lambda>tok req. tok"])
      (simp_all add: example_loader_def 1)
  have "?L ''x'' [] [] (snd (''p2'', [1, 2]) # [snd (''p3'', [3])]) ?err [[[]], [[], ''p2''], [[], ''p2'', ''p3'']]"
    by (rule service_lists.page [where ?w1.0 = "[[]]" and loader = example_loader
          and set_page_token = "\<lambda>tok req. tok"])
      (use 2 in \<open>simp_all add: example_loader_def\<close>)
  from PaginationRange_enumerates [OF this, of 5 "(=)"] show ?thesis by simp
qed

definition sparse_loader :: "string \<Rightarrow> string list \<Rightarrow> (string \<times> int list) status_or \<times> string list" where
  "sparse_loader token asked =
     ((if token = [] then Inr (''p2'', []) else Inr ([], [7])), asked @ [token])"

text \<open>
  A page without items but with a token ends the loop, although the service has more pages:
  the iterator returned compares equal to the end, while the range is not exhausted and a later
  call delivers the items that were missed.
\<close>

lemma PaginationRange_stops_at_empty_page:
  "\<exists>r. range_for 9 (=) (GetNext (\<lambda>tok req. tok) fst snd sparse_loader) (mk_PaginationRange ''x'') [] =
       Some (Inr ([], r, [[]])) \<and>
     (\<exists>r'. range_for 9 (=) (GetNext (\<lambda>tok req. tok) fst snd sparse_loader) r [[]] =
       Some (Inr ([Inr 7], r', [[], ''p2''])))"
  by (simp add: range_for_def GetNext_def mk_PaginationRange_def sparse_loader_def Let_def return_current_def
      numeral_eq_Suc PaginationIterator_inc_def)

end
