(* ===== verification/Async_Retry.thy ===== *)
theory Async_Retry
  imports Completion_Queue Retry_Policy Backoff_Policy
begin

text \<open>
  The asynchronous retry loop of \<^verbatim>\<open>internal/async_retry_unary_rpc.h\<close> on a completion queue. The retry
  and backoff policies are template parameters: \<open>on_failure\<close> and \<open>on_backoff\<close> stand for their virtual
  functions, \<open>perm\<close> for the test of permanent failures. The loop waits for one operation at a time;
  what gRPC reports for it is an event. A continuation attached to a future that is ready already,
  which happens when the queue was shut down, runs at once.
\<close>

section \<open>State\<close>

text \<open>The promise of the final result is empty or holds the value it was satisfied with.\<close>

record ('q, 'p, 'b, 'r) RetryAsyncUnaryRpc =
  location :: string
  rpc_retry_policy :: 'p
  rpc_backoff_policy :: 'b
  is_idempotent :: bool
  request :: 'q
  final_result :: "'r status_or option"

text \<open>The queue, the requests given to \<^verbatim>\<open>async_call\<close> and the delays waited for, in milliseconds.\<close>

record ('q, 'r) retry_world =
  rw_queue :: "'r CompletionQueueImpl"
  rw_calls :: "'q list"
  rw_delays :: "int list"

datatype 'r await = Waiting nat | Ready "'r notification" | Finished

text \<open>What a step finds: the time and the address of the next operation it may allocate.\<close>

record retry_context =
  rc_now :: int
  rc_tag :: nat

definition awaiting ::
  "nat \<Rightarrow> (fault + 'r notification option) \<times> 'r CompletionQueueImpl \<Rightarrow> fault + 'r await \<times> 'r CompletionQueueImpl" where
  "awaiting tag res = (case res of
     (Inl e, q) \<Rightarrow> Inl e
   | (Inr None, q) \<Rightarrow> Inr (Waiting tag, q)
   | (Inr (Some n), q) \<Rightarrow> Inr (Ready n, q))"

section \<open>The loop\<close>

definition DetailedStatus :: "string \<Rightarrow> string \<Rightarrow> Status \<Rightarrow> Status" where
  "DetailedStatus loc ctx status =
     mk_Status (st_code status) (loc @ ctx @ '', last error='' @ st_message status)"

text \<open>\<^verbatim>\<open>final_result_.set_value\<close> throws if the promise was satisfied before.\<close>

definition set_final_result ::
  "'r status_or \<Rightarrow> ('q, 'p, 'b, 'r) RetryAsyncUnaryRpc \<Rightarrow> fault + ('q, 'p, 'b, 'r) RetryAsyncUnaryRpc" where
  "set_final_result v self =
     (if final_result self = None then Inr (self\<lparr>final_result := Some v\<rparr>)
      else Inl (Abn (Thrown (future_error promise_already_satisfied))))"

definition finish ::
  "'r status_or \<Rightarrow> ('q, 'p, 'b, 'r) RetryAsyncUnaryRpc \<Rightarrow> ('q, 'r) retry_world
    \<Rightarrow> fault + 'r await \<times> ('q, 'p, 'b, 'r) RetryAsyncUnaryRpc \<times> ('q, 'r) retry_world" where
  "finish v self w = bindR (set_final_result v self) (\<lambda>self'. Inr (Finished, self', w))"

definition StartIteration ::
  "bool \<Rightarrow> 'r \<Rightarrow> retry_context \<Rightarrow> ('q, 'p, 'b, 'r) RetryAsyncUnaryRpc \<Rightarrow> ('q, 'r) retry_world
    \<Rightarrow> fault + 'r await \<times> ('q, 'p, 'b, 'r) RetryAsyncUnaryRpc \<times> ('q, 'r) retry_world" where
  "StartIteration have_ex default_response c self w =
     bindR (awaiting (rc_tag c) (MakeUnaryRpc have_ex (rc_tag c) default_response (rw_queue w))) (\<lambda>(aw, q).
       Inr (aw, self, w\<lparr>rw_queue := q,
         rw_calls := (case aw of Waiting _ \<Rightarrow> rw_calls w @ [request self] | _ \<Rightarrow> rw_calls w)\<rparr>))"

text \<open>The callback for a completed request.\<close>

definition RetryAsyncUnaryRpc_OnCompletion ::
  "bool \<Rightarrow> (Status \<Rightarrow> bool) \<Rightarrow> (int \<Rightarrow> Status \<Rightarrow> 'p \<Rightarrow> fault + bool \<times> 'p) \<Rightarrow> ('b \<Rightarrow> fault + int \<times> 'b) \<Rightarrow> retry_context
    \<Rightarrow> ('q, 'p, 'b, 'r) RetryAsyncUnaryRpc \<Rightarrow> ('q, 'r) retry_world \<Rightarrow> 'r status_or
    \<Rightarrow> fault + 'r await \<times> ('q, 'p, 'b, 'r) RetryAsyncUnaryRpc \<times> ('q, 'r) retry_world" where
  "RetryAsyncUnaryRpc_OnCompletion have_ex perm on_failure on_backoff c self w result = (case result of
     Inr r \<Rightarrow> finish (Inr r) self w
   | Inl status \<Rightarrow>
       if \<not> is_idempotent self
       then finish (Inl (DetailedStatus (location self) ''non-idempotent operation failed'' status)) self w
       else bindR (on_failure (rc_now c) status (rpc_retry_policy self)) (\<lambda>(retry, p).
         let self1 = self\<lparr>rpc_retry_policy := p\<rparr> in
         if \<not> retry
         then finish (Inl (DetailedStatus (location self)
                (if perm status then ''permanent failure'' else ''retry policy exhausted'') status)) self1 w
         else bindR (on_backoff (rpc_backoff_policy self1)) (\<lambda>(delay, b).
           bindR (awaiting (rc_tag c)
                   (MakeRelativeTimer have_ex (rc_tag c) (rc_now c) (delay * 1000000) (rw_queue w))) (\<lambda>(aw, q).
             Inr (aw, self1\<lparr>rpc_backoff_policy := b\<rparr>, w\<lparr>rw_queue := q, rw_delays := rw_delays w @ [delay]\<rparr>)))))"

text \<open>The continuation of the timer.\<close>

definition OnTimer ::
  "bool \<Rightarrow> 'r \<Rightarrow> retry_context \<Rightarrow> ('q, 'p, 'b, 'r) RetryAsyncUnaryRpc \<Rightarrow> ('q, 'r) retry_world \<Rightarrow> int status_or
    \<Rightarrow> fault + 'r await \<times> ('q, 'p, 'b, 'r) RetryAsyncUnaryRpc \<times> ('q, 'r) retry_world" where
  "OnTimer have_ex default_response c self w result = (case result of
     Inr tp \<Rightarrow> StartIteration have_ex default_response c self w
   | Inl status \<Rightarrow> finish (Inl (DetailedStatus (location self) ''timer error'' status)) self w)"

text \<open>The continuation for a notification; those of a stream do not occur here.\<close>

definition continue ::
  "bool \<Rightarrow> (Status \<Rightarrow> bool) \<Rightarrow> (int \<Rightarrow> Status \<Rightarrow> 'p \<Rightarrow> fault + bool \<times> 'p) \<Rightarrow> ('b \<Rightarrow> fault + int \<times> 'b) \<Rightarrow> 'r
    \<Rightarrow> retry_context \<Rightarrow> 'r notification \<Rightarrow> ('q, 'p, 'b, 'r) RetryAsyncUnaryRpc \<Rightarrow> ('q, 'r) retry_world
    \<Rightarrow> fault + 'r await \<times> ('q, 'p, 'b, 'r) RetryAsyncUnaryRpc \<times> ('q, 'r) retry_world" where
  "continue have_ex perm on_failure on_backoff default_response c n self w = (case n of
     UnaryValue v \<Rightarrow> RetryAsyncUnaryRpc_OnCompletion have_ex perm on_failure on_backoff c self w v
   | TimerValue v \<Rightarrow> OnTimer have_ex default_response c self w v
   | _ \<Rightarrow> Inr (Finished, self, w))"

text \<open>Continuations attached to ready futures run at once, at most \<open>fuel\<close> of them.\<close>

fun settle ::
  "nat \<Rightarrow> bool \<Rightarrow> (Status \<Rightarrow> bool) \<Rightarrow> (int \<Rightarrow> Status \<Rightarrow> 'p \<Rightarrow> fault + bool \<times> 'p) \<Rightarrow> ('b \<Rightarrow> fault + int \<times> 'b) \<Rightarrow> 'r
    \<Rightarrow> retry_context \<Rightarrow> fault + 'r await \<times> ('q, 'p, 'b, 'r) RetryAsyncUnaryRpc \<times> ('q, 'r) retry_world
    \<Rightarrow> (fault + 'r await \<times> ('q, 'p, 'b, 'r) RetryAsyncUnaryRpc \<times> ('q, 'r) retry_world) option" where
  "settle 0 have_ex perm on_failure on_backoff default_response c r = None"
| "settle (Suc fuel) have_ex perm on_failure on_backoff default_response c r = (case r of
     Inr (Ready n, self, w) \<Rightarrow>
       settle fuel have_ex perm on_failure on_backoff default_response c
         (continue have_ex perm on_failure on_backoff default_response c n self w)
   | _ \<Rightarrow> Some r)"

definition mk_RetryAsyncUnaryRpc ::
  "string \<Rightarrow> 'p \<Rightarrow> 'b \<Rightarrow> bool \<Rightarrow> 'q \<Rightarrow> ('q, 'p, 'b, 'r) RetryAsyncUnaryRpc" where
  "mk_RetryAsyncUnaryRpc loc p b idem req =
     \<lparr>location = loc, rpc_retry_policy = p, rpc_backoff_policy = b, is_idempotent = idem, request = req,
      final_result = None\<rparr>"

definition RetryAsyncUnaryRpc_Start ::
  "bool \<Rightarrow> (Status \<Rightarrow> bool) \<Rightarrow> (int \<Rightarrow> Status \<Rightarrow> 'p \<Rightarrow> fault + bool \<times> 'p) \<Rightarrow> ('b \<Rightarrow> fault + int \<times> 'b) \<Rightarrow> 'r
    \<Rightarrow> retry_context \<Rightarrow> ('q, 'r) retry_world \<Rightarrow> string \<Rightarrow> 'p \<Rightarrow> 'b \<Rightarrow> bool \<Rightarrow> 'q
    \<Rightarrow> (fault + 'r await \<times> ('q, 'p, 'b, 'r) RetryAsyncUnaryRpc \<times> ('q, 'r) retry_world) option" where
  "RetryAsyncUnaryRpc_Start have_ex perm on_failure on_backoff default_response c w loc p b idem req =
     settle 4 have_ex perm on_failure on_backoff default_response c
       (StartIteration have_ex default_response c (mk_RetryAsyncUnaryRpc loc p b idem req) w)"

section \<open>Events\<close>

text \<open>
  gRPC reports the operation the loop waits for: \<open>ev_ok\<close> is the flag, status and response are what it
  wrote for an RPC. The queue may have been shut down in the meantime.
\<close>

record 'r retry_event =
  ev_ok :: bool
  ev_status :: grpc_Status
  ev_response :: 'r
  ev_shutdown :: bool
  ev_context :: retry_context

definition write_rpc :: "'r retry_event \<Rightarrow> 'r AsyncGrpcOperation \<Rightarrow> 'r AsyncGrpcOperation" where
  "write_rpc ev op = (case op of
     UnaryOp u \<Rightarrow> UnaryOp (u\<lparr>rpc_status := ev_status ev, rpc_response := ev_response ev\<rparr>)
   | _ \<Rightarrow> op)"

definition shut :: "bool \<Rightarrow> 'r CompletionQueueImpl \<Rightarrow> 'r CompletionQueueImpl" where
  "shut down q = (if down then Shutdown_section q else q)"

text \<open>One turn of the event loop for the operation: find, notify (which runs the continuation), forget.\<close>

definition deliver ::
  "bool \<Rightarrow> (Status \<Rightarrow> bool) \<Rightarrow> (int \<Rightarrow> Status \<Rightarrow> 'p \<Rightarrow> fault + bool \<times> 'p) \<Rightarrow> ('b \<Rightarrow> fault + int \<times> 'b) \<Rightarrow> 'r
    \<Rightarrow> 'r retry_event \<Rightarrow> nat \<Rightarrow> ('q, 'p, 'b, 'r) RetryAsyncUnaryRpc \<Rightarrow> ('q, 'r) retry_world
    \<Rightarrow> (fault + 'r await \<times> ('q, 'p, 'b, 'r) RetryAsyncUnaryRpc \<times> ('q, 'r) retry_world) option" where
  "deliver have_ex perm on_failure on_backoff default_response ev tag self w =
     (case FindOperation have_ex tag (rw_queue w) of
        Inl e \<Rightarrow> Some (Inl e)
      | Inr op \<Rightarrow>
          map_option (\<lambda>r. bindR r (\<lambda>(aw, self', w').
              bindR (ForgetOperation have_ex tag (rw_queue w')) (\<lambda>q. Inr (aw, self', w'\<lparr>rw_queue := q\<rparr>))))
            (settle 4 have_ex perm on_failure on_backoff default_response (ev_context ev)
              (Inr (Ready (snd (Notify (ev_ok ev) (write_rpc ev op))), self,
                    w\<lparr>rw_queue := shut (ev_shutdown ev) (rw_queue w)\<rparr>))))"

text \<open>The loop over a sequence of events; events after the end are not its own.\<close>

fun retry_run ::
  "bool \<Rightarrow> (Status \<Rightarrow> bool) \<Rightarrow> (int \<Rightarrow> Status \<Rightarrow> 'p \<Rightarrow> fault + bool \<times> 'p) \<Rightarrow> ('b \<Rightarrow> fault + int \<times> 'b) \<Rightarrow> 'r
    \<Rightarrow> 'r retry_event list \<Rightarrow> fault + 'r await \<times> ('q, 'p, 'b, 'r) RetryAsyncUnaryRpc \<times> ('q, 'r) retry_world
    \<Rightarrow> (fault + 'r await \<times> ('q, 'p, 'b, 'r) RetryAsyncUnaryRpc \<times> ('q, 'r) retry_world) option" where
  "retry_run have_ex perm on_failure on_backoff default_response [] r = Some r"
| "retry_run have_ex perm on_failure on_backoff default_response (ev # evs) r = (case r of
     Inr (Waiting tag, self, w) \<Rightarrow>
       (case deliver have_ex perm on_failure on_backoff default_response ev tag self w of
          None \<Rightarrow> None
        | Some r' \<Rightarrow> retry_run have_ex perm on_failure on_backoff default_response evs r')
   | _ \<Rightarrow> Some r)"

section \<open>Policies that end\<close>

text \<open>What bounds the loop: every failure after which the policy still allows a retry uses some of it up.\<close>

locale bounded_retry_policy = retry_policy impl exhausted clone
  for impl :: "'p \<Rightarrow> fault + 'p" and exhausted :: "int \<Rightarrow> 'p \<Rightarrow> bool" and clone :: "int \<Rightarrow> 'p \<Rightarrow> fault + 'p" +
  fixes usable :: "'p \<Rightarrow> bool" and left :: "'p \<Rightarrow> nat"
  assumes impl_ok: "usable p \<Longrightarrow> \<exists>p'. impl p = Inr p'"
    and impl_left: "usable p \<Longrightarrow> impl p = Inr p' \<Longrightarrow> \<not> exhausted now p' \<Longrightarrow> usable p' \<and> left p' < left p"
begin

lemma on_failure_cases:
  assumes "usable p"
  obtains p' retry where "OnFailure perm impl exhausted now status p = Inr (retry, p')" "retry \<Longrightarrow> usable p' \<and> left p' < left p"
proof (cases "perm status")
  case True
  with that [of False p] show ?thesis by (simp add: OnFailure_def)
next
  case False
  obtain p' where "impl p = Inr p'" using impl_ok [OF assms] by blast
  with False that [of "\<not> exhausted now p'" p'] impl_left [OF assms, of p' now] show ?thesis by (simp add: OnFailure_def)
qed

end

definition error_count_wf :: "LimitedErrorCount \<Rightarrow> bool" where
  "error_count_wf p \<longleftrightarrow> 0 \<le> failure_count p \<and> failure_count p + 1 < 2 ^ 31 \<and> maximum_failures p + 1 < 2 ^ 31"

definition error_count_left :: "LimitedErrorCount \<Rightarrow> nat" where
  "error_count_left p = nat (maximum_failures p - failure_count p)"

interpretation bounded_count: bounded_retry_policy
  LimitedErrorCount_OnFailureImpl LimitedErrorCount_IsExhausted "\<lambda>now p. Inr (LimitedErrorCount_clone p)"
  error_count_wf error_count_left
  by unfold_locales
    (auto simp: LimitedErrorCount_OnFailureImpl_def LimitedErrorCount_IsExhausted_def error_count_wf_def
      error_count_left_def in_int32_def split: if_splits)

section \<open>Starting operations\<close>

abbreviation cancelled_call :: "'r notification" where
  "cancelled_call \<equiv> UnaryValue (Inl (mk_Status kCancelled ''call cancelled''))"

abbreviation cancelled_timer :: "'r notification" where
  "cancelled_timer \<equiv> TimerValue (Inl (mk_Status kCancelled ''timer canceled''))"

definition new_unary :: "'r \<Rightarrow> 'r AsyncGrpcOperation" where
  "new_unary r = UnaryOp \<lparr>rpc_context = True, rpc_status = \<lparr>error_code = GRPC_OK, error_message = []\<rparr>, rpc_response = r\<rparr>"

definition new_timer :: "int \<Rightarrow> 'r AsyncGrpcOperation" where
  "new_timer d = TimerOp \<lparr>timer_deadline = d, timer_alarm = True\<rparr>"

lemma MakeUnaryRpc_value:
  "MakeUnaryRpc he tag r q =
     (if shutdown q then (Inr (Some cancelled_call), q)
      else if tag \<notin> fst ` set (pending_ops q) then (Inr None, q\<lparr>pending_ops := pending_ops q @ [(tag, new_unary r)]\<rparr>)
      else (Inl (Abn (ThrowRuntimeError he ''assertion failure: insertion should succeed'')), q))"
  by (simp add: MakeUnaryRpc_def StartOperation_def AsyncUnaryRpcFuture_Notify_def start_call_def
      AsyncUnaryRpcFuture_Start_def new_unary_def map_of_None_iff)

lemma MakeRelativeTimer_value:
  "MakeRelativeTimer he tag now d q =
     (if shutdown q then (Inr (Some cancelled_timer), q)
      else if tag \<notin> fst ` set (pending_ops q) then (Inr None, q\<lparr>pending_ops := pending_ops q @ [(tag, new_timer (clock_sum now d))]\<rparr>)
      else (Inl (Abn (ThrowRuntimeError he ''assertion failure: insertion should succeed'')), q))"
  by (simp add: MakeRelativeTimer_def MakeDeadlineTimer_def StartOperation_def AsyncTimerFuture_Notify_def set_deadline_def
      AsyncTimerFuture_Set_def new_timer_def map_of_None_iff CreateAlarm_def)

lemma StartIteration_value:
  assumes "rc_tag c \<notin> fst ` set (pending_ops (rw_queue w))"
  shows "StartIteration he dr c self w =
     (if shutdown (rw_queue w) then Inr (Ready cancelled_call, self, w)
      else Inr (Waiting (rc_tag c), self, w\<lparr>rw_queue := (rw_queue w)\<lparr>pending_ops := pending_ops (rw_queue w) @ [(rc_tag c, new_unary dr)]\<rparr>,
             rw_calls := rw_calls w @ [request self]\<rparr>))"
  using assms by (simp add: StartIteration_def MakeUnaryRpc_value awaiting_def)

text \<open>What a continuation has done when it returns.\<close>

definition ended :: "('q, 'p, 'b, 'r) RetryAsyncUnaryRpc \<Rightarrow> ('q, 'r) retry_world
    \<Rightarrow> 'r await \<times> ('q, 'p, 'b, 'r) RetryAsyncUnaryRpc \<times> ('q, 'r) retry_world \<Rightarrow> bool" where
  "ended self w r \<longleftrightarrow> (case r of (aw, self', w') \<Rightarrow> aw = Finished \<and> final_result self' \<noteq> None \<and>
     rw_queue w' = rw_queue w \<and> rw_calls w' = rw_calls w)"

lemma finish_value:
  "final_result self = None \<Longrightarrow> finish v self w = Inr (Finished, self\<lparr>final_result := Some v\<rparr>, w)"
  by (simp add: finish_def set_final_result_def)

context bounded_retry_policy
begin

lemma settle_unary:
  assumes "final_result self = None" "usable (rpc_retry_policy self)" "B (rpc_backoff_policy self)"
    "\<And>b. B b \<Longrightarrow> \<exists>d b'. bo b = Inr (d, b') \<and> B b'" "rc_tag c \<notin> fst ` set (pending_ops (rw_queue w))"
  shows "\<exists>r. settle (Suc (Suc (Suc k))) he perm (OnFailure perm impl exhausted) bo dr c (Inr (Ready (UnaryValue v), self, w))
      = Some (Inr r) \<and>
    (ended self w r \<or>
     (\<exists>p b d. is_idempotent self \<and> \<not> shutdown (rw_queue w) \<and> usable p \<and> B b \<and> left p < left (rpc_retry_policy self) \<and>
       r = (Waiting (rc_tag c), self\<lparr>rpc_retry_policy := p, rpc_backoff_policy := b\<rparr>,
            w\<lparr>rw_queue := (rw_queue w)\<lparr>pending_ops := pending_ops (rw_queue w) @ [(rc_tag c, new_timer (clock_sum (rc_now c) (d * 1000000)))]\<rparr>,
              rw_delays := rw_delays w @ [d]\<rparr>)))"
proof (cases v)
  case (Inr x)
  with assms(1) show ?thesis
    by (auto simp: continue_def RetryAsyncUnaryRpc_OnCompletion_def finish_value ended_def)
next
  case (Inl status)
  show ?thesis
  proof (cases "is_idempotent self")
    case False
    with Inl assms(1) show ?thesis
      by (auto simp: continue_def RetryAsyncUnaryRpc_OnCompletion_def finish_value ended_def)
  next
    case True
    obtain p retry where f: "OnFailure perm impl exhausted (rc_now c) status (rpc_retry_policy self) = Inr (retry, p)"
      and r: "retry \<Longrightarrow> usable p \<and> left p < left (rpc_retry_policy self)" using on_failure_cases [OF assms(2)] by metis
    show ?thesis
    proof (cases retry)
      case False
      with Inl True f assms(1) show ?thesis
        by (auto simp: continue_def RetryAsyncUnaryRpc_OnCompletion_def finish_value ended_def)
    next
      case retry: True
      obtain d b where b: "bo (rpc_backoff_policy self) = Inr (d, b)" "B b" using assms(3,4) by blast
      show ?thesis
      proof (cases "shutdown (rw_queue w)")
        case sd: True
        with Inl True retry f b assms(1) show ?thesis
          by (auto simp: continue_def RetryAsyncUnaryRpc_OnCompletion_def MakeRelativeTimer_value awaiting_def OnTimer_def
              finish_value ended_def)
      next
        case sd: False
        with Inl True retry f b assms(5) r show ?thesis
          by (auto simp: continue_def RetryAsyncUnaryRpc_OnCompletion_def MakeRelativeTimer_value awaiting_def)
      qed
    qed
  qed
qed

lemma settle_timer:
  assumes "final_result self = None" "usable (rpc_retry_policy self)" "B (rpc_backoff_policy self)"
    "\<And>b. B b \<Longrightarrow> \<exists>d b'. bo b = Inr (d, b') \<and> B b'" "rc_tag c \<notin> fst ` set (pending_ops (rw_queue w))"
  shows "\<exists>r. settle 4 he perm (OnFailure perm impl exhausted) bo dr c (Inr (Ready (TimerValue v), self, w)) = Some (Inr r) \<and>
    (ended self w r \<or>
     \<not> shutdown (rw_queue w) \<and>
       r = (Waiting (rc_tag c), self,
            w\<lparr>rw_queue := (rw_queue w)\<lparr>pending_ops := pending_ops (rw_queue w) @ [(rc_tag c, new_unary dr)]\<rparr>,
              rw_calls := rw_calls w @ [request self]\<rparr>))"
proof (cases v)
  case (Inl status)
  with assms(1) show ?thesis by (auto simp: numeral_eq_Suc continue_def OnTimer_def finish_value ended_def)
next
  case (Inr tp)
  show ?thesis
  proof (cases "shutdown (rw_queue w)")
    case True
    have "settle 4 he perm (OnFailure perm impl exhausted) bo dr c (Inr (Ready (TimerValue v), self, w)) =
        settle 3 he perm (OnFailure perm impl exhausted) bo dr c (Inr (Ready cancelled_call, self, w))"
      using Inr True assms(5) by (simp add: numeral_eq_Suc continue_def OnTimer_def StartIteration_value del: settle.simps(2))
        (simp add: continue_def OnTimer_def StartIteration_value)
    with settle_unary [where k = 0 and v = "Inl (mk_Status kCancelled ''call cancelled'')", OF assms(1-5)] True show ?thesis
      by (auto simp: numeral_eq_Suc simp del: settle.simps)
  next
    case False
    with Inr assms(5) show ?thesis by (simp add: numeral_eq_Suc continue_def OnTimer_def StartIteration_value)
  qed
qed

end

section \<open>Runs\<close>

text \<open>
  Between events: \<open>K\<close> are the addresses of other operations in the queue, \<open>bound\<close> the number of calls
  the loop may make.
\<close>

definition retry_ok ::
  "('p \<Rightarrow> bool) \<Rightarrow> ('p \<Rightarrow> nat) \<Rightarrow> ('b \<Rightarrow> bool) \<Rightarrow> nat set \<Rightarrow> nat \<Rightarrow> 'q
    \<Rightarrow> 'r await \<times> ('q, 'p, 'b, 'r) RetryAsyncUnaryRpc \<times> ('q, 'r) retry_world \<Rightarrow> bool" where
  "retry_ok usable left B K bound req st \<longleftrightarrow> (case st of (aw, self, w) \<Rightarrow>
     set (rw_calls w) \<subseteq> {req} \<and> length (rw_calls w) \<le> bound \<and>
     (case aw of
        Ready n \<Rightarrow> False
      | Finished \<Rightarrow> final_result self \<noteq> None
      | Waiting t \<Rightarrow> final_result self = None \<and> usable (rpc_retry_policy self) \<and> B (rpc_backoff_policy self) \<and>
          request self = req \<and> fst ` set (pending_ops (rw_queue w)) \<subseteq> insert t K \<and>
          ((\<exists>u. map_of (pending_ops (rw_queue w)) t = Some (UnaryOp u)) \<and>
             (is_idempotent self \<longrightarrow> length (rw_calls w) + left (rpc_retry_policy self) \<le> bound) \<or>
           (\<exists>tm. map_of (pending_ops (rw_queue w)) t = Some (TimerOp tm)) \<and>
             length (rw_calls w) + left (rpc_retry_policy self) < bound)))"

text \<open>How many more events the loop can take.\<close>

definition retry_rank ::
  "('p \<Rightarrow> nat) \<Rightarrow> 'r await \<times> ('q, 'p, 'b, 'r) RetryAsyncUnaryRpc \<times> ('q, 'r) retry_world \<Rightarrow> nat" where
  "retry_rank left st = (case st of (aw, self, w) \<Rightarrow> (case aw of
     Waiting t \<Rightarrow> (case map_of (pending_ops (rw_queue w)) t of
         Some (UnaryOp u) \<Rightarrow> 2 * left (rpc_retry_policy self) + 1
       | _ \<Rightarrow> 2 * left (rpc_retry_policy self) + 2)
   | _ \<Rightarrow> 0))"

lemma shut_simps [simp]: "pending_ops (shut d q) = pending_ops q"
  by (simp add: shut_def Shutdown_section_def)

text \<open>Forgetting the old operation after a new one was added at the end.\<close>

lemma forget_old:
  assumes "t \<in> fst ` set xs" "tag \<noteq> t" "tag \<notin> fst ` set xs" "fst ` set xs \<subseteq> insert t K"
  shows "fst ` set (filter (\<lambda>kv. fst kv \<noteq> t) (xs @ [(tag, op)])) \<subseteq> insert tag K"
    "map_of (filter (\<lambda>kv. fst kv \<noteq> t) (xs @ [(tag, op)])) tag = Some op"
proof -
  show "fst ` set (filter (\<lambda>kv. fst kv \<noteq> t) (xs @ [(tag, op)])) \<subseteq> insert tag K" using assms by auto
  have "tag \<notin> fst ` set (filter (\<lambda>kv. fst kv \<noteq> t) xs)" using assms(3) by auto
  from map_of_snoc [OF this] assms(2) show "map_of (filter (\<lambda>kv. fst kv \<noteq> t) (xs @ [(tag, op)])) tag = Some op"
    by simp
qed

lemma deliver_from_settle:
  assumes "map_of (pending_ops (rw_queue w)) t = Some op"
    "settle 4 he perm f bo dr (ev_context ev)
       (Inr (Ready (snd (Notify (ev_ok ev) (write_rpc ev op))), self, w\<lparr>rw_queue := shut (ev_shutdown ev) (rw_queue w)\<rparr>))
       = Some (Inr (aw, self', w'))"
    "t \<in> fst ` set (pending_ops (rw_queue w'))"
  shows "deliver he perm f bo dr ev t self w = Some (Inr (aw, self',
     w'\<lparr>rw_queue := (rw_queue w')\<lparr>pending_ops := filter (\<lambda>kv. fst kv \<noteq> t) (pending_ops (rw_queue w'))\<rparr>\<rparr>))"
  using assms by (simp add: deliver_def FindOperation_def ForgetOperation_def)

text \<open>A continuation waits for no other operation than the one it may have allocated.\<close>

lemma awaiting_waits: "awaiting tag res = Inr (Waiting t, q) \<Longrightarrow> t = tag"
  by (auto simp: awaiting_def split: prod.splits sum.splits option.splits)

lemma StartIteration_waits: "StartIteration he dr c self w = Inr (Waiting t, self', w') \<Longrightarrow> t = rc_tag c"
  by (auto simp: StartIteration_def dest: awaiting_waits)

lemma continue_waits: "continue he perm f bo dr c n self w = Inr (Waiting t, self', w') \<Longrightarrow> t = rc_tag c"
  by (auto simp: continue_def RetryAsyncUnaryRpc_OnCompletion_def OnTimer_def finish_def Let_def
      split: notification.splits sum.splits if_splits dest: StartIteration_waits awaiting_waits)

lemma settle_waits:
  "settle k he perm f bo dr c r = Some (Inr (Waiting t, self', w')) \<Longrightarrow>
     (\<And>self w. r = Inr (Waiting t, self, w) \<Longrightarrow> t = rc_tag c) \<Longrightarrow> t = rc_tag c"
proof (induction k arbitrary: r)
  case 0
  then show ?case by simp
next
  case (Suc k)
  show ?case
  proof (cases "\<exists>n self w. r = Inr (Ready n, self, w)")
    case True
    then obtain n self w where r: "r = Inr (Ready n, self, w)" by blast
    show ?thesis
      by (rule Suc.IH [of "continue he perm f bo dr c n self w"]) (use Suc.prems(1) r continue_waits in auto)
  next
    case False
    with Suc.prems show ?thesis by (auto split: sum.splits prod.splits await.splits)
  qed
qed

lemma deliver_waits:
  assumes "deliver he perm f bo dr ev t self w = Some (Inr r)" "fst r = Waiting t'"
  shows "t' = rc_tag (ev_context ev)"
proof -
  obtain op self' w' where "settle 4 he perm f bo dr (ev_context ev)
       (Inr (Ready (snd (Notify (ev_ok ev) (write_rpc ev op))), self, w\<lparr>rw_queue := shut (ev_shutdown ev) (rw_queue w)\<rparr>))
       = Some (Inr (Waiting t', self', w'))"
    using assms by (cases r) (auto simp: deliver_def split: sum.splits)
  then show ?thesis by (rule settle_waits) simp
qed

lemma notify_unary: "\<exists>v. snd (Notify ok (write_rpc ev (UnaryOp u))) = UnaryValue v"
  by (simp add: write_rpc_def)

lemma notify_timer: "\<exists>v. snd (Notify ok (write_rpc ev (TimerOp t))) = TimerValue v"
  by (simp add: write_rpc_def)

context bounded_retry_policy
begin

lemma deliver_ok:
  fixes self :: "('q, 'p, 'b, 'r) RetryAsyncUnaryRpc"
  assumes ok: "retry_ok usable left B K bound req (Waiting t, self, w)"
    and bo: "\<And>b. B b \<Longrightarrow> \<exists>d b'. bo b = Inr (d, b') \<and> B b'"
    and tag: "rc_tag (ev_context ev) \<notin> insert t K"
  shows "\<exists>r. deliver he perm (OnFailure perm impl exhausted) bo dr ev t self w = Some (Inr r) \<and>
     retry_ok usable left B K bound req r \<and> retry_rank left r < retry_rank left (Waiting t, self, w)"
proof -
  let ?w = "w\<lparr>rw_queue := shut (ev_shutdown ev) (rw_queue w)\<rparr>" and ?c = "ev_context ev"
  let ?P = "pending_ops (rw_queue w)"
  have four: "Suc (Suc (Suc 1)) = 4" by simp
  have facts: "final_result self = None" "usable (rpc_retry_policy self)" "B (rpc_backoff_policy self)" "request self = req"
    "fst ` set ?P \<subseteq> insert t K" "set (rw_calls w) \<subseteq> {req}" "length (rw_calls w) \<le> bound"
    using ok by (simp_all add: retry_ok_def)
  have fresh: "rc_tag ?c \<notin> fst ` set (pending_ops (rw_queue ?w))" "rc_tag ?c \<noteq> t" using facts(5) tag by auto
  have ended_ok: "\<exists>r'. deliver he perm (OnFailure perm impl exhausted) bo dr ev t self w = Some (Inr r') \<and>
      retry_ok usable left B K bound req r' \<and> retry_rank left r' < retry_rank left (Waiting t, self, w)"
    if op: "map_of ?P t = Some op" and st: "settle 4 he perm (OnFailure perm impl exhausted) bo dr ?c
        (Inr (Ready (snd (Notify (ev_ok ev) (write_rpc ev op))), self, ?w)) = Some (Inr r)" and "ended self ?w r" for r op
  proof -
    obtain aw self' w' where r: "r = (aw, self', w')" by (cases r)
    with that(3) have e: "aw = Finished" "final_result self' \<noteq> None" "rw_queue w' = rw_queue ?w" "rw_calls w' = rw_calls w"
      by (simp_all add: ended_def)
    have "t \<in> fst ` set (pending_ops (rw_queue w'))" using op e(3) by (force dest: map_of_SomeD)
    from deliver_from_settle [OF op st [unfolded r] this] e facts(6,7) show ?thesis
      by (auto simp: retry_ok_def retry_rank_def split: option.splits AsyncGrpcOperation.splits)
  qed
  from ok consider
      u where "map_of ?P t = Some (UnaryOp u)" "is_idempotent self \<longrightarrow> length (rw_calls w) + left (rpc_retry_policy self) \<le> bound"
    | tm where "map_of ?P t = Some (TimerOp tm)" "length (rw_calls w) + left (rpc_retry_policy self) < bound"
    by (auto simp: retry_ok_def)
  then show ?thesis
  proof cases
    case 1
    have t: "t \<in> fst ` set ?P" using 1(1) by (force dest: map_of_SomeD)
    obtain v where v: "snd (Notify (ev_ok ev) (write_rpc ev (UnaryOp u))) = UnaryValue v" using notify_unary by blast
    obtain r where st: "settle 4 he perm (OnFailure perm impl exhausted) bo dr ?c (Inr (Ready (UnaryValue v), self, ?w)) = Some (Inr r)"
      and cases: "ended self ?w r \<or>
     (\<exists>p b d. is_idempotent self \<and> \<not> shutdown (rw_queue ?w) \<and> usable p \<and> B b \<and> left p < left (rpc_retry_policy self) \<and>
       r = (Waiting (rc_tag ?c), self\<lparr>rpc_retry_policy := p, rpc_backoff_policy := b\<rparr>,
            ?w\<lparr>rw_queue := (rw_queue ?w)\<lparr>pending_ops := pending_ops (rw_queue ?w) @ [(rc_tag ?c, new_timer (clock_sum (rc_now ?c) (d * 1000000)))]\<rparr>,
              rw_delays := rw_delays ?w @ [d]\<rparr>))"
      using settle_unary [where k = 1 and he = he and v = v and c = ?c and bo = bo and dr = dr and perm = perm,
          OF facts(1-3) bo fresh(1), unfolded four] by blast
    from cases show ?thesis
    proof (elim disjE exE conjE)
      assume "ended self ?w r"
      from ended_ok [OF 1(1) st [folded v] this] show ?thesis .
    next
      fix p b d
      assume a: "is_idempotent self" "usable p" "B b" "left p < left (rpc_retry_policy self)"
        and r: "r = (Waiting (rc_tag ?c), self\<lparr>rpc_retry_policy := p, rpc_backoff_policy := b\<rparr>,
            ?w\<lparr>rw_queue := (rw_queue ?w)\<lparr>pending_ops := pending_ops (rw_queue ?w) @ [(rc_tag ?c, new_timer (clock_sum (rc_now ?c) (d * 1000000)))]\<rparr>,
              rw_delays := rw_delays ?w @ [d]\<rparr>)"
      note d = deliver_from_settle [OF 1(1) st [folded v, unfolded r]]
      note fo = forget_old [OF t fresh(2), where K = K, of "new_timer (clock_sum (rc_now ?c) (d * 1000000))"]
      from d fo a facts 1 fresh t show ?thesis
        by (simp add: retry_ok_def retry_rank_def new_timer_def image_Un)
    qed
  next
    case 2
    have t: "t \<in> fst ` set ?P" using 2(1) by (force dest: map_of_SomeD)
    obtain v where v: "snd (Notify (ev_ok ev) (write_rpc ev (TimerOp tm))) = TimerValue v" using notify_timer by blast
    obtain r where st: "settle 4 he perm (OnFailure perm impl exhausted) bo dr ?c (Inr (Ready (TimerValue v), self, ?w)) = Some (Inr r)"
      and cases: "ended self ?w r \<or>
       r = (Waiting (rc_tag ?c), self,
            ?w\<lparr>rw_queue := (rw_queue ?w)\<lparr>pending_ops := pending_ops (rw_queue ?w) @ [(rc_tag ?c, new_unary dr)]\<rparr>,
              rw_calls := rw_calls ?w @ [request self]\<rparr>)"
      using settle_timer [where he = he and v = v and c = ?c and bo = bo and dr = dr and perm = perm,
          OF facts(1-3) bo fresh(1)] by blast
    from cases show ?thesis
    proof
      assume "ended self ?w r"
      from ended_ok [OF 2(1) st [folded v] this] show ?thesis .
    next
      assume r: "r = (Waiting (rc_tag ?c), self,
            ?w\<lparr>rw_queue := (rw_queue ?w)\<lparr>pending_ops := pending_ops (rw_queue ?w) @ [(rc_tag ?c, new_unary dr)]\<rparr>,
              rw_calls := rw_calls ?w @ [request self]\<rparr>)"
      note d = deliver_from_settle [OF 2(1) st [folded v, unfolded r]]
      note fo = forget_old [OF t fresh(2), where K = K, of "new_unary dr"]
      from d fo facts 2 fresh t show ?thesis
        by (simp add: retry_ok_def retry_rank_def new_unary_def image_Un)
    qed
  qed
qed

end

section \<open>Runs of any length\<close>

definition event_tags :: "'r retry_event list \<Rightarrow> nat list" where
  "event_tags evs = map (\<lambda>ev. rc_tag (ev_context ev)) evs"

lemma event_tags_simps [simp]:
  "event_tags [] = []" "event_tags (ev # evs) = rc_tag (ev_context ev) # event_tags evs"
  by (simp_all add: event_tags_def)

context bounded_retry_policy
begin

lemma run_ok:
  fixes st :: "'r await \<times> ('q, 'p, 'b, 'r) RetryAsyncUnaryRpc \<times> ('q, 'r) retry_world"
  assumes "retry_ok usable left B K bound req st"
    and bo: "\<And>b. B b \<Longrightarrow> \<exists>d b'. bo b = Inr (d, b') \<and> B b'"
    and "distinct (event_tags evs)" "set (event_tags evs) \<inter> K = {}" "\<forall>t. fst st = Waiting t \<longrightarrow> t \<notin> set (event_tags evs)"
  shows "\<exists>r. retry_run he perm (OnFailure perm impl exhausted) bo dr evs (Inr st) = Some (Inr r) \<and>
     retry_ok usable left B K bound req r \<and> (retry_rank left st \<le> length evs \<longrightarrow> fst r = Finished)"
  using assms(1,3-)
proof (induction evs arbitrary: st)
  case Nil
  obtain aw self w where st: "st = (aw, self, w)" by (cases st)
  with Nil show ?case
    by (cases aw) (auto simp: retry_ok_def retry_rank_def split: option.splits AsyncGrpcOperation.splits)
next
  case (Cons ev evs)
  obtain aw self w where st: "st = (aw, self, w)" by (cases st)
  show ?case
  proof (cases aw)
    case (Waiting t)
    have "rc_tag (ev_context ev) \<notin> insert t K" using Cons.prems(3,4) by (auto simp: st Waiting)
    from deliver_ok [where bo = bo and he = he and perm = perm and dr = dr, OF Cons.prems(1) [unfolded st Waiting] bo this] obtain r where
      r: "deliver he perm (OnFailure perm impl exhausted) bo dr ev t self w = Some (Inr r)"
      "retry_ok usable left B K bound req r" "retry_rank left r < retry_rank left (Waiting t, self, w)" by blast
    have next_tag: "t' = rc_tag (ev_context ev)" if "fst r = Waiting t'" for t'
      using deliver_waits [OF r(1)] that by blast
    have "\<exists>r'. retry_run he perm (OnFailure perm impl exhausted) bo dr evs (Inr r) = Some (Inr r') \<and>
       retry_ok usable left B K bound req r' \<and> (retry_rank left r \<le> length evs \<longrightarrow> fst r' = Finished)"
      using Cons.prems next_tag r(2) by (intro Cons.IH) auto
    with r(1,3) show ?thesis by (auto simp: st Waiting)
  next
    case (Ready n)
    with Cons.prems(1) show ?thesis by (simp add: st retry_ok_def)
  next
    case Finished
    with Cons.prems(1) show ?thesis by (auto simp: st)
  qed
qed

end

section \<open>The policies of the library\<close>

definition backoff_usable :: "nat \<Rightarrow> nat \<Rightarrow> 'g ExponentialBackoffPolicy \<Rightarrow> bool" where
  "backoff_usable m k b \<longleftrightarrow> 0 \<le> current_delay_range b \<and> current_delay_range b < 2 ^ 53 \<and>
     0 \<le> maximum_delay b \<and> maximum_delay b < 2 ^ 53 \<and> scaling b = Finite (int m) (- int k)"

lemma backoff_usable_step:
  assumes "uniform_in_range uniform" "scaling_ok m k" "backoff_usable m k b"
  shows "\<exists>d b'. Backoff_Policy.OnCompletion uniform fresh b = Inr (d, b') \<and> backoff_usable m k b'"
proof -
  define r mx where "r = nat (current_delay_range b)" and "mx = nat (maximum_delay b)"
  have b: "current_delay_range b = int r" "maximum_delay b = int mx" "scaling b = Finite (int m) (- int k)"
    "r < 2 ^ 53" "mx < 2 ^ 53" using assms(3) by (simp_all add: backoff_usable_def r_def mx_def nat_less_iff)
  have "next_range mx m k r < 2 ^ 53" using next_range_bounds(1) [OF assms(2) b(4), of mx] b(5) by linarith
  with OnCompletion_value [OF assms(1,2) b(4,1,2,3), of fresh] b show ?thesis by (auto simp: backoff_usable_def)
qed

abbreviation count_on_failure :: "(Status \<Rightarrow> bool) \<Rightarrow> int \<Rightarrow> Status \<Rightarrow> LimitedErrorCount \<Rightarrow> fault + bool \<times> LimitedErrorCount" where
  "count_on_failure perm \<equiv> OnFailure perm LimitedErrorCount_OnFailureImpl LimitedErrorCount_IsExhausted"

lemma Start_ok:
  fixes w :: "('q, 'r) retry_world"
  assumes "uniform_in_range uniform" "scaling_ok m k" "backoff_usable m k b" "0 \<le> maximum" "maximum + 1 < 2 ^ 31"
    "rw_calls w = []" "rc_tag c \<notin> fst ` set (pending_ops (rw_queue w))"
  shows "\<exists>st. RetryAsyncUnaryRpc_Start he perm (count_on_failure perm) (Backoff_Policy.OnCompletion uniform fresh) dr c w
        loc (mk_LimitedErrorCount maximum) b idem req = Some (Inr st) \<and>
      retry_ok error_count_wf error_count_left (backoff_usable m k) (fst ` set (pending_ops (rw_queue w)))
        (if idem then nat maximum + 1 else 1) req st \<and>
      retry_rank error_count_left st \<le> 2 * nat maximum + 1 \<and> (\<forall>t. fst st = Waiting t \<longrightarrow> t = rc_tag c)"
proof -
  let ?self = "mk_RetryAsyncUnaryRpc loc (mk_LimitedErrorCount maximum) b idem req :: ('q, LimitedErrorCount, _, 'r) RetryAsyncUnaryRpc"
  have pol: "error_count_wf (mk_LimitedErrorCount maximum)" "error_count_left (mk_LimitedErrorCount maximum) = nat maximum"
    using assms(4,5) by (simp_all add: error_count_wf_def error_count_left_def mk_LimitedErrorCount_def)
  have self: "final_result ?self = None" "rpc_retry_policy ?self = mk_LimitedErrorCount maximum"
    "rpc_backoff_policy ?self = b" "request ?self = req" "is_idempotent ?self = idem"
    by (simp_all add: mk_RetryAsyncUnaryRpc_def)
  show ?thesis
  proof (cases "shutdown (rw_queue w)")
    case False
    have "map_of (pending_ops (rw_queue w) @ [(rc_tag c, new_unary dr)]) (rc_tag c) = Some (new_unary dr)"
      using assms(7) by (rule map_of_snoc)
    with False assms(3,6,7) self pol show ?thesis
      by (auto simp: RetryAsyncUnaryRpc_Start_def StartIteration_value numeral_eq_Suc retry_ok_def retry_rank_def new_unary_def)
  next
    case True
    have four: "Suc (Suc (Suc 1)) = 4" by simp
    obtain st where st: "settle 4 he perm (count_on_failure perm) (Backoff_Policy.OnCompletion uniform fresh) dr c
        (Inr (Ready cancelled_call, ?self, w)) = Some (Inr st)" "ended ?self w st"
      using bounded_count.settle_unary [where k = 1 and self = ?self and B = "backoff_usable m k" and he = he and perm = perm and dr = dr
          and bo = "Backoff_Policy.OnCompletion uniform fresh" and c = c and w = w
          and v = "Inl (mk_Status kCancelled ''call cancelled'')", unfolded four self, OF refl pol(1) assms(3)
          backoff_usable_step [OF assms(1,2)] assms(7)] True by blast
    with True assms(6,7) show ?thesis
      by (auto simp: RetryAsyncUnaryRpc_Start_def StartIteration_value ended_def retry_ok_def retry_rank_def)
  qed
qed

section \<open>Specification\<close>

text \<open>
  The failure of a call: the code of the last error, and a message of the place of the call, the reason to give
  up and the message of the last error.
\<close>

definition failure_status :: "string \<Rightarrow> string \<Rightarrow> Status \<Rightarrow> Status" where
  "failure_status loc reason last_error =
     \<lparr>st_code = st_code last_error, st_message = loc @ reason @ '', last error='' @ st_message last_error\<rparr>"

text \<open>
  What the loop is for: the first response among at most \<open>n + 1\<close> attempts, or the first failure that
  must not be retried. The outcomes are those of the successive attempts.
\<close>

fun retry_spec :: "string \<Rightarrow> (Status \<Rightarrow> bool) \<Rightarrow> bool \<Rightarrow> nat \<Rightarrow> 'r status_or list \<Rightarrow> 'r status_or option" where
  "retry_spec loc perm idem n [] = None"
| "retry_spec loc perm idem n (Inr r # os) = Some (Inr r)"
| "retry_spec loc perm idem n (Inl status # os) =
     (if \<not> idem then Some (Inl (failure_status loc ''non-idempotent operation failed'' status))
      else if perm status then Some (Inl (failure_status loc ''permanent failure'' status))
      else if n = 0 then Some (Inl (failure_status loc ''retry policy exhausted'' status))
      else retry_spec loc perm idem (n - 1) os)"

text \<open>The outcome of an attempt, from what gRPC reports: cancelled, failed with a status, or a response.\<close>

definition rpc_outcome :: "'r retry_event \<Rightarrow> 'r status_or" where
  "rpc_outcome ev =
     (if \<not> ev_ok ev then Inl \<lparr>st_code = kCancelled, st_message = ''call cancelled''\<rparr>
      else if error_code (ev_status ev) = GRPC_OK then Inr (ev_response ev)
      else Inl \<lparr>st_code = MapStatusCode (error_code (ev_status ev)), st_message = error_message (ev_status ev)\<rparr>)"

lemma DetailedStatus_failure [simp]: "DetailedStatus loc reason status = failure_status loc reason status"
  by (simp add: DetailedStatus_def failure_status_def mk_Status_def)

text \<open>An attempt and the timer after it, which expires; the queue stays open.\<close>

definition round_ok :: "'r retry_event \<times> 'r retry_event \<Rightarrow> bool" where
  "round_ok r \<longleftrightarrow> \<not> ev_shutdown (fst r) \<and> \<not> ev_shutdown (snd r) \<and> ev_ok (snd r)"

definition round_events :: "('r retry_event \<times> 'r retry_event) list \<Rightarrow> 'r retry_event list" where
  "round_events rs = concat (map (\<lambda>(a, b). [a, b]) rs)"

text \<open>The loop is waiting for an attempt on an open queue.\<close>

definition attempting :: "nat set \<Rightarrow> nat \<Rightarrow> ('q, LimitedErrorCount, 'b, 'r) RetryAsyncUnaryRpc \<Rightarrow> ('q, 'r) retry_world \<Rightarrow> bool" where
  "attempting K t self w \<longleftrightarrow> final_result self = None \<and> error_count_wf (rpc_retry_policy self) \<and>
     failure_count (rpc_retry_policy self) \<le> maximum_failures (rpc_retry_policy self) \<and>
     \<not> shutdown (rw_queue w) \<and> fst ` set (pending_ops (rw_queue w)) \<subseteq> insert t K \<and>
     (\<exists>u. map_of (pending_ops (rw_queue w)) t = Some (UnaryOp u))"

lemma count_on_failure_value:
  assumes "error_count_wf p" "\<not> perm status"
  shows "count_on_failure perm now status p =
    Inr (0 < error_count_left p, p\<lparr>failure_count := failure_count p + 1\<rparr>)"
  using assms
  by (auto simp: OnFailure_def LimitedErrorCount_OnFailureImpl_def LimitedErrorCount_IsExhausted_def error_count_wf_def
      error_count_left_def in_int32_def)

lemma notify_outcome: "snd (Notify (ev_ok ev) (write_rpc ev (UnaryOp u))) = UnaryValue (rpc_outcome ev)"
  by (simp add: write_rpc_def rpc_outcome_def AsyncUnaryRpcFuture_Notify_def grpc_Status_ok_def mk_Status_def
      MakeStatusFromRpcError_def MakeStatusFromRpcError_code_def)

lemma deliver_ends:
  assumes "map_of (pending_ops (rw_queue w)) t = Some (UnaryOp u)" "final_result self = None" "\<not> ev_shutdown ev"
    "RetryAsyncUnaryRpc_OnCompletion he perm f bo (ev_context ev) self w (rpc_outcome ev) = finish v (self\<lparr>rpc_retry_policy := p\<rparr>) w"
  shows "\<exists>self' w'. deliver he perm f bo dr ev t self w = Some (Inr (Finished, self', w')) \<and> final_result self' = Some v"
proof -
  have "t \<in> fst ` set (pending_ops (rw_queue w))" using assms(1) by (force dest: map_of_SomeD)
  with deliver_from_settle [OF assms(1), where self = self and aw = Finished
      and self' = "self\<lparr>rpc_retry_policy := p, final_result := Some v\<rparr>" and w' = w] assms(2-) show ?thesis
    by (simp add: notify_outcome shut_def numeral_eq_Suc continue_def finish_value)
qed

text \<open>A failure that is retried, and the timer after it.\<close>

lemma deliver_round:
  assumes at: "attempting K t self w" and fail: "rpc_outcome e1 = Inl status" "\<not> perm status" "is_idempotent self"
    and left: "0 < error_count_left (rpc_retry_policy self)" and bo: "bo (rpc_backoff_policy self) = Inr (d, b)"
    and ok: "round_ok (e1, e2)"
    and tags: "distinct [t, rc_tag (ev_context e1), rc_tag (ev_context e2)]"
      "rc_tag (ev_context e1) \<notin> K" "rc_tag (ev_context e2) \<notin> K"
  shows "\<exists>self1 w1 self' w'. deliver he perm (count_on_failure perm) bo dr e1 t self w = Some (Inr (Waiting (rc_tag (ev_context e1)), self1, w1)) \<and>
     deliver he perm (count_on_failure perm) bo dr e2 (rc_tag (ev_context e1)) self1 w1
       = Some (Inr (Waiting (rc_tag (ev_context e2)), self', w')) \<and>
     attempting K (rc_tag (ev_context e2)) self' w' \<and> location self' = location self \<and> is_idempotent self' \<and>
     rpc_backoff_policy self' = b \<and>
     error_count_left (rpc_retry_policy self') = error_count_left (rpc_retry_policy self) - 1"
proof -
  let ?t1 = "rc_tag (ev_context e1)" and ?t2 = "rc_tag (ev_context e2)" and ?P = "pending_ops (rw_queue w)"
  let ?p = "(rpc_retry_policy self)\<lparr>failure_count := failure_count (rpc_retry_policy self) + 1\<rparr>"
  let ?self = "self\<lparr>rpc_retry_policy := ?p, rpc_backoff_policy := b\<rparr>"
  let ?tm = "new_timer (clock_sum (rc_now (ev_context e1)) (d * 1000000))"
  define P1 where "P1 = filter (\<lambda>kv. fst kv \<noteq> t) (?P @ [(?t1, ?tm)])"
  define w1 where "w1 = w\<lparr>rw_queue := (rw_queue w)\<lparr>pending_ops := P1\<rparr>, rw_delays := rw_delays w @ [d]\<rparr>"
  obtain u where u: "map_of ?P t = Some (UnaryOp u)" and K: "fst ` set ?P \<subseteq> insert t K" using at by (auto simp: attempting_def)
  have t: "t \<in> fst ` set ?P" using u by (force dest: map_of_SomeD)
  have fresh1: "?t1 \<notin> fst ` set ?P" "?t1 \<noteq> t" using K tags by auto
  note f1 = forget_old [OF t fresh1(2,1) K, of ?tm, folded P1_def]
  have fresh2: "?t2 \<notin> fst ` set P1" using f1(1) tags by auto
  have t1: "?t1 \<in> fst ` set P1" using f1(2) by (force dest: map_of_SomeD)
  have ne: "?t2 \<noteq> ?t1" using tags(1) by simp
  have "deliver he perm (count_on_failure perm) bo dr e1 t self w = Some (Inr (Waiting ?t1, ?self, w1))"
    using deliver_from_settle [OF u, where self = self and aw = "Waiting ?t1" and self' = ?self and ev = e1
        and w' = "w\<lparr>rw_queue := (rw_queue w)\<lparr>pending_ops := ?P @ [(?t1, ?tm)]\<rparr>, rw_delays := rw_delays w @ [d]\<rparr>"]
      ok at fail left bo fresh1 t
    by (simp add: notify_outcome shut_def numeral_eq_Suc continue_def RetryAsyncUnaryRpc_OnCompletion_def round_ok_def
        count_on_failure_value attempting_def MakeRelativeTimer_value awaiting_def w1_def P1_def)
  moreover define w2 where "w2 = w1\<lparr>rw_queue := (rw_queue w1)\<lparr>pending_ops := filter (\<lambda>kv. fst kv \<noteq> ?t1) (P1 @ [(?t2, new_unary dr)])\<rparr>,
      rw_calls := rw_calls w1 @ [request ?self]\<rparr>"
  moreover have "deliver he perm (count_on_failure perm) bo dr e2 ?t1 ?self w1 = Some (Inr (Waiting ?t2, ?self, w2))"
    using deliver_from_settle [where w = w1 and t = ?t1 and op = ?tm and self = ?self and aw = "Waiting ?t2" and self' = ?self and ev = e2
        and w' = "w1\<lparr>rw_queue := (rw_queue w1)\<lparr>pending_ops := P1 @ [(?t2, new_unary dr)]\<rparr>, rw_calls := rw_calls w1 @ [request ?self]\<rparr>"]
      f1(2) ok at fresh2 t1
    by (simp add: w1_def new_timer_def write_rpc_def AsyncTimerFuture_Notify_def shut_def numeral_eq_Suc continue_def OnTimer_def
        StartIteration_value attempting_def round_ok_def w2_def)
  moreover have "attempting K ?t2 ?self w2"
    using at forget_old [OF t1 ne fresh2 f1(1), of "new_unary dr"] left
    by (simp add: attempting_def w2_def w1_def new_unary_def error_count_wf_def error_count_left_def)
  moreover have "error_count_left ?p = error_count_left (rpc_retry_policy self) - 1"
    by (simp add: error_count_left_def)
  ultimately show ?thesis using fail(3) by (intro exI [of _ ?self] exI [of _ w1] exI [of _ w2]) simp
qed

lemma rounds_refine:
  assumes bo: "\<And>b. B b \<Longrightarrow> \<exists>d b'. bo b = Inr (d, b') \<and> B b'"
    and "attempting K t self w" "B (rpc_backoff_policy self)" "\<forall>r \<in> set rs. round_ok r"
    "distinct (t # event_tags (round_events rs))" "set (event_tags (round_events rs)) \<inter> K = {}"
  shows "\<exists>aw self' w'. retry_run he perm (count_on_failure perm) bo dr (round_events rs) (Inr (Waiting t, self, w))
        = Some (Inr (aw, self', w')) \<and>
     final_result self' = retry_spec (location self) perm (is_idempotent self) (error_count_left (rpc_retry_policy self))
       (map (\<lambda>r. rpc_outcome (fst r)) rs)"
  using assms(2-)
proof (induction rs arbitrary: t self w)
  case Nil
  then show ?case by (simp add: round_events_def attempting_def)
next
  case (Cons r rs)
  obtain e1 e2 where r: "r = (e1, e2)" by (cases r)
  have evs: "round_events (r # rs) = e1 # e2 # round_events rs" by (simp add: round_events_def r)
  obtain u where u: "map_of (pending_ops (rw_queue w)) t = Some (UnaryOp u)" "final_result self = None"
    using Cons.prems(1) by (auto simp: attempting_def)
  have wf: "error_count_wf (rpc_retry_policy self)" using Cons.prems(1) by (simp add: attempting_def)
  have open1: "\<not> ev_shutdown e1" using Cons.prems(3) by (simp add: r round_ok_def)
  have stop: ?case if "\<exists>self' w'. deliver he perm (count_on_failure perm) bo dr e1 t self w = Some (Inr (Finished, self', w')) \<and>
      final_result self' = Some v" "retry_spec (location self) perm (is_idempotent self) (error_count_left (rpc_retry_policy self))
       (map (\<lambda>r. rpc_outcome (fst r)) (r # rs)) = Some v" for v
    using that by (auto simp: evs)
  note ends = deliver_ends [OF u open1, where he = he and perm = perm and bo = bo and dr = dr and f = "count_on_failure perm"]
  show ?case
  proof (cases "rpc_outcome e1")
    case (Inr x)
    show ?thesis
      by (rule stop [where v = "Inr x"], rule ends [where p = "rpc_retry_policy self"])
        (simp_all add: RetryAsyncUnaryRpc_OnCompletion_def Inr r)
  next
    case (Inl status)
    consider "\<not> is_idempotent self" | "is_idempotent self" "perm status"
      | "is_idempotent self" "\<not> perm status" "error_count_left (rpc_retry_policy self) = 0"
      | "is_idempotent self" "\<not> perm status" "0 < error_count_left (rpc_retry_policy self)" by blast
    then show ?thesis
    proof cases
      case 1
      show ?thesis
        by (rule stop, rule ends [where p = "rpc_retry_policy self"])
          (use 1 in \<open>simp_all add: RetryAsyncUnaryRpc_OnCompletion_def Inl r\<close>)
    next
      case 2
      show ?thesis
        by (rule stop, rule ends [where p = "rpc_retry_policy self"])
          (use 2 in \<open>simp_all add: RetryAsyncUnaryRpc_OnCompletion_def Inl r OnFailure_def\<close>)
    next
      case 3
      show ?thesis
        by (rule stop, rule ends)
          (use 3 wf in \<open>simp_all add: RetryAsyncUnaryRpc_OnCompletion_def Inl r count_on_failure_value\<close>)
    next
      case 4
      obtain d b where b: "bo (rpc_backoff_policy self) = Inr (d, b)" "B b" using bo Cons.prems(2) by blast
      have ok12: "round_ok (e1, e2)" using Cons.prems(3) by (simp add: r)
      have tags: "distinct [t, rc_tag (ev_context e1), rc_tag (ev_context e2)]"
        "rc_tag (ev_context e1) \<notin> K" "rc_tag (ev_context e2) \<notin> K" using Cons.prems(4,5) by (auto simp: evs)
      obtain self1 w1 self' w' where round:
        "deliver he perm (count_on_failure perm) bo dr e1 t self w = Some (Inr (Waiting (rc_tag (ev_context e1)), self1, w1))"
        "deliver he perm (count_on_failure perm) bo dr e2 (rc_tag (ev_context e1)) self1 w1
           = Some (Inr (Waiting (rc_tag (ev_context e2)), self', w'))"
        "attempting K (rc_tag (ev_context e2)) self' w'" "location self' = location self" "is_idempotent self'"
        "rpc_backoff_policy self' = b"
        "error_count_left (rpc_retry_policy self') = error_count_left (rpc_retry_policy self) - 1"
        using deliver_round [where perm = perm and bo = bo and he = he and dr = dr, OF Cons.prems(1) Inl 4(2,1,3) b(1) ok12 tags] by blast
      have "\<exists>aw self'' w''. retry_run he perm (count_on_failure perm) bo dr (round_events rs)
            (Inr (Waiting (rc_tag (ev_context e2)), self', w')) = Some (Inr (aw, self'', w'')) \<and>
         final_result self'' = retry_spec (location self') perm (is_idempotent self') (error_count_left (rpc_retry_policy self'))
           (map (\<lambda>r. rpc_outcome (fst r)) rs)"
        using round Cons.prems(3-5) b(2) by (intro Cons.IH) (auto simp: evs)
      with round 4 Inl show ?thesis unfolding evs by (auto simp: r)
    qed
  qed
qed

text \<open>The loop completes from whatever state of the queue it is started in.\<close>

lemma Start_run_completes:
  fixes w :: "('q, 'r) retry_world"
  assumes "uniform_in_range uniform" "scaling_ok m k" "backoff_usable m k b" "0 \<le> maximum" "maximum + 1 < 2 ^ 31"
    "rw_calls w = []" "distinct (rc_tag c # event_tags evs)"
    "set (rc_tag c # event_tags evs) \<inter> fst ` set (pending_ops (rw_queue w)) = {}"
  shows "\<exists>st aw self w'.
     RetryAsyncUnaryRpc_Start he perm (count_on_failure perm) (Backoff_Policy.OnCompletion uniform fresh) dr c w
        loc (mk_LimitedErrorCount maximum) b idem req = Some (Inr st) \<and>
     retry_run he perm (count_on_failure perm) (Backoff_Policy.OnCompletion uniform fresh) dr evs (Inr st)
       = Some (Inr (aw, self, w')) \<and>
     (aw = Finished \<longleftrightarrow> final_result self \<noteq> None) \<and>
     (2 * nat maximum + 1 \<le> length evs \<longrightarrow> final_result self \<noteq> None) \<and>
     set (rw_calls w') \<subseteq> {req} \<and> length (rw_calls w') \<le> (if idem then nat maximum + 1 else 1)"
proof -
  let ?K = "fst ` set (pending_ops (rw_queue w))" and ?bo = "Backoff_Policy.OnCompletion uniform fresh"
  obtain st where st: "RetryAsyncUnaryRpc_Start he perm (count_on_failure perm) ?bo dr c w
        loc (mk_LimitedErrorCount maximum) b idem req = Some (Inr st)"
      "retry_ok error_count_wf error_count_left (backoff_usable m k) ?K (if idem then nat maximum + 1 else 1) req st"
      "retry_rank error_count_left st \<le> 2 * nat maximum + 1" "\<forall>t. fst st = Waiting t \<longrightarrow> t = rc_tag c"
    using Start_ok [OF assms(1-6)] assms(8) by (metis disjoint_iff list.set_intros(1))
  have "\<exists>r. retry_run he perm (count_on_failure perm) ?bo dr evs (Inr st) = Some (Inr r) \<and>
     retry_ok error_count_wf error_count_left (backoff_usable m k) ?K (if idem then nat maximum + 1 else 1) req r \<and>
     (retry_rank error_count_left st \<le> length evs \<longrightarrow> fst r = Finished)"
    using assms(7,8) st(4)
    by (intro bounded_count.run_ok [OF st(2) backoff_usable_step [OF assms(1,2)]]) auto
  then obtain aw self w' where run: "retry_run he perm (count_on_failure perm) ?bo dr evs (Inr st) = Some (Inr (aw, self, w'))"
      "retry_ok error_count_wf error_count_left (backoff_usable m k) ?K (if idem then nat maximum + 1 else 1) req (aw, self, w')"
      "retry_rank error_count_left st \<le> length evs \<longrightarrow> aw = Finished" by auto
  then have "aw = Finished \<longleftrightarrow> final_result self \<noteq> None" by (cases aw) (auto simp: retry_ok_def)
  with st(1,3) run show ?thesis by (auto simp: retry_ok_def)
qed

section \<open>Properties\<close>

text \<open>
  C13: the retry loop with the error-count and exponential backoff policies always completes: whatever
  gRPC reports, and whenever the queue is shut down, nothing is thrown, the promise is satisfied
  once, at the latest after \<open>2 * maximum + 1\<close> events, every call is made with the original request,
  and there are at most \<open>maximum + 1\<close> of them, or one if the request is not idempotent.
\<close>

theorem retry_loop_completes:
  fixes w :: "('q, 'r) retry_world"
  assumes "uniform_in_range uniform" "scaling_ok m k" "backoff_usable m k b" "0 \<le> maximum" "maximum + 1 < 2 ^ 31"
    "rw_calls w = []" "distinct (rc_tag c # event_tags evs)"
    "set (rc_tag c # event_tags evs) \<inter> fst ` set (pending_ops (rw_queue w)) = {}"
  shows "\<exists>st aw self w'.
     RetryAsyncUnaryRpc_Start he perm (count_on_failure perm) (Backoff_Policy.OnCompletion uniform fresh) dr c w
        loc (mk_LimitedErrorCount maximum) b idem req = Some (Inr st) \<and>
     retry_run he perm (count_on_failure perm) (Backoff_Policy.OnCompletion uniform fresh) dr evs (Inr st)
       = Some (Inr (aw, self, w')) \<and>
     (aw = Finished \<longleftrightarrow> final_result self \<noteq> None) \<and>
     (2 * nat maximum + 1 \<le> length evs \<longrightarrow> final_result self \<noteq> None) \<and>
     set (rw_calls w') \<subseteq> {req} \<and> length (rw_calls w') \<le> (if idem then nat maximum + 1 else 1)"
  using assms by (rule Start_run_completes)

text \<open>
  C14: on an open queue the loop computes its specification: given the outcomes of the attempts, it
  yields the first response, or the first failure that is permanent or of a request that is not
  idempotent, or the failure of attempt \<open>maximum + 1\<close>, with the location and the reason in the message
  and the code of the failure; with no such outcome yet it is still running.
\<close>

theorem retry_loop_refines_spec:
  fixes w :: "('q, 'r) retry_world"
  assumes "uniform_in_range uniform" "scaling_ok m k" "backoff_usable m k b" "0 \<le> maximum" "maximum + 1 < 2 ^ 31"
    "\<not> shutdown (rw_queue w)" "\<forall>r \<in> set rs. round_ok r" "distinct (rc_tag c # event_tags (round_events rs))"
    "set (rc_tag c # event_tags (round_events rs)) \<inter> fst ` set (pending_ops (rw_queue w)) = {}"
  shows "\<exists>st aw self w'.
     RetryAsyncUnaryRpc_Start he perm (count_on_failure perm) (Backoff_Policy.OnCompletion uniform fresh) dr c w
        loc (mk_LimitedErrorCount maximum) b idem req = Some (Inr st) \<and>
     retry_run he perm (count_on_failure perm) (Backoff_Policy.OnCompletion uniform fresh) dr (round_events rs) (Inr st)
       = Some (Inr (aw, self, w')) \<and>
     final_result self = retry_spec loc perm idem (nat maximum) (map (\<lambda>r. rpc_outcome (fst r)) rs)"
proof -
  let ?K = "fst ` set (pending_ops (rw_queue w))" and ?bo = "Backoff_Policy.OnCompletion uniform fresh"
  let ?p = "mk_LimitedErrorCount maximum"
  let ?self = "mk_RetryAsyncUnaryRpc loc ?p b idem req :: ('q, LimitedErrorCount, _, 'r) RetryAsyncUnaryRpc"
  let ?w = "w\<lparr>rw_queue := (rw_queue w)\<lparr>pending_ops := pending_ops (rw_queue w) @ [(rc_tag c, new_unary dr)]\<rparr>,
     rw_calls := rw_calls w @ [req]\<rparr>"
  have tag: "rc_tag c \<notin> ?K" using assms(9) by auto
  have left: "error_count_left ?p = nat maximum" by (simp add: error_count_left_def mk_LimitedErrorCount_def)
  have start: "RetryAsyncUnaryRpc_Start he perm (count_on_failure perm) ?bo dr c w loc ?p b idem req
      = Some (Inr (Waiting (rc_tag c), ?self, ?w))"
    using assms(6) tag by (simp add: RetryAsyncUnaryRpc_Start_def StartIteration_value numeral_eq_Suc mk_RetryAsyncUnaryRpc_def)
  have "attempting ?K (rc_tag c) ?self ?w"
    using assms(4-6) map_of_snoc [OF tag, of "new_unary dr"]
    by (simp add: attempting_def mk_RetryAsyncUnaryRpc_def mk_LimitedErrorCount_def error_count_wf_def new_unary_def)
  moreover have "backoff_usable m k (rpc_backoff_policy ?self)" using assms(3) by (simp add: mk_RetryAsyncUnaryRpc_def)
  ultimately have "\<exists>aw self' w'. retry_run he perm (count_on_failure perm) ?bo dr (round_events rs) (Inr (Waiting (rc_tag c), ?self, ?w))
        = Some (Inr (aw, self', w')) \<and>
     final_result self' = retry_spec (location ?self) perm (is_idempotent ?self) (error_count_left (rpc_retry_policy ?self))
       (map (\<lambda>r. rpc_outcome (fst r)) rs)"
    using assms(7-9) by (intro rounds_refine [OF backoff_usable_step [OF assms(1,2)]]) auto
  with start left show ?thesis by (simp add: mk_RetryAsyncUnaryRpc_def)
qed

text \<open>An example for both theorems: two attempts, the first of which fails.\<close>

definition example_backoff :: "nat ExponentialBackoffPolicy" where
  "example_backoff = \<lparr>current_delay_range = 20000, maximum_delay = 500000, scaling = Finite 3 (- 1), generator = None\<rparr>"

definition example_event :: "grpc_StatusCode \<Rightarrow> nat \<Rightarrow> int retry_event" where
  "example_event code tag = \<lparr>ev_ok = True, ev_status = \<lparr>error_code = code, error_message = ''msg''\<rparr>, ev_response = 7,
     ev_shutdown = False, ev_context = \<lparr>rc_now = int tag, rc_tag = tag\<rparr>\<rparr>"

definition example_rounds :: "(int retry_event \<times> int retry_event) list" where
  "example_rounds = [(example_event GRPC_UNAVAILABLE 1, example_event GRPC_OK 2), (example_event GRPC_OK 3, example_event GRPC_OK 4)]"

definition example_world :: "(nat, int) retry_world" where
  "example_world = \<lparr>rw_queue = mk_CompletionQueueImpl, rw_calls = [], rw_delays = []\<rparr>"

lemma example_facts:
  "uniform_in_range (\<lambda>a b (g :: nat). (a, g))" "scaling_ok 3 1" "backoff_usable 3 1 example_backoff"
  "rw_calls example_world = []" "\<not> shutdown (rw_queue example_world)" "pending_ops (rw_queue example_world) = []"
  "\<forall>r \<in> set example_rounds. round_ok r" "event_tags (round_events example_rounds) = [1, 2, 3, 4]"
  by (simp_all add: uniform_in_range_def scaling_ok_def backoff_usable_def example_backoff_def example_world_def
      mk_CompletionQueueImpl_def example_rounds_def example_event_def round_ok_def round_events_def)

theorem retry_loop_completes_witness:
  "\<exists>st aw self w'.
     RetryAsyncUnaryRpc_Start True (\<lambda>s. False) (count_on_failure (\<lambda>s. False))
       (Backoff_Policy.OnCompletion (\<lambda>a b g. (a, g)) (0 :: nat)) 0 \<lparr>rc_now = 0, rc_tag = 0\<rparr> example_world
        ''loc'' (mk_LimitedErrorCount 1) example_backoff True (5 :: nat) = Some (Inr st) \<and>
     retry_run True (\<lambda>s. False) (count_on_failure (\<lambda>s. False)) (Backoff_Policy.OnCompletion (\<lambda>a b g. (a, g)) (0 :: nat)) 0
       (round_events example_rounds) (Inr st) = Some (Inr (aw, self, w')) \<and>
     final_result self \<noteq> None \<and> set (rw_calls w') \<subseteq> {5} \<and> length (rw_calls w') \<le> 2"
proof -
  have len: "2 * nat 1 + 1 \<le> length (round_events example_rounds)" by (simp add: example_rounds_def round_events_def)
  have "0 \<le> (1::int)" "(1::int) + 1 < 2 ^ 31" "distinct (rc_tag \<lparr>rc_now = 0, rc_tag = 0\<rparr> # event_tags (round_events example_rounds))"
    "set (rc_tag \<lparr>rc_now = 0, rc_tag = 0\<rparr> # event_tags (round_events example_rounds)) \<inter> fst ` set (pending_ops (rw_queue example_world)) = {}"
    by (simp_all add: example_facts)
  from retry_loop_completes [OF example_facts(1-3) this(1,2) example_facts(4) this(3,4), of True "\<lambda>s. False" 0 0 "''loc''" True 5] len
  show ?thesis by auto
qed

theorem retry_loop_refines_spec_witness:
  "\<exists>st aw self w'.
     RetryAsyncUnaryRpc_Start True (\<lambda>s. False) (count_on_failure (\<lambda>s. False))
       (Backoff_Policy.OnCompletion (\<lambda>a b g. (a, g)) (0 :: nat)) 0 \<lparr>rc_now = 0, rc_tag = 0\<rparr> example_world
        ''loc'' (mk_LimitedErrorCount 1) example_backoff True (5 :: nat) = Some (Inr st) \<and>
     retry_run True (\<lambda>s. False) (count_on_failure (\<lambda>s. False)) (Backoff_Policy.OnCompletion (\<lambda>a b g. (a, g)) (0 :: nat)) 0
       (round_events example_rounds) (Inr st) = Some (Inr (aw, self, w')) \<and>
     final_result self = Some (Inr 7)"
proof -
  have spec: "retry_spec ''loc'' (\<lambda>s. False) True (nat 1) (map (\<lambda>r. rpc_outcome (fst r)) example_rounds) = Some (Inr 7)"
    by (simp add: example_rounds_def example_event_def rpc_outcome_def AsyncUnaryRpcFuture_Notify_def grpc_Status_ok_def)
  have "0 \<le> (1::int)" "(1::int) + 1 < 2 ^ 31" "distinct (rc_tag \<lparr>rc_now = 0, rc_tag = 0\<rparr> # event_tags (round_events example_rounds))"
    "set (rc_tag \<lparr>rc_now = 0, rc_tag = 0\<rparr> # event_tags (round_events example_rounds)) \<inter> fst ` set (pending_ops (rw_queue example_world)) = {}"
    by (simp_all add: example_facts)
  from retry_loop_refines_spec [OF example_facts(1-3) this(1,2) example_facts(5,7) this(3,4), of True "\<lambda>s. False" 0 0 "''loc''" True 5]
  show ?thesis unfolding spec by blast
qed

end
