(* ===== verification/Read_Stream.thy ===== *)
theory Read_Stream
  imports Completion_Queue
begin

text \<open>
  Asynchronous streaming reads (\<^verbatim>\<open>internal/async_read_stream_impl.h\<close>) on a completion queue. The user's
  \<open>on_read\<close> answers with a future, which is the event \<open>Answer\<close>; the calls of gRPC, what it reports for
  them, and the calls of the user's functors are recorded in order. The functors themselves return:
  \<open>on_read\<close> reports a failure through its future (\<open>Answer\<close> with an exception), and an exception thrown
  by the call of \<open>on_read\<close> or \<open>on_finish\<close> itself, which would leave \<^verbatim>\<open>Notify\<close> and the event loop, is outside
  the model.
\<close>

section \<open>State\<close>

datatype grpc_call = StartCall | ReadCall | FinishCall | TryCancel | Completed bool

text \<open>Whether \<^verbatim>\<open>context_\<close> and \<^verbatim>\<open>reader_\<close> are set.\<close>

record AsyncReadStreamImpl =
  context_set :: bool
  reader_set :: bool

record 'r stream_world =
  sw_queue :: "'r CompletionQueueImpl"
  sw_grpc :: "grpc_call list"
  sw_on_read :: "'r list"
  sw_on_finish :: "Status list"

text \<open>
  What the stream is waiting for: an operation of the queue, the user's answer, nothing (it has
  called \<open>on_finish\<close>), or nothing because the user's future held an exception.
\<close>

datatype 'r stream_await = Waiting nat | Ready "'r notification" | AwaitAnswer | Finished | Dropped

definition mk_AsyncReadStreamImpl :: AsyncReadStreamImpl where
  "mk_AsyncReadStreamImpl = \<lparr>context_set = False, reader_set = False\<rparr>"

section \<open>Member functions\<close>

text \<open>
  Starting an operation for an adapter; the closure calls gRPC and is not run when the queue was shut
  down. Only the closure of \<^verbatim>\<open>Start\<close> may find \<^verbatim>\<open>reader_\<close> null: it sets it.
\<close>

definition start_adapter ::
  "bool \<Rightarrow> nat \<Rightarrow> 'r stream_adapter \<Rightarrow> grpc_call \<Rightarrow> AsyncReadStreamImpl \<Rightarrow> 'r stream_world
    \<Rightarrow> fault + 'r stream_await \<times> AsyncReadStreamImpl \<times> 'r stream_world" where
  "start_adapter have_ex tag adapter call self w =
     (case StartOperation have_ex tag (StreamOp adapter) (\<lambda>op. op) (sw_queue w) of
        (Inl e, q) \<Rightarrow> Inl e
      | (Inr (Some n), q) \<Rightarrow> Inr (Ready n, self, w\<lparr>sw_queue := q\<rparr>)
      | (Inr None, q) \<Rightarrow>
          if call \<noteq> StartCall \<and> \<not> reader_set self then Inl (UB NullDeref)
          else Inr (Waiting tag, self\<lparr>reader_set := True\<rparr>, w\<lparr>sw_queue := q, sw_grpc := sw_grpc w @ [call]\<rparr>))"

definition AsyncReadStreamImpl_Start ::
  "bool \<Rightarrow> nat \<Rightarrow> AsyncReadStreamImpl \<Rightarrow> 'r stream_world
    \<Rightarrow> fault + 'r stream_await \<times> AsyncReadStreamImpl \<times> 'r stream_world" where
  "AsyncReadStreamImpl_Start have_ex tag self w =
     start_adapter have_ex tag NotifyStart StartCall (self\<lparr>context_set := True\<rparr>) w"

definition AsyncReadStreamImpl_Cancel ::
  "AsyncReadStreamImpl \<Rightarrow> 'r stream_world \<Rightarrow> fault + 'r stream_world" where
  "AsyncReadStreamImpl_Cancel self w =
     (if context_set self then Inr (w\<lparr>sw_grpc := sw_grpc w @ [TryCancel]\<rparr>) else Inl (UB NullDeref))"

text \<open>\<open>response\<close> is the default value the adapter's response has before gRPC writes it.\<close>

definition Read ::
  "bool \<Rightarrow> 'r \<Rightarrow> nat \<Rightarrow> AsyncReadStreamImpl \<Rightarrow> 'r stream_world
    \<Rightarrow> fault + 'r stream_await \<times> AsyncReadStreamImpl \<times> 'r stream_world" where
  "Read have_ex response tag self w = start_adapter have_ex tag (NotifyRead response) ReadCall self w"

definition Finish ::
  "bool \<Rightarrow> nat \<Rightarrow> AsyncReadStreamImpl \<Rightarrow> 'r stream_world
    \<Rightarrow> fault + 'r stream_await \<times> AsyncReadStreamImpl \<times> 'r stream_world" where
  "Finish have_ex tag self w =
     start_adapter have_ex tag (NotifyFinish \<lparr>error_code = GRPC_OK, error_message = []\<rparr>) FinishCall self w"

definition Discard ::
  "bool \<Rightarrow> 'r \<Rightarrow> nat \<Rightarrow> AsyncReadStreamImpl \<Rightarrow> 'r stream_world
    \<Rightarrow> fault + 'r stream_await \<times> AsyncReadStreamImpl \<times> 'r stream_world" where
  "Discard have_ex response tag self w = start_adapter have_ex tag (NotifyDiscard response) ReadCall self w"

definition stream_OnStart ::
  "bool \<Rightarrow> 'r \<Rightarrow> nat \<Rightarrow> bool \<Rightarrow> AsyncReadStreamImpl \<Rightarrow> 'r stream_world
    \<Rightarrow> fault + 'r stream_await \<times> AsyncReadStreamImpl \<times> 'r stream_world" where
  "stream_OnStart have_ex dr tag ok self w =
     (if \<not> ok then Finish have_ex tag self w else Read have_ex dr tag self w)"

definition stream_OnRead ::
  "bool \<Rightarrow> nat \<Rightarrow> bool \<Rightarrow> 'r \<Rightarrow> AsyncReadStreamImpl \<Rightarrow> 'r stream_world
    \<Rightarrow> fault + 'r stream_await \<times> AsyncReadStreamImpl \<times> 'r stream_world" where
  "stream_OnRead have_ex tag ok response self w =
     (if \<not> ok then Finish have_ex tag self w
      else Inr (AwaitAnswer, self, w\<lparr>sw_on_read := sw_on_read w @ [response]\<rparr>))"

text \<open>The continuation of the user's answer; \<open>None\<close> is an exception, which \<^verbatim>\<open>get()\<close> throws out of it.\<close>

definition OnAnswer ::
  "bool \<Rightarrow> 'r \<Rightarrow> nat \<Rightarrow> bool option \<Rightarrow> AsyncReadStreamImpl \<Rightarrow> 'r stream_world
    \<Rightarrow> fault + 'r stream_await \<times> AsyncReadStreamImpl \<times> 'r stream_world" where
  "OnAnswer have_ex dr tag answer self w = (case answer of
     None \<Rightarrow> Inr (Dropped, self, w)
   | Some keep \<Rightarrow>
       if \<not> keep then bindR (AsyncReadStreamImpl_Cancel self w) (\<lambda>w'. Discard have_ex dr tag self w')
       else Read have_ex dr tag self w)"

definition stream_OnFinish ::
  "bool \<Rightarrow> Status \<Rightarrow> AsyncReadStreamImpl \<Rightarrow> 'r stream_world
    \<Rightarrow> fault + 'r stream_await \<times> AsyncReadStreamImpl \<times> 'r stream_world" where
  "stream_OnFinish ok status self w =
     Inr (Finished, self, w\<lparr>sw_on_finish := sw_on_finish w @
       [if ok then status else mk_Status kCancelled ''call cancelled'']\<rparr>)"

definition stream_OnDiscard ::
  "bool \<Rightarrow> 'r \<Rightarrow> nat \<Rightarrow> bool \<Rightarrow> AsyncReadStreamImpl \<Rightarrow> 'r stream_world
    \<Rightarrow> fault + 'r stream_await \<times> AsyncReadStreamImpl \<times> 'r stream_world" where
  "stream_OnDiscard have_ex dr tag ok self w =
     (if \<not> ok then Finish have_ex tag self w else Discard have_ex dr tag self w)"

section \<open>Events\<close>

text \<open>The notifications of the adapters call the member functions; those on a shut down queue come at once.\<close>

definition stream_continue ::
  "bool \<Rightarrow> 'r \<Rightarrow> nat \<Rightarrow> 'r notification \<Rightarrow> AsyncReadStreamImpl \<Rightarrow> 'r stream_world
    \<Rightarrow> fault + 'r stream_await \<times> AsyncReadStreamImpl \<times> 'r stream_world" where
  "stream_continue have_ex dr tag n self w = (case n of
     OnStart ok \<Rightarrow> stream_OnStart have_ex dr tag ok self w
   | OnRead ok r \<Rightarrow> stream_OnRead have_ex tag ok r self w
   | OnFinish ok st \<Rightarrow> stream_OnFinish ok st self w
   | OnDiscard ok r \<Rightarrow> stream_OnDiscard have_ex dr tag ok self w
   | _ \<Rightarrow> Inr (Dropped, self, w))"

fun stream_settle ::
  "nat \<Rightarrow> bool \<Rightarrow> 'r \<Rightarrow> nat \<Rightarrow> fault + 'r stream_await \<times> AsyncReadStreamImpl \<times> 'r stream_world
    \<Rightarrow> (fault + 'r stream_await \<times> AsyncReadStreamImpl \<times> 'r stream_world) option" where
  "stream_settle 0 have_ex dr tag r = None"
| "stream_settle (Suc fuel) have_ex dr tag r = (case r of
     Inr (Ready n, self, w) \<Rightarrow> stream_settle fuel have_ex dr tag (stream_continue have_ex dr tag n self w)
   | _ \<Rightarrow> Some r)"

text \<open>
  gRPC reports the operation (with the response or status it wrote), or the user answers; \<open>down\<close> says
  that the queue was shut down before, \<open>tag\<close> is the address of the next operation.
\<close>

datatype 'r stream_event =
    Completion (ev_down: bool) (ev_tag: nat) bool 'r grpc_Status
  | Answer (ev_down: bool) (ev_tag: nat) "bool option"

definition write_adapter :: "'r \<Rightarrow> grpc_Status \<Rightarrow> 'r AsyncGrpcOperation \<Rightarrow> 'r AsyncGrpcOperation" where
  "write_adapter r st op = (case op of
     StreamOp (NotifyRead _) \<Rightarrow> StreamOp (NotifyRead r)
   | StreamOp (NotifyDiscard _) \<Rightarrow> StreamOp (NotifyDiscard r)
   | StreamOp (NotifyFinish _) \<Rightarrow> StreamOp (NotifyFinish st)
   | _ \<Rightarrow> op)"

definition queue_down :: "bool \<Rightarrow> 'r stream_world \<Rightarrow> 'r stream_world" where
  "queue_down down w = (if down then w\<lparr>sw_queue := Shutdown_section (sw_queue w)\<rparr> else w)"

definition stream_forget ::
  "bool \<Rightarrow> nat \<Rightarrow> fault + 'r stream_await \<times> AsyncReadStreamImpl \<times> 'r stream_world
    \<Rightarrow> fault + 'r stream_await \<times> AsyncReadStreamImpl \<times> 'r stream_world" where
  "stream_forget have_ex t r = bindR r (\<lambda>(aw, self, w).
     bindR (ForgetOperation have_ex t (sw_queue w)) (\<lambda>q. Inr (aw, self, w\<lparr>sw_queue := q\<rparr>)))"

fun stream_deliver ::
  "bool \<Rightarrow> 'r \<Rightarrow> 'r stream_event \<Rightarrow> 'r stream_await \<times> AsyncReadStreamImpl \<times> 'r stream_world
    \<Rightarrow> (fault + 'r stream_await \<times> AsyncReadStreamImpl \<times> 'r stream_world) option" where
  "stream_deliver have_ex dr (Completion down tag ok r st) (Waiting t, self, w) =
     (case FindOperation have_ex t (sw_queue w) of
        Inl e \<Rightarrow> Some (Inl e)
      | Inr op \<Rightarrow>
          map_option (stream_forget have_ex t)
            (stream_settle 4 have_ex dr tag
              (Inr (Ready (snd (Notify ok (write_adapter r st op))), self,
                    (queue_down down w)\<lparr>sw_grpc := sw_grpc w @ [Completed ok]\<rparr>))))"
| "stream_deliver have_ex dr (Answer down tag answer) (AwaitAnswer, self, w) =
     stream_settle 4 have_ex dr tag (OnAnswer have_ex dr tag answer self (queue_down down w))"
| "stream_deliver have_ex dr _ st = Some (Inr st)"

fun stream_run ::
  "bool \<Rightarrow> 'r \<Rightarrow> 'r stream_event list \<Rightarrow> fault + 'r stream_await \<times> AsyncReadStreamImpl \<times> 'r stream_world
    \<Rightarrow> (fault + 'r stream_await \<times> AsyncReadStreamImpl \<times> 'r stream_world) option" where
  "stream_run have_ex dr [] r = Some r"
| "stream_run have_ex dr (ev # evs) r = (case r of
     Inl e \<Rightarrow> Some (Inl e)
   | Inr st \<Rightarrow> (case stream_deliver have_ex dr ev st of
        None \<Rightarrow> None
      | Some r' \<Rightarrow> stream_run have_ex dr evs r'))"

definition MakeStreamingReadRpc ::
  "bool \<Rightarrow> 'r \<Rightarrow> nat \<Rightarrow> 'r stream_world
    \<Rightarrow> (fault + 'r stream_await \<times> AsyncReadStreamImpl \<times> 'r stream_world) option" where
  "MakeStreamingReadRpc have_ex dr tag w =
     stream_settle 4 have_ex dr tag (AsyncReadStreamImpl_Start have_ex tag mk_AsyncReadStreamImpl w)"

section \<open>What gRPC requires\<close>

text \<open>
  One operation at a time, reads only after a successful start or read, \<^verbatim>\<open>Finish\<close> only after a failed
  start or read, nothing after it; \<^verbatim>\<open>TryCancel\<close> at any time after the start.
\<close>

datatype stream_phase = New | Starting | Idle | Reading | Failed | Finishing | Closed

fun protocol_step :: "grpc_call \<Rightarrow> stream_phase option \<Rightarrow> stream_phase option" where
  "protocol_step StartCall (Some New) = Some Starting"
| "protocol_step (Completed ok) (Some Starting) = Some (if ok then Idle else Failed)"
| "protocol_step ReadCall (Some Idle) = Some Reading"
| "protocol_step (Completed ok) (Some Reading) = Some (if ok then Idle else Failed)"
| "protocol_step FinishCall (Some Failed) = Some Finishing"
| "protocol_step (Completed ok) (Some Finishing) = Some Closed"
| "protocol_step TryCancel (Some p) = (if p = New then None else Some p)"
| "protocol_step _ _ = None"

definition protocol :: "grpc_call list \<Rightarrow> stream_phase option" where
  "protocol calls = fold protocol_step calls (Some New)"

section \<open>Invariant\<close>

fun adapter_phase :: "'r stream_adapter \<Rightarrow> stream_phase" where
  "adapter_phase NotifyStart = Starting"
| "adapter_phase (NotifyRead r) = Reading"
| "adapter_phase (NotifyDiscard r) = Reading"
| "adapter_phase (NotifyFinish st) = Finishing"

definition stream_ok :: "nat set \<Rightarrow> 'r stream_await \<times> AsyncReadStreamImpl \<times> 'r stream_world \<Rightarrow> bool" where
  "stream_ok K st \<longleftrightarrow> (case st of (aw, self, w) \<Rightarrow> context_set self \<and> (case aw of
     Ready n \<Rightarrow> False
   | Waiting t \<Rightarrow> reader_set self \<and> sw_on_finish w = [] \<and> fst ` set (pending_ops (sw_queue w)) \<subseteq> insert t K \<and>
       (\<exists>ad. map_of (pending_ops (sw_queue w)) t = Some (StreamOp ad) \<and> protocol (sw_grpc w) = Some (adapter_phase ad))
   | AwaitAnswer \<Rightarrow> reader_set self \<and> sw_on_finish w = [] \<and> fst ` set (pending_ops (sw_queue w)) \<subseteq> K \<and>
       protocol (sw_grpc w) = Some Idle
   | Finished \<Rightarrow> (\<exists>st. sw_on_finish w = [st]) \<and> protocol (sw_grpc w) \<noteq> None
   | Dropped \<Rightarrow> sw_on_finish w = [] \<and> protocol (sw_grpc w) = Some Idle))"

lemma protocol_append [simp]: "protocol (cs @ ds) = fold protocol_step ds (protocol cs)"
  by (simp add: protocol_def)

lemma protocol_Nil [simp]: "protocol [] = Some New"
  by (simp add: protocol_def)

lemma protocol_StartCall [simp]: "protocol [StartCall] = Some Starting"
  by (simp add: protocol_def)

lemma start_adapter_value:
  assumes "tag \<notin> fst ` set (pending_ops (sw_queue w))" "call = StartCall \<or> reader_set self"
  shows "start_adapter he tag ad call self w =
     (if shutdown (sw_queue w) then Inr (Ready (snd (Notify False (StreamOp ad))), self, w)
      else Inr (Waiting tag, self\<lparr>reader_set := True\<rparr>,
        w\<lparr>sw_queue := (sw_queue w)\<lparr>pending_ops := pending_ops (sw_queue w) @ [(tag, StreamOp ad)]\<rparr>, sw_grpc := sw_grpc w @ [call]\<rparr>))"
  using assms by (auto simp: start_adapter_def StartOperation_def map_of_None_iff)

text \<open>On a queue that is down every operation ends the stream, by \<^const>\<open>Finish\<close>.\<close>

lemma settle_down:
  assumes "shutdown (sw_queue w)" "tag \<notin> fst ` set (pending_ops (sw_queue w))" "call = StartCall \<or> reader_set self"
  shows "stream_settle (Suc (Suc (Suc k))) he dr tag (start_adapter he tag ad call self w) =
     Some (Inr (Finished, self, w\<lparr>sw_on_finish := sw_on_finish w @ [mk_Status kCancelled ''call cancelled'']\<rparr>))"
proof -
  have fin: "Finish he tag self w = Inr (Ready (OnFinish False (MakeStatusFromRpcError \<lparr>error_code = GRPC_OK, error_message = []\<rparr>)), self, w)"
  proof -
    have "start_adapter he tag (NotifyFinish \<lparr>error_code = GRPC_OK, error_message = []\<rparr>) FinishCall self w =
       (case StartOperation he tag (StreamOp (NotifyFinish \<lparr>error_code = GRPC_OK, error_message = []\<rparr>)) (\<lambda>op. op) (sw_queue w) of
          (Inl e, q) \<Rightarrow> Inl e | (Inr (Some n), q) \<Rightarrow> Inr (Ready n, self, w\<lparr>sw_queue := q\<rparr>)
        | (Inr None, q) \<Rightarrow> Inl (UB NullDeref))"
      using assms(1) by (simp add: start_adapter_def StartOperation_def)
    with assms(1) show ?thesis by (simp add: Finish_def StartOperation_def)
  qed
  show ?thesis
    unfolding start_adapter_value [OF assms(2,3)] using assms(1) fin
    by (cases ad) (simp_all add: stream_continue_def stream_OnStart_def stream_OnRead_def stream_OnFinish_def stream_OnDiscard_def)
qed

lemma settle_up:
  assumes "\<not> shutdown (sw_queue w)" "tag \<notin> fst ` set (pending_ops (sw_queue w))" "call = StartCall \<or> reader_set self"
  shows "stream_settle (Suc k) he dr tag (start_adapter he tag ad call self w) =
     Some (Inr (Waiting tag, self\<lparr>reader_set := True\<rparr>,
        w\<lparr>sw_queue := (sw_queue w)\<lparr>pending_ops := pending_ops (sw_queue w) @ [(tag, StreamOp ad)]\<rparr>, sw_grpc := sw_grpc w @ [call]\<rparr>))"
  using assms by (simp add: start_adapter_value)

text \<open>What the start of an operation leaves behind, for an operation the protocol allows.\<close>

lemma settle_start_ok:
  assumes "tag \<notin> fst ` set (pending_ops (sw_queue w))" "call = StartCall \<or> reader_set self" "context_set self"
    "sw_on_finish w = []" "fst ` set (pending_ops (sw_queue w)) \<subseteq> K"
    "protocol (sw_grpc w @ [call]) = Some (adapter_phase ad)" "protocol (sw_grpc w) \<noteq> None"
  shows "\<exists>r. stream_settle (Suc (Suc (Suc k))) he dr tag (start_adapter he tag ad call self w) = Some (Inr r) \<and>
     stream_ok K r \<and> (\<forall>t. fst r = Waiting t \<longrightarrow> t = tag) \<and>
     (\<exists>ops. pending_ops (sw_queue (snd (snd r))) = pending_ops (sw_queue w) @ ops) \<and>
     sw_on_read (snd (snd r)) = sw_on_read w"
proof (cases "shutdown (sw_queue w)")
  case True
  show ?thesis unfolding settle_down [OF True assms(1,2)] using assms by (simp add: stream_ok_def)
next
  case False
  have "stream_settle (Suc (Suc (Suc k))) he dr tag (start_adapter he tag ad call self w) =
     Some (Inr (Waiting tag, self\<lparr>reader_set := True\<rparr>,
        w\<lparr>sw_queue := (sw_queue w)\<lparr>pending_ops := pending_ops (sw_queue w) @ [(tag, StreamOp ad)]\<rparr>, sw_grpc := sw_grpc w @ [call]\<rparr>))"
    using False assms(1,2) by (rule settle_up)
  with assms map_of_snoc [OF assms(1), of "StreamOp ad"] show ?thesis by (auto simp: stream_ok_def)
qed

section \<open>Steps\<close>

lemma stream_forget_ok:
  assumes "stream_ok (insert t K) r" "\<forall>t'. fst r = Waiting t' \<longrightarrow> t' \<noteq> t"
    "t \<in> fst ` set (pending_ops (sw_queue (snd (snd r))))"
  shows "\<exists>r'. stream_forget he t (Inr r) = Inr r' \<and> stream_ok K r' \<and> fst r' = fst r \<and>
     sw_on_read (snd (snd r')) = sw_on_read (snd (snd r))"
proof -
  obtain aw self w where r: "r = (aw, self, w)" by (cases r)
  let ?q = "(sw_queue w)\<lparr>pending_ops := filter (\<lambda>kv. fst kv \<noteq> t) (pending_ops (sw_queue w))\<rparr>"
  have "stream_forget he t (Inr r) = Inr (aw, self, w\<lparr>sw_queue := ?q\<rparr>)"
    using assms(3) by (simp add: stream_forget_def r ForgetOperation_def)
  moreover have "stream_ok K (aw, self, w\<lparr>sw_queue := ?q\<rparr>)"
  proof (cases aw)
    case (Waiting t')
    with assms(1,2) show ?thesis by (auto simp: stream_ok_def r map_of_filter_other)
  qed (use assms(1) in \<open>auto simp: stream_ok_def r\<close>)
  ultimately show ?thesis by (simp add: r)
qed

lemma queue_down_simps [simp]:
  "pending_ops (sw_queue (queue_down d w)) = pending_ops (sw_queue w)" "sw_grpc (queue_down d w) = sw_grpc w"
  "sw_on_read (queue_down d w) = sw_on_read w" "sw_on_finish (queue_down d w) = sw_on_finish w"
  by (simp_all add: queue_down_def Shutdown_section_def)

lemmas stream_defs [cq_simps] = stream_continue_def stream_OnStart_def stream_OnRead_def stream_OnFinish_def stream_OnDiscard_def
  Read_def Finish_def Discard_def

text \<open>The member function that a notification calls, before the operation is forgotten.\<close>

lemma notification_ok:
  fixes d ok :: bool
  assumes "stream_ok K (Waiting t, self, w)" "tag \<notin> insert t K" "map_of (pending_ops (sw_queue w)) t = Some op"
  defines "w1 \<equiv> (queue_down d w)\<lparr>sw_grpc := sw_grpc w @ [Completed ok]\<rparr>"
  shows "\<exists>r. stream_settle 4 he dr tag (Inr (Ready (snd (Notify ok (write_adapter resp st op))), self, w1)) = Some (Inr r) \<and>
     stream_ok (insert t K) r \<and> (\<forall>t'. fst r = Waiting t' \<longrightarrow> t' = tag) \<and>
     (\<exists>ops. pending_ops (sw_queue (snd (snd r))) = pending_ops (sw_queue w) @ ops) \<and>
     sw_on_read (snd (snd r)) = (case op of StreamOp (NotifyRead x) \<Rightarrow> if ok then sw_on_read w @ [resp] else sw_on_read w
       | _ \<Rightarrow> sw_on_read w)"
proof -
  obtain ad where ad: "op = StreamOp ad" and ph: "protocol (sw_grpc w) = Some (adapter_phase ad)"
    using assms(1,3) by (auto simp: stream_ok_def)
  have facts: "context_set self" "reader_set self" "sw_on_finish w1 = []" "fst ` set (pending_ops (sw_queue w1)) \<subseteq> insert t K"
    "tag \<notin> fst ` set (pending_ops (sw_queue w1))"
    using assms(1,2) by (auto simp: stream_ok_def w1_def)
  have phase: "protocol (sw_grpc w1) = protocol_step (Completed ok) (Some (adapter_phase ad))" by (simp add: w1_def ph)
  have three: "(4::nat) = Suc (Suc (Suc (Suc 0)))" by simp
  have start: "\<exists>r. stream_settle (Suc (Suc (Suc 0))) he dr tag (start_adapter he tag ad' call self w1) = Some (Inr r) \<and>
     stream_ok (insert t K) r \<and> (\<forall>t'. fst r = Waiting t' \<longrightarrow> t' = tag) \<and>
     (\<exists>ops. pending_ops (sw_queue (snd (snd r))) = pending_ops (sw_queue w1) @ ops) \<and>
     sw_on_read (snd (snd r)) = sw_on_read w1"
    if "protocol_step call (protocol (sw_grpc w1)) = Some (adapter_phase ad')" for ad' call
    using facts that phase by (intro settle_start_ok) (auto simp del: stream_settle.simps)
  have w1: "pending_ops (sw_queue w1) = pending_ops (sw_queue w)" "sw_on_read w1 = sw_on_read w" by (simp_all add: w1_def)
  have go: "stream_settle 4 he dr tag (Inr (Ready n, self, w1)) =
      stream_settle (Suc (Suc (Suc 0))) he dr tag (stream_continue he dr tag n self w1)" for n
    unfolding three by (subst stream_settle.simps) simp
  show ?thesis
  proof (cases ad)
    case NotifyStart
    with start [of FinishCall "NotifyFinish \<lparr>error_code = GRPC_OK, error_message = []\<rparr>"] start [of ReadCall "NotifyRead dr"] phase w1
    show ?thesis unfolding ad go by (cases ok) (simp_all add: write_adapter_def cq_simps del: stream_settle.simps split_paired_Ex)
  next
    case (NotifyRead x)
    show ?thesis
    proof (cases ok)
      case False
      with start [of FinishCall "NotifyFinish \<lparr>error_code = GRPC_OK, error_message = []\<rparr>"] phase w1 NotifyRead
      show ?thesis unfolding ad go by (simp add: write_adapter_def cq_simps del: stream_settle.simps split_paired_Ex)
    next
      case True
      with facts phase w1 NotifyRead show ?thesis
        unfolding ad go by (simp add: write_adapter_def cq_simps stream_ok_def)
    qed
  next
    case (NotifyFinish x)
    with facts phase w1 show ?thesis
      unfolding ad go by (simp add: write_adapter_def cq_simps stream_ok_def)
  next
    case (NotifyDiscard x)
    with start [of FinishCall "NotifyFinish \<lparr>error_code = GRPC_OK, error_message = []\<rparr>"] start [of ReadCall "NotifyDiscard dr"] phase w1
    show ?thesis unfolding ad go by (cases ok) (simp_all add: write_adapter_def cq_simps del: stream_settle.simps split_paired_Ex)
  qed
qed

lemma deliver_step_ok:
  assumes "stream_ok K st" "ev_tag ev \<notin> K" "\<forall>t. fst st = Waiting t \<longrightarrow> ev_tag ev \<noteq> t"
  shows "\<exists>r. stream_deliver he dr ev st = Some (Inr r) \<and> stream_ok K r \<and>
     (\<forall>t. fst r = Waiting t \<longrightarrow> t = ev_tag ev \<or> fst st = Waiting t)"
proof -
  obtain aw self w where st: "st = (aw, self, w)" by (cases st)
  show ?thesis
  proof (cases "(he, dr, ev, st)" rule: stream_deliver.cases)
    case (1 he dr down tag ok r status t self w)
    obtain op where op: "map_of (pending_ops (sw_queue w)) t = Some op"
      using assms(1) 1 by (auto simp: stream_ok_def)
    have "stream_ok K (Waiting t, self, w)" "tag \<notin> insert t K" using assms 1 by auto
    from notification_ok [OF this op, where d = down and ok = ok and he = he and dr = dr and resp = r and st = status] obtain r' where
      r': "stream_settle 4 he dr tag (Inr (Ready (snd (Notify ok (write_adapter r status op))), self,
          (queue_down down w)\<lparr>sw_grpc := sw_grpc w @ [Completed ok]\<rparr>)) = Some (Inr r')" "stream_ok (insert t K) r'"
        "\<forall>t'. fst r' = Waiting t' \<longrightarrow> t' = tag" "\<exists>ops. pending_ops (sw_queue (snd (snd r'))) = pending_ops (sw_queue w) @ ops" by blast
    have "t \<in> fst ` set (pending_ops (sw_queue (snd (snd r'))))" using r'(4) op by (force dest: map_of_SomeD)
    from stream_forget_ok [OF r'(2) _ this, of he] r'(3) \<open>tag \<notin> insert t K\<close> obtain r'' where
      "stream_forget he t (Inr r') = Inr r''" "stream_ok K r''" "fst r'' = fst r'" by blast
    with r'(1,3) op 1 show ?thesis by (simp add: FindOperation_def)
  next
    case (2 he dr down tag answer self w)
    let ?w = "queue_down down w"
    have facts: "context_set self" "reader_set self" "sw_on_finish ?w = []" "fst ` set (pending_ops (sw_queue ?w)) \<subseteq> K"
      "tag \<notin> fst ` set (pending_ops (sw_queue ?w))" "protocol (sw_grpc ?w) = Some Idle"
      using assms 2 by (auto simp: stream_ok_def)
    consider "answer = None" | "answer = Some True" | "answer = Some False" by (cases answer) auto
    then show ?thesis
    proof cases
      case 1
      with facts 2 show ?thesis by (simp add: OnAnswer_def numeral_eq_Suc stream_ok_def)
    next
      case t: 2
      have "\<exists>r. stream_settle (Suc (Suc (Suc 1))) he dr tag (start_adapter he tag (NotifyRead dr) ReadCall self ?w) = Some (Inr r) \<and>
         stream_ok K r \<and> (\<forall>t. fst r = Waiting t \<longrightarrow> t = tag) \<and>
         (\<exists>ops. pending_ops (sw_queue (snd (snd r))) = pending_ops (sw_queue ?w) @ ops) \<and> sw_on_read (snd (snd r)) = sw_on_read ?w"
        using facts by (intro settle_start_ok) auto
      with t 2 show ?thesis by (auto simp: OnAnswer_def Read_def numeral_eq_Suc simp del: stream_settle.simps)
    next
      case f: 3
      let ?w' = "?w\<lparr>sw_grpc := sw_grpc ?w @ [TryCancel]\<rparr>"
      have "\<exists>r. stream_settle (Suc (Suc (Suc 1))) he dr tag (start_adapter he tag (NotifyDiscard dr) ReadCall self ?w') = Some (Inr r) \<and>
         stream_ok K r \<and> (\<forall>t. fst r = Waiting t \<longrightarrow> t = tag) \<and>
         (\<exists>ops. pending_ops (sw_queue (snd (snd r))) = pending_ops (sw_queue ?w') @ ops) \<and> sw_on_read (snd (snd r)) = sw_on_read ?w'"
        using facts by (intro settle_start_ok) auto
      with f 2 facts(1) show ?thesis
        by (auto simp: OnAnswer_def AsyncReadStreamImpl_Cancel_def Discard_def numeral_eq_Suc simp del: stream_settle.simps)
    qed
  qed (use assms(1) in auto)
qed

section \<open>Runs\<close>

lemma stream_run_ok:
  assumes "stream_ok K st" "distinct (map ev_tag evs)" "set (map ev_tag evs) \<inter> K = {}"
    "\<forall>t. fst st = Waiting t \<longrightarrow> t \<notin> set (map ev_tag evs)"
  shows "\<exists>r. stream_run he dr evs (Inr st) = Some (Inr r) \<and> stream_ok K r"
  using assms
proof (induction evs arbitrary: st)
  case Nil
  then show ?case by simp
next
  case (Cons ev evs)
  have "ev_tag ev \<notin> K" "\<forall>t. fst st = Waiting t \<longrightarrow> ev_tag ev \<noteq> t" using Cons.prems(3,4) by auto
  from deliver_step_ok [OF Cons.prems(1) this, of he dr] obtain r where
    r: "stream_deliver he dr ev st = Some (Inr r)" "stream_ok K r"
      "\<forall>t. fst r = Waiting t \<longrightarrow> t = ev_tag ev \<or> fst st = Waiting t" by blast
  have "\<forall>t. fst r = Waiting t \<longrightarrow> t \<notin> set (map ev_tag evs)" using r(3) Cons.prems(2,4) by fastforce
  with Cons.IH [OF r(2)] Cons.prems(2,3) r(1) show ?case by simp
qed

text \<open>Waiting for an operation of a given kind on an open queue.\<close>

definition at_op :: "nat set \<Rightarrow> nat \<Rightarrow> 'r stream_adapter \<Rightarrow> AsyncReadStreamImpl \<Rightarrow> 'r stream_world \<Rightarrow> bool" where
  "at_op K t ad self w \<longleftrightarrow> stream_ok K (Waiting t, self, w) \<and> map_of (pending_ops (sw_queue w)) t = Some (StreamOp ad) \<and>
     \<not> shutdown (sw_queue w)"

text \<open>The operation that follows a completion.\<close>

fun next_adapter :: "'r \<Rightarrow> 'r stream_adapter \<Rightarrow> bool \<Rightarrow> 'r stream_adapter" where
  "next_adapter dr NotifyStart True = NotifyRead dr"
| "next_adapter dr (NotifyDiscard r) True = NotifyDiscard dr"
| "next_adapter dr _ _ = NotifyFinish \<lparr>error_code = GRPC_OK, error_message = []\<rparr>"

lemma deliver_next:
  assumes at: "at_op K t ad self w" and tag: "tag \<notin> insert t K"
    and "\<not> (\<exists>st. ad = NotifyFinish st)" "\<not> (ok \<and> (\<exists>x. ad = NotifyRead x))"
  shows "\<exists>self' w'. stream_deliver he dr (Completion False tag ok r st) (Waiting t, self, w) = Some (Inr (Waiting tag, self', w')) \<and>
     at_op K tag (next_adapter dr ad ok) self' w' \<and> sw_on_read w' = sw_on_read w"
proof -
  have ok: "stream_ok K (Waiting t, self, w)" and op: "map_of (pending_ops (sw_queue w)) t = Some (StreamOp ad)"
    and up: "\<not> shutdown (sw_queue w)" using at by (simp_all add: at_op_def)
  let ?q = "(sw_queue w)\<lparr>pending_ops := filter (\<lambda>kv. fst kv \<noteq> t) (pending_ops (sw_queue w) @ [(tag, StreamOp (next_adapter dr ad ok))])\<rparr>"
  have t: "t \<in> fst ` set (pending_ops (sw_queue w))" using op by (force dest: map_of_SomeD)
  have fresh: "tag \<notin> fst ` set (pending_ops (sw_queue w))" "tag \<noteq> t" using ok tag by (auto simp: stream_ok_def)
  let ?call = "case next_adapter dr ad ok of NotifyFinish _ \<Rightarrow> FinishCall | _ \<Rightarrow> ReadCall"
  have "stream_deliver he dr (Completion False tag ok r st) (Waiting t, self, w) =
      Some (Inr (Waiting tag, self\<lparr>reader_set := True\<rparr>, w\<lparr>sw_grpc := sw_grpc w @ [Completed ok, ?call], sw_queue := ?q\<rparr>))"
    using assms(3,4) ok op up t fresh
    by (cases ad; cases ok)
      (simp_all add: FindOperation_def write_adapter_def queue_down_def numeral_eq_Suc cq_simps start_adapter_value stream_ok_def
        stream_forget_def ForgetOperation_def image_Un)
  then obtain self' w' where d: "stream_deliver he dr (Completion False tag ok r st) (Waiting t, self, w) =
      Some (Inr (Waiting tag, self', w'))" "sw_queue w' = ?q" "sw_on_read w' = sw_on_read w" by simp
  have "stream_ok K (Waiting tag, self', w')"
    using deliver_step_ok [OF ok, of "Completion False tag ok r st" he dr] tag d(1) by auto
  moreover have "map_of (pending_ops ?q) tag = Some (StreamOp (next_adapter dr ad ok))"
    using map_of_snoc [OF fresh(1)] fresh(2) by (simp add: map_of_filter_other del: filter_append)
  ultimately show ?thesis using d up by (auto simp: at_op_def)
qed

lemma deliver_message:
  assumes at: "at_op K t (NotifyRead x) self w" and tag: "tag \<notin> insert t K" "tag' \<notin> K" "tag' \<noteq> t"
  shows "\<exists>self1 w1 self' w'. stream_deliver he dr (Completion False tag True m st) (Waiting t, self, w) = Some (Inr (AwaitAnswer, self1, w1)) \<and>
     stream_deliver he dr (Answer False tag' (Some keep)) (AwaitAnswer, self1, w1) = Some (Inr (Waiting tag', self', w')) \<and>
     at_op K tag' (if keep then NotifyRead dr else NotifyDiscard dr) self' w' \<and> sw_on_read w' = sw_on_read w @ [m]"
proof -
  have ok: "stream_ok K (Waiting t, self, w)" and op: "map_of (pending_ops (sw_queue w)) t = Some (StreamOp (NotifyRead x))"
    and up: "\<not> shutdown (sw_queue w)" using at by (simp_all add: at_op_def)
  define P where "P = filter (\<lambda>kv. fst kv \<noteq> t) (pending_ops (sw_queue w))"
  define w1 where "w1 = w\<lparr>sw_queue := (sw_queue w)\<lparr>pending_ops := P\<rparr>, sw_grpc := sw_grpc w @ [Completed True], sw_on_read := sw_on_read w @ [m]\<rparr>"
  have t: "t \<in> fst ` set (pending_ops (sw_queue w))" using op by (force dest: map_of_SomeD)
  have 1: "stream_deliver he dr (Completion False tag True m st) (Waiting t, self, w) = Some (Inr (AwaitAnswer, self, w1))"
    using op t by (simp add: FindOperation_def write_adapter_def queue_down_def numeral_eq_Suc cq_simps stream_forget_def
        ForgetOperation_def w1_def P_def)
  have ok1: "stream_ok K (AwaitAnswer, self, w1)"
    using deliver_step_ok [OF ok, of "Completion False tag True m st" he dr] tag(1) 1 by auto
  then have fresh: "tag' \<notin> fst ` set P" "reader_set self" "context_set self" using tag(2) by (auto simp: stream_ok_def w1_def)
  let ?ad = "if keep then NotifyRead dr else NotifyDiscard dr"
  let ?calls = "if keep then [ReadCall] else [TryCancel, ReadCall]"
  have "stream_deliver he dr (Answer False tag' (Some keep)) (AwaitAnswer, self, w1) =
      Some (Inr (Waiting tag', self\<lparr>reader_set := True\<rparr>, w1\<lparr>sw_queue := (sw_queue w)\<lparr>pending_ops := P @ [(tag', StreamOp ?ad)]\<rparr>,
        sw_grpc := sw_grpc w1 @ ?calls\<rparr>))"
    using up fresh by (cases keep)
      (simp_all add: OnAnswer_def AsyncReadStreamImpl_Cancel_def queue_down_def numeral_eq_Suc cq_simps start_adapter_value w1_def)
  then obtain self' w' where 2: "stream_deliver he dr (Answer False tag' (Some keep)) (AwaitAnswer, self, w1) = Some (Inr (Waiting tag', self', w'))"
      "sw_queue w' = (sw_queue w)\<lparr>pending_ops := P @ [(tag', StreamOp ?ad)]\<rparr>" "sw_on_read w' = sw_on_read w @ [m]"
    by (simp add: w1_def)
  have "stream_ok K (Waiting tag', self', w')"
    using deliver_step_ok [OF ok1, of "Answer False tag' (Some keep)" he dr] tag(2) 2(1) by auto
  with 1 2 up map_of_snoc [OF fresh(1)] show ?thesis by (auto simp: at_op_def)
qed

section \<open>A whole stream\<close>

text \<open>Messages with the tags of their two events: the user wants to go on, or is no longer asked.\<close>

definition kept_events :: "grpc_Status \<Rightarrow> ('r \<times> nat \<times> nat) list \<Rightarrow> 'r stream_event list" where
  "kept_events st0 ms = concat (map (\<lambda>(m, t1, t2). [Completion False t1 True m st0, Answer False t2 (Some True)]) ms)"

definition discarded_events :: "grpc_Status \<Rightarrow> ('r \<times> nat) list \<Rightarrow> 'r stream_event list" where
  "discarded_events st0 ds = map (\<lambda>(m, t). Completion False t True m st0) ds"

text \<open>
  A stream: it starts, messages \<open>ms\<close> arrive, then the server ends it, or the user cancels it at
  message \<open>m\<close> and the server still sends \<open>ds\<close>; then \<^verbatim>\<open>Finish\<close> reports \<open>status\<close>.
\<close>

definition stream_script ::
  "'r \<Rightarrow> grpc_Status \<Rightarrow> nat \<times> nat \<times> nat \<Rightarrow> ('r \<times> nat \<times> nat) list \<Rightarrow> (('r \<times> nat \<times> nat) \<times> ('r \<times> nat) list) option \<Rightarrow> bool
    \<Rightarrow> grpc_Status \<Rightarrow> 'r stream_event list" where
  "stream_script dr st0 tags ms stop ok status = (case tags of (t1, t2, t3) \<Rightarrow>
     Completion False t1 True dr st0 # kept_events st0 ms @
     (case stop of None \<Rightarrow> []
      | Some ((m, a, b), ds) \<Rightarrow> Completion False a True m st0 # Answer False b (Some False) # discarded_events st0 ds) @
     [Completion False t2 False dr st0, Completion False t3 ok dr status])"

text \<open>One more event, and tags that are still unused.\<close>

definition unused :: "nat set \<Rightarrow> nat \<Rightarrow> 'r stream_event list \<Rightarrow> bool" where
  "unused K t evs \<longleftrightarrow> distinct (t # map ev_tag evs) \<and> set (map ev_tag evs) \<inter> K = {}"

lemma run_next:
  assumes "at_op K t ad self w" "unused K t (Completion False tag ok r st # evs)"
    "\<not> (\<exists>st. ad = NotifyFinish st)" "\<not> (ok \<and> (\<exists>x. ad = NotifyRead x))"
  shows "\<exists>self' w'. stream_run he dr (Completion False tag ok r st # evs) (Inr (Waiting t, self, w)) =
       stream_run he dr evs (Inr (Waiting tag, self', w')) \<and>
     at_op K tag (next_adapter dr ad ok) self' w' \<and> sw_on_read w' = sw_on_read w \<and> unused K tag evs"
proof -
  have "tag \<notin> insert t K" using assms(2) by (auto simp: unused_def)
  from deliver_next [OF assms(1) this assms(3,4), of he dr r st] assms(2) show ?thesis by (auto simp: unused_def)
qed

lemma run_message:
  assumes "at_op K t (NotifyRead x) self w" "unused K t (Completion False t1 True m st # Answer False t2 (Some keep) # evs)"
  shows "\<exists>self' w'. stream_run he dr (Completion False t1 True m st # Answer False t2 (Some keep) # evs) (Inr (Waiting t, self, w)) =
       stream_run he dr evs (Inr (Waiting t2, self', w')) \<and>
     at_op K t2 (if keep then NotifyRead dr else NotifyDiscard dr) self' w' \<and> sw_on_read w' = sw_on_read w @ [m] \<and>
     unused K t2 evs"
proof -
  have "t1 \<notin> insert t K" "t2 \<notin> K" "t2 \<noteq> t" using assms(2) by (auto simp: unused_def)
  from deliver_message [OF assms(1) this, of he dr m st keep] obtain self1 w1 self' w' where
    "stream_deliver he dr (Completion False t1 True m st) (Waiting t, self, w) = Some (Inr (AwaitAnswer, self1, w1))"
    "stream_deliver he dr (Answer False t2 (Some keep)) (AwaitAnswer, self1, w1) = Some (Inr (Waiting t2, self', w'))"
    "at_op K t2 (if keep then NotifyRead dr else NotifyDiscard dr) self' w'" "sw_on_read w' = sw_on_read w @ [m]" by blast
  with assms(2) show ?thesis
    by (intro exI [of _ self'] exI [of _ w']) (simp add: unused_def del: stream_deliver.simps)
qed

lemma run_kept:
  assumes "at_op K t (NotifyRead x) self w" "unused K t (kept_events st0 ms @ evs)"
  shows "\<exists>t' x' self' w'. stream_run he dr (kept_events st0 ms @ evs) (Inr (Waiting t, self, w)) =
       stream_run he dr evs (Inr (Waiting t', self', w')) \<and>
     at_op K t' (NotifyRead x') self' w' \<and> sw_on_read w' = sw_on_read w @ map fst ms \<and> unused K t' evs"
  using assms
proof (induction ms arbitrary: t x self w)
  case Nil
  then show ?case by (auto simp: kept_events_def)
next
  case (Cons msg ms)
  obtain m t1 t2 where msg: "msg = (m, t1, t2)" by (cases msg)
  have evs: "kept_events st0 (msg # ms) @ evs =
      Completion False t1 True m st0 # Answer False t2 (Some True) # kept_events st0 ms @ evs"
    by (simp add: kept_events_def msg)
  from run_message [OF Cons.prems(1) Cons.prems(2) [unfolded evs], of he dr] obtain self1 w1 where
    1: "stream_run he dr (kept_events st0 (msg # ms) @ evs) (Inr (Waiting t, self, w)) =
       stream_run he dr (kept_events st0 ms @ evs) (Inr (Waiting t2, self1, w1))"
      "at_op K t2 (NotifyRead dr) self1 w1" "sw_on_read w1 = sw_on_read w @ [m]" "unused K t2 (kept_events st0 ms @ evs)"
    unfolding evs by auto
  from Cons.IH [OF 1(2,4)] 1(1,3) show ?case by (simp add: msg)
qed

lemma run_discarded:
  assumes "at_op K t (NotifyDiscard x) self w" "unused K t (discarded_events st0 ds @ evs)"
  shows "\<exists>t' x' self' w'. stream_run he dr (discarded_events st0 ds @ evs) (Inr (Waiting t, self, w)) =
       stream_run he dr evs (Inr (Waiting t', self', w')) \<and>
     at_op K t' (NotifyDiscard x') self' w' \<and> sw_on_read w' = sw_on_read w \<and> unused K t' evs"
  using assms
proof (induction ds arbitrary: t x self w)
  case Nil
  then show ?case by (auto simp: discarded_events_def)
next
  case (Cons d ds)
  obtain m t1 where d: "d = (m, t1)" by (cases d)
  have evs: "discarded_events st0 (d # ds) @ evs = Completion False t1 True m st0 # discarded_events st0 ds @ evs"
    by (simp add: discarded_events_def d)
  from run_next [OF Cons.prems(1) Cons.prems(2) [unfolded evs], of he dr] obtain self1 w1 where
    1: "stream_run he dr (discarded_events st0 (d # ds) @ evs) (Inr (Waiting t, self, w)) =
       stream_run he dr (discarded_events st0 ds @ evs) (Inr (Waiting t1, self1, w1))"
      "at_op K t1 (NotifyDiscard dr) self1 w1" "sw_on_read w1 = sw_on_read w" "unused K t1 (discarded_events st0 ds @ evs)"
    unfolding evs by auto
  from Cons.IH [OF 1(2,4)] 1(1,3) show ?case by simp
qed

text \<open>The end: a read fails, \<^verbatim>\<open>Finish\<close> is called and completes.\<close>

lemma run_end:
  assumes "at_op K t ad self w" "unused K t [Completion False t2 False dr st0, Completion False t3 ok dr status]"
    "\<not> (\<exists>st. ad = NotifyFinish st)"
  shows "\<exists>self' w'. stream_run he dr [Completion False t2 False dr st0, Completion False t3 ok dr status] (Inr (Waiting t, self, w)) =
       Some (Inr (Finished, self', w')) \<and> sw_on_read w' = sw_on_read w \<and>
     sw_on_finish w' = [if ok then MakeStatusFromRpcError status else mk_Status kCancelled ''call cancelled'']"
proof -
  have "next_adapter dr ad False = NotifyFinish \<lparr>error_code = GRPC_OK, error_message = []\<rparr>" using assms(3) by (cases ad) auto
  with run_next [OF assms(1,2,3), of he dr] obtain self1 w1 where
    1: "stream_run he dr [Completion False t2 False dr st0, Completion False t3 ok dr status] (Inr (Waiting t, self, w)) =
       stream_run he dr [Completion False t3 ok dr status] (Inr (Waiting t2, self1, w1))"
      "at_op K t2 (NotifyFinish \<lparr>error_code = GRPC_OK, error_message = []\<rparr>) self1 w1" "sw_on_read w1 = sw_on_read w" by auto
  have op: "map_of (pending_ops (sw_queue w1)) t2 = Some (StreamOp (NotifyFinish \<lparr>error_code = GRPC_OK, error_message = []\<rparr>))"
    "sw_on_finish w1 = []" using 1(2) by (simp_all add: at_op_def stream_ok_def)
  then have "t2 \<in> fst ` set (pending_ops (sw_queue w1))" by (force dest: map_of_SomeD)
  with 1 op show ?thesis
    by (simp add: FindOperation_def write_adapter_def queue_down_def numeral_eq_Suc cq_simps stream_forget_def ForgetOperation_def)
qed

definition new_world :: "'r CompletionQueueImpl \<Rightarrow> 'r stream_world" where
  "new_world q = \<lparr>sw_queue = q, sw_grpc = [], sw_on_read = [], sw_on_finish = []\<rparr>"

lemma start_at_op:
  assumes "t \<notin> fst ` set (pending_ops q)" "\<not> shutdown q"
  shows "\<exists>self w. MakeStreamingReadRpc he dr t (new_world q) = Some (Inr (Waiting t, self, w)) \<and>
     at_op (fst ` set (pending_ops q)) t NotifyStart self w \<and> sw_on_read w = []"
  using assms map_of_snoc [OF assms(1), of "StreamOp NotifyStart"]
  by (auto simp: MakeStreamingReadRpc_def AsyncReadStreamImpl_Start_def start_adapter_value new_world_def numeral_eq_Suc
      at_op_def stream_ok_def mk_AsyncReadStreamImpl_def)

text \<open>Every run ends in a state of the invariant.\<close>

lemma read_stream_runs:
  assumes "distinct (t # map ev_tag evs)" "set (t # map ev_tag evs) \<inter> fst ` set (pending_ops q) = {}"
  shows "\<exists>st aw self w. MakeStreamingReadRpc he dr t (new_world q) = Some (Inr st) \<and>
     stream_run he dr evs (Inr st) = Some (Inr (aw, self, w)) \<and> stream_ok (fst ` set (pending_ops q)) (aw, self, w) \<and>
     (shutdown q \<longrightarrow> sw_on_finish w = [mk_Status kCancelled ''call cancelled''] \<and> sw_grpc w = [])"
proof (cases "shutdown q")
  case False
  have t: "t \<notin> fst ` set (pending_ops q)" using assms(2) by auto
  obtain self w where st: "MakeStreamingReadRpc he dr t (new_world q) = Some (Inr (Waiting t, self, w))"
    "at_op (fst ` set (pending_ops q)) t NotifyStart self w" using start_at_op [OF t False] by metis
  have "\<exists>r. stream_run he dr evs (Inr (Waiting t, self, w)) = Some (Inr r) \<and> stream_ok (fst ` set (pending_ops q)) r"
    using assms st(2) by (intro stream_run_ok) (auto simp: at_op_def)
  with st(1) False show ?thesis by fastforce
next
  case True
  let ?self = "mk_AsyncReadStreamImpl\<lparr>context_set := True\<rparr>"
  let ?w = "(new_world q)\<lparr>sw_on_finish := [mk_Status kCancelled ''call cancelled'']\<rparr>"
  have "MakeStreamingReadRpc he dr t (new_world q) = Some (Inr (Finished, ?self, ?w))"
    using settle_down [where w = "new_world q" and tag = t and call = StartCall and self = ?self and k = 1 and ad = NotifyStart] True assms(2)
    by (simp add: MakeStreamingReadRpc_def AsyncReadStreamImpl_Start_def new_world_def numeral_eq_Suc del: stream_settle.simps)
  moreover have "stream_run he dr evs (Inr (Finished, ?self, ?w)) = Some (Inr (Finished, ?self, ?w))"
    by (induction evs) simp_all
  ultimately show ?thesis by (auto simp: new_world_def stream_ok_def)
qed

lemma stream_ok_finishes:
  "stream_ok K (aw, self, w) \<Longrightarrow>
     protocol (sw_grpc w) \<noteq> None \<and> length (sw_on_finish w) \<le> 1 \<and> (sw_on_finish w \<noteq> [] \<longleftrightarrow> aw = Finished)"
  by (cases aw) (auto simp: stream_ok_def)

section \<open>Properties\<close>

text \<open>
  C16: whatever gRPC reports, the user answers and whenever the queue is shut down, a read stream never
  faults, follows the protocol of gRPC (one operation at a time, \<^verbatim>\<open>Finish\<close> once and only after a failed
  read or start, nothing afterwards), and calls \<open>on_finish\<close> at most once, exactly when it is done;
  on a queue that is down already it calls it at once, without having called gRPC.
\<close>

theorem read_stream_protocol:
  assumes "distinct (t # map ev_tag evs)" "set (t # map ev_tag evs) \<inter> fst ` set (pending_ops q) = {}"
  shows "\<exists>st aw self w. MakeStreamingReadRpc he dr t (new_world q) = Some (Inr st) \<and>
     stream_run he dr evs (Inr st) = Some (Inr (aw, self, w)) \<and> protocol (sw_grpc w) \<noteq> None \<and>
     length (sw_on_finish w) \<le> 1 \<and> (sw_on_finish w \<noteq> [] \<longleftrightarrow> aw = Finished) \<and>
     (shutdown q \<longrightarrow> sw_on_finish w = [mk_Status kCancelled ''call cancelled''] \<and> sw_grpc w = [])"
  using read_stream_runs [OF assms, of he dr] stream_ok_finishes by metis

theorem read_stream_protocol_witness:
  "\<exists>st aw self w. MakeStreamingReadRpc True (0 :: int) 1 (new_world mk_CompletionQueueImpl) = Some (Inr st) \<and>
     stream_run True 0 [Completion True 2 True 0 \<lparr>error_code = GRPC_OK, error_message = []\<rparr>] (Inr st) = Some (Inr (aw, self, w)) \<and>
     protocol (sw_grpc w) \<noteq> None \<and> length (sw_on_finish w) \<le> 1"
  using read_stream_protocol [of 1 "[Completion True 2 True (0 :: int) \<lparr>error_code = GRPC_OK, error_message = []\<rparr>]" mk_CompletionQueueImpl True 0]
  unfolding mk_CompletionQueueImpl_def by (simp only: list.map distinct.simps list.set) auto

text \<open>
  C17: on an open queue \<open>on_read\<close> gets exactly the messages of the stream, in order, up to and including
  the one at which the user cancelled; messages that arrive after that are discarded; and \<open>on_finish\<close>
  is called once, with the status of the stream.
\<close>

theorem read_stream_delivers:
  fixes ms :: "('r \<times> nat \<times> nat) list"
  assumes "evs = stream_script dr st0 tags ms stop ok status" "distinct (t # map ev_tag evs)" "set (t # map ev_tag evs) \<inter> fst ` set (pending_ops q) = {}" "\<not> shutdown q"
  shows "\<exists>st self w. MakeStreamingReadRpc he dr t (new_world q) = Some (Inr st) \<and>
     stream_run he dr evs (Inr st) = Some (Inr (Finished, self, w)) \<and>
     sw_on_read w = map fst ms @ (case stop of None \<Rightarrow> [] | Some (m, ds) \<Rightarrow> [fst m]) \<and>
     sw_on_finish w = [if ok then MakeStatusFromRpcError status else mk_Status kCancelled ''call cancelled'']"
proof -
  let ?K = "fst ` set (pending_ops q)"
  obtain t1 t2 t3 where tags: "tags = (t1, t2, t3)" by (cases tags)
  let ?closing = "[Completion False t2 False dr st0, Completion False t3 ok dr status]"
  define rest where "rest = (case stop of None \<Rightarrow> []
      | Some ((m, a, b), ds) \<Rightarrow> Completion False a True m st0 # Answer False b (Some False) # discarded_events st0 ds) @ ?closing"
  have evs: "evs = Completion False t1 True dr st0 # kept_events st0 ms @ rest"
    by (simp add: assms(1) stream_script_def tags rest_def)
  have t: "t \<notin> ?K" using assms(3) by auto
  obtain self w where st: "MakeStreamingReadRpc he dr t (new_world q) = Some (Inr (Waiting t, self, w))"
    "at_op ?K t NotifyStart self w" "sw_on_read w = []" using start_at_op [OF t assms(4)] by metis
  have "unused ?K t evs" using assms(2,3) by (auto simp: unused_def)
  with run_next [OF st(2), of t1 True dr st0 "kept_events st0 ms @ rest" he dr] obtain self1 w1 where
    1: "stream_run he dr evs (Inr (Waiting t, self, w)) = stream_run he dr (kept_events st0 ms @ rest) (Inr (Waiting t1, self1, w1))"
      "at_op ?K t1 (NotifyRead dr) self1 w1" "sw_on_read w1 = []" "unused ?K t1 (kept_events st0 ms @ rest)"
    by (auto simp: evs st(3))
  from run_kept [OF 1(2,4), of he dr] obtain t' x self2 w2 where
    2: "stream_run he dr (kept_events st0 ms @ rest) (Inr (Waiting t1, self1, w1)) = stream_run he dr rest (Inr (Waiting t', self2, w2))"
      "at_op ?K t' (NotifyRead x) self2 w2" "sw_on_read w2 = map fst ms" "unused ?K t' rest" using 1(3) by auto
  have "\<exists>self' w'. stream_run he dr rest (Inr (Waiting t', self2, w2)) = Some (Inr (Finished, self', w')) \<and>
      sw_on_read w' = map fst ms @ (case stop of None \<Rightarrow> [] | Some (m, ds) \<Rightarrow> [fst m]) \<and>
      sw_on_finish w' = [if ok then MakeStatusFromRpcError status else mk_Status kCancelled ''call cancelled'']"
  proof (cases stop)
    case None
    with run_end [OF 2(2), of t2 dr st0 t3 ok status he] 2(3,4) show ?thesis by (simp add: rest_def)
  next
    case (Some s)
    obtain m a b ds where s: "s = ((m, a, b), ds)" by (cases s) auto
    have r: "rest = Completion False a True m st0 # Answer False b (Some False) # discarded_events st0 ds @ ?closing"
      by (simp add: rest_def Some s)
    from run_message [OF 2(2) 2(4) [unfolded r], of he dr] obtain self3 w3 where
      3: "stream_run he dr rest (Inr (Waiting t', self2, w2)) = stream_run he dr (discarded_events st0 ds @ ?closing) (Inr (Waiting b, self3, w3))"
        "at_op ?K b (NotifyDiscard dr) self3 w3" "sw_on_read w3 = map fst ms @ [m]" "unused ?K b (discarded_events st0 ds @ ?closing)"
      unfolding r using 2(3) by auto
    from run_discarded [OF 3(2,4), of he dr] obtain t'' x' self4 w4 where
      4: "stream_run he dr (discarded_events st0 ds @ ?closing) (Inr (Waiting b, self3, w3)) = stream_run he dr ?closing (Inr (Waiting t'', self4, w4))"
        "at_op ?K t'' (NotifyDiscard x') self4 w4" "sw_on_read w4 = map fst ms @ [m]" "unused ?K t'' ?closing" using 3(3) by auto
    from run_end [OF 4(2,4), of he] 4(3) show ?thesis unfolding 3(1) 4(1) by (simp add: Some s)
  qed
  with st(1) 1(1) 2(1) show ?thesis by metis
qed

theorem read_stream_delivers_witness:
  "\<exists>st self w. MakeStreamingReadRpc True (0 :: int) 9 (new_world mk_CompletionQueueImpl) = Some (Inr st) \<and>
     stream_run True 0 (stream_script 0 \<lparr>error_code = GRPC_OK, error_message = []\<rparr> (1, 2, 3) [(10, 4, 5)] (Some ((20, 6, 7), [(30, 8)])) True
       \<lparr>error_code = GRPC_CANCELLED, error_message = ''x''\<rparr>) (Inr st) = Some (Inr (Finished, self, w)) \<and>
     sw_on_read w = [10, 20] \<and>
     sw_on_finish w = [MakeStatusFromRpcError \<lparr>error_code = GRPC_CANCELLED, error_message = ''x''\<rparr>]"
proof -
  let ?evs = "stream_script (0 :: int) \<lparr>error_code = GRPC_OK, error_message = []\<rparr> (1, 2, 3) [(10, 4, 5)] (Some ((20, 6, 7), [(30, 8)])) True
       \<lparr>error_code = GRPC_CANCELLED, error_message = ''x''\<rparr>"
  have tags: "map ev_tag ?evs = [1, 4, 5, 6, 7, 8, 2, 3]"
    by (simp add: stream_script_def kept_events_def discarded_events_def)
  have "distinct (9 # map ev_tag ?evs)" "set (9 # map ev_tag ?evs) \<inter> fst ` set (pending_ops (mk_CompletionQueueImpl :: int CompletionQueueImpl)) = {}"
    "\<not> shutdown (mk_CompletionQueueImpl :: int CompletionQueueImpl)"
    unfolding tags by (simp_all add: mk_CompletionQueueImpl_def)
  from read_stream_delivers [OF refl this, of True] show ?thesis by simp
qed

text \<open>
  An exception in the future that \<open>on_read\<close> returned ends in the future of the continuation, which
  nobody holds: from then on the stream ignores every event, and \<open>on_finish\<close> is not called.
\<close>

lemma read_stream_exception_drops_stream:
  "stream_run he dr (Answer down t None # evs) (Inr (AwaitAnswer, self, w)) = Some (Inr (Dropped, self, queue_down down w)) \<and>
   sw_on_finish (queue_down down w) = sw_on_finish w"
proof -
  have "stream_run he dr evs (Inr (Dropped, self, w')) = Some (Inr (Dropped, self, w'))" for w'
    by (induction evs) simp_all
  then show ?thesis by (simp add: OnAnswer_def numeral_eq_Suc queue_down_def)
qed

end
