(* ===== verification/Filesystem.thy ===== *)
theory Filesystem
  imports Lifetime
begin

unbundle bit_operations_syntax

text \<open>
  File status (\<^verbatim>\<open>internal/filesystem.{h,cc}\<close>). The system call, \<^verbatim>\<open>stat\<close> on POSIX systems and \<^verbatim>\<open>_stat\<close>
  on Windows, is an argument; which of the two it is selects the branch of the preprocessor. Permissions
  are the values of the enumeration as 32-bit words.
\<close>

section \<open>Types\<close>

datatype file_type =
    ft_none | ft_not_found | ft_regular | ft_directory | ft_symlink | ft_block | ft_character | ft_fifo | ft_socket
  | ft_unknown

type_synonym perms = "32 word"

definition perms_none :: perms where "perms_none = 0"
definition perms_owner_read :: perms where "perms_owner_read = 0x100"
definition perms_owner_write :: perms where "perms_owner_write = 0x80"
definition perms_owner_exec :: perms where "perms_owner_exec = 0x40"
definition perms_owner_all :: perms where "perms_owner_all = 0x1C0"
definition perms_group_read :: perms where "perms_group_read = 0x20"
definition perms_group_write :: perms where "perms_group_write = 0x10"
definition perms_group_exec :: perms where "perms_group_exec = 8"
definition perms_group_all :: perms where "perms_group_all = 0x38"
definition perms_others_read :: perms where "perms_others_read = 4"
definition perms_others_write :: perms where "perms_others_write = 2"
definition perms_others_exec :: perms where "perms_others_exec = 1"
definition perms_others_all :: perms where "perms_others_all = 7"
definition perms_set_uid :: perms where "perms_set_uid = 0x800"
definition perms_set_gid :: perms where "perms_set_gid = 0x400"
definition perms_sticky_bit :: perms where "perms_sticky_bit = 0x200"
definition perms_all :: perms where "perms_all = 0x1FF"
definition perms_mask :: perms where "perms_mask = 0xFFF"
definition perms_unknown :: perms where "perms_unknown = 0xFFFF"

definition perms_and :: "perms \<Rightarrow> perms \<Rightarrow> perms" where
  "perms_and lhs rhs = lhs AND rhs"

definition perms_or :: "perms \<Rightarrow> perms \<Rightarrow> perms" where
  "perms_or lhs rhs = lhs OR rhs"

definition perms_xor :: "perms \<Rightarrow> perms \<Rightarrow> perms" where
  "perms_xor lhs rhs = lhs XOR rhs"

definition perms_not :: "perms \<Rightarrow> perms" where
  "perms_not lhs = perms_mask AND NOT lhs"

text \<open>The assignments, with the new value of the left operand and the result.\<close>

definition perms_and_assign :: "perms \<Rightarrow> perms \<Rightarrow> perms \<times> perms" where
  "perms_and_assign lhs rhs = (let lhs = perms_and lhs rhs in (lhs, lhs))"

definition perms_or_assign :: "perms \<Rightarrow> perms \<Rightarrow> perms \<times> perms" where
  "perms_or_assign lhs rhs = (let lhs = perms_or lhs rhs in (lhs, lhs))"

definition perms_xor_assign :: "perms \<Rightarrow> perms \<Rightarrow> perms \<times> perms" where
  "perms_xor_assign lhs rhs = (let lhs = perms_xor lhs rhs in (lhs, lhs))"

section \<open>Status of a file\<close>

record file_status =
  fs_type :: file_type
  fs_permissions :: perms

text \<open>The constructors: the permissions default to unknown, the type to none.\<close>

definition mk_file_status :: "file_type \<Rightarrow> file_status" where
  "mk_file_status t = \<lparr>fs_type = t, fs_permissions = perms_unknown\<rparr>"

definition file_status_default :: file_status where
  "file_status_default = mk_file_status ft_none"

definition file_status_set_type :: "file_type \<Rightarrow> file_status \<Rightarrow> file_status" where
  "file_status_set_type t s = s\<lparr>fs_type := t\<rparr>"

definition file_status_set_permissions :: "perms \<Rightarrow> file_status \<Rightarrow> file_status" where
  "file_status_set_permissions p s = s\<lparr>fs_permissions := p\<rparr>"

definition status_known :: "file_status \<Rightarrow> bool" where
  "status_known s \<longleftrightarrow> fs_type s \<noteq> ft_none"

definition is_block_file :: "file_status \<Rightarrow> bool" where
  "is_block_file s \<longleftrightarrow> fs_type s = ft_block"

definition is_character_file :: "file_status \<Rightarrow> bool" where
  "is_character_file s \<longleftrightarrow> fs_type s = ft_character"

definition is_directory :: "file_status \<Rightarrow> bool" where
  "is_directory s \<longleftrightarrow> fs_type s = ft_directory"

definition is_fifo :: "file_status \<Rightarrow> bool" where
  "is_fifo s \<longleftrightarrow> fs_type s = ft_fifo"

definition is_regular :: "file_status \<Rightarrow> bool" where
  "is_regular s \<longleftrightarrow> fs_type s = ft_regular"

definition is_socket :: "file_status \<Rightarrow> bool" where
  "is_socket s \<longleftrightarrow> fs_type s = ft_socket"

definition is_symlink :: "file_status \<Rightarrow> bool" where
  "is_symlink s \<longleftrightarrow> fs_type s = ft_symlink"

definition file_exists :: "file_status \<Rightarrow> bool" where
  "file_exists s \<longleftrightarrow> status_known s \<and> fs_type s \<noteq> ft_not_found"

definition is_other :: "file_status \<Rightarrow> bool" where
  "is_other s \<longleftrightarrow> file_exists s \<and> \<not> is_regular s \<and> \<not> is_directory s \<and> \<not> is_symlink s"

section \<open>The system call\<close>

record os_stat_type =
  st_mode :: "32 word"
  st_size :: "64 word"

text \<open>
  On POSIX the call yields an errno or fills the structure. On Windows it returns a number, sets errno
  and fills the structure, whose narrower members are widened here, the size with its sign.
\<close>

datatype os =
    Posix "string \<Rightarrow> int + os_stat_type"
  | Win32 "string \<Rightarrow> int \<times> int \<times> os_stat_type"

text \<open>The \<^verbatim>\<open>S_ISxxx\<close> macros compare the file type bits of the mode.\<close>

definition S_IFMT :: "32 word \<Rightarrow> 32 word" where
  "S_IFMT mode = mode AND 0xF000"

definition ENOENT :: int where "ENOENT = 2"
definition EACCES :: int where "EACCES = 13"
definition EINVAL :: int where "EINVAL = 22"

definition ExtractPermissions :: "bool \<Rightarrow> os_stat_type \<Rightarrow> perms" where
  "ExtractPermissions win32 s =
     (if win32 then
        (let permissions = perms_none;
             permissions = (if st_mode s AND 0x100 \<noteq> 0 then fst (perms_or_assign permissions perms_owner_read) else permissions);
             permissions = (if st_mode s AND 0x80 \<noteq> 0 then fst (perms_or_assign permissions perms_owner_write) else permissions)
         in if st_mode s AND 0x40 \<noteq> 0 then fst (perms_or_assign permissions perms_owner_exec) else permissions)
      else st_mode s AND perms_mask)"

definition ExtractFileType :: "bool \<Rightarrow> os_stat_type \<Rightarrow> file_type" where
  "ExtractFileType win32 s =
     (if win32 then
        if st_mode s AND 0x8000 \<noteq> 0 then ft_regular
        else if st_mode s AND 0x4000 \<noteq> 0 then ft_directory
        else if st_mode s AND 0x2000 \<noteq> 0 then ft_character
        else ft_unknown
      else if S_IFMT (st_mode s) = 0x8000 then ft_regular
      else if S_IFMT (st_mode s) = 0x4000 then ft_directory
      else if S_IFMT (st_mode s) = 0x6000 then ft_block
      else if S_IFMT (st_mode s) = 0x2000 then ft_character
      else if S_IFMT (st_mode s) = 0x1000 then ft_fifo
      else if S_IFMT (st_mode s) = 0xC000 then ft_socket
      else ft_unknown)"

text \<open>The overloads with an error code return it with the result, zero when it is clear.\<close>

fun status_ec :: "os \<Rightarrow> string \<Rightarrow> int \<times> file_status" where
  "status_ec (Win32 os_stat) path =
     (let (r, errno, st) = os_stat (c_str path) in
      if r = - 1 then
        if errno = ENOENT then (0, mk_file_status ft_not_found)
        else (errno, file_status_default)
      else if r = EINVAL then (errno, file_status_default)
      else (0, \<lparr>fs_type = ExtractFileType True st, fs_permissions = ExtractPermissions True st\<rparr>))"
| "status_ec (Posix os_stat) path =
     (case os_stat (c_str path) of
        Inl errno \<Rightarrow>
          if errno = EACCES then (0, mk_file_status ft_unknown)
          else if errno = ENOENT then (0, mk_file_status ft_not_found)
          else (errno, file_status_default)
      | Inr st \<Rightarrow> (0, \<lparr>fs_type = ExtractFileType False st, fs_permissions = ExtractPermissions False st\<rparr>))"

definition status ::
  "bool \<Rightarrow> (int \<Rightarrow> string) \<Rightarrow> os \<Rightarrow> string \<Rightarrow> fault + file_status" where
  "status have_ex ec_message os path =
     (let (ec, s) = status_ec os path in
      if ec \<noteq> 0 then Inl (Abn (ThrowSystemError have_ex ec_message ec (''status: getting status of file='' @ path)))
      else Inr s)"

fun file_size_ec :: "os \<Rightarrow> string \<Rightarrow> int \<times> 64 word" where
  "file_size_ec (Win32 os_stat) path =
     (let (r, errno, st) = os_stat (c_str path) in
      if r = - 1 then (errno, - 1)
      else if r = EINVAL then (errno, - 1)
      else (0, st_size st))"
| "file_size_ec (Posix os_stat) path =
     (case os_stat (c_str path) of Inl errno \<Rightarrow> (errno, - 1) | Inr st \<Rightarrow> (0, st_size st))"

definition file_size ::
  "bool \<Rightarrow> (int \<Rightarrow> string) \<Rightarrow> os \<Rightarrow> string \<Rightarrow> fault + 64 word" where
  "file_size have_ex ec_message os path =
     (let (ec, s) = file_size_ec os path in
      if ec \<noteq> 0 then Inl (Abn (ThrowSystemError have_ex ec_message ec (''file_size: getting size of file='' @ path)))
      else Inr s)"

section \<open>Permissions\<close>

text \<open>The operations on permissions are those of the subsets of the mask.\<close>

definition wf_perms :: "perms \<Rightarrow> bool" where
  "wf_perms p \<longleftrightarrow> p AND NOT perms_mask = 0"

lemma wf_perms_iff: "wf_perms p \<longleftrightarrow> p AND perms_mask = p"
proof -
  have split: "p = (p AND perms_mask) OR (p AND NOT perms_mask)"
    by (metis bit.conj_cancel_right bit.conj_disj_distrib bit.conj_one_right bit.disj_cancel_right)
  show ?thesis
  proof
    assume "wf_perms p"
    with split show "p AND perms_mask = p" by (simp add: wf_perms_def)
  next
    assume a: "p AND perms_mask = p"
    have "p AND NOT perms_mask = (p AND perms_mask) AND NOT perms_mask" by (simp only: a)
    then show "wf_perms p" by (simp add: wf_perms_def and.assoc)
  qed
qed

section \<open>What the system said\<close>

text \<open>The outcome of the system call: the errno it failed with, or the structure it filled.\<close>

fun os_outcome :: "os \<Rightarrow> string \<Rightarrow> int + os_stat_type" where
  "os_outcome (Posix os_stat) path = os_stat (c_str path)"
| "os_outcome (Win32 os_stat) path =
     (let (r, errno, st) = os_stat (c_str path) in if r = - 1 \<or> r = EINVAL then Inl errno else Inr st)"

text \<open>The failures that \<^verbatim>\<open>status\<close> reports as a status: a directory that forbids access only on POSIX.\<close>

fun tolerated :: "os \<Rightarrow> string \<Rightarrow> int \<Rightarrow> file_type option" where
  "tolerated (Posix os_stat) path errno =
     (if errno = EACCES then Some ft_unknown else if errno = ENOENT then Some ft_not_found else None)"
| "tolerated (Win32 os_stat) path errno =
     (if fst (os_stat (c_str path)) = - 1 \<and> errno = ENOENT then Some ft_not_found else None)"

fun is_win32 :: "os \<Rightarrow> bool" where
  "is_win32 (Win32 _) = True"
| "is_win32 (Posix _) = False"

lemma status_ec_outcome:
  "status_ec os path = (case os_outcome os path of
      Inl errno \<Rightarrow> (case tolerated os path errno of None \<Rightarrow> (errno, file_status_default) | Some t \<Rightarrow> (0, mk_file_status t))
    | Inr st \<Rightarrow> (0, \<lparr>fs_type = ExtractFileType (is_win32 os) st, fs_permissions = ExtractPermissions (is_win32 os) st\<rparr>))"
  by (cases os) (auto simp: EINVAL_def ENOENT_def EACCES_def split: sum.splits prod.splits)

lemma file_size_ec_outcome:
  "file_size_ec os path = (case os_outcome os path of Inl errno \<Rightarrow> (errno, - 1) | Inr st \<Rightarrow> (0, st_size st))"
  by (cases os) (auto split: sum.splits prod.splits)

lemma ExtractFileType_exists:
  "ExtractFileType win32 st \<noteq> ft_none" "ExtractFileType win32 st \<noteq> ft_not_found" "ExtractFileType win32 st \<noteq> ft_symlink"
  by (simp_all add: ExtractFileType_def)

text \<open>Windows reports the bits of the owner only; they have the values POSIX gives them.\<close>

lemma single_bit: "p AND 2 ^ n = 0 \<or> p AND 2 ^ n = 2 ^ n" for p :: "'a::len word"
proof -
  have "p AND 2 ^ n = 2 ^ n" if "bit p n"
    by (rule bit_word_eqI) (use that in \<open>auto simp: bit_and_iff bit_exp_iff\<close>)
  then show ?thesis using and_exp_eq_0_iff_not_bit [of p n] by auto
qed

lemma ExtractPermissions_win32: "ExtractPermissions True st = st_mode st AND perms_owner_all"
proof -
  let ?m = "st_mode st"
  have "ExtractPermissions True st = 0 OR (?m AND 0x100) OR (?m AND 0x80) OR (?m AND 0x40)"
    using single_bit [of ?m 8] single_bit [of ?m 7] single_bit [of ?m 6]
    by (auto simp: ExtractPermissions_def perms_or_assign_def perms_or_def perms_none_def perms_owner_read_def
        perms_owner_write_def perms_owner_exec_def)
  also have "\<dots> = ?m AND (0x100 OR 0x80 OR 0x40)" by (simp only: bit.conj_disj_distrib or.left_neutral)
  finally show ?thesis by (simp add: perms_owner_all_def)
qed

lemma ExtractPermissions_wf: "wf_perms (ExtractPermissions win32 st)"
proof (cases win32)
  case True
  have "perms_owner_all AND perms_mask = perms_owner_all" by (simp add: perms_owner_all_def perms_mask_def)
  with True show ?thesis by (simp add: ExtractPermissions_win32 wf_perms_iff and.assoc)
qed (simp add: wf_perms_iff ExtractPermissions_def and.assoc)

lemma perms_not_twice: "perms_not (perms_not p) = p AND perms_mask"
  by (simp add: perms_not_def bit.de_Morgan_conj bit.conj_disj_distrib and.commute)

section \<open>The mode word\<close>

text \<open>
  The layout that both systems document: the four high bits of a 16-bit mode are the type of the file, in POSIX a
  number and in Windows flags; the twelve low bits are the permissions.
\<close>

definition mode_kind :: "32 word \<Rightarrow> nat" where
  "mode_kind mode = unat (take_bit 4 (drop_bit 12 mode))"

definition posix_kinds :: "(nat \<times> file_type) list" where
  "posix_kinds = [(1, ft_fifo), (2, ft_character), (4, ft_directory), (6, ft_block), (8, ft_regular), (12, ft_socket)]"

definition mode_type :: "bool \<Rightarrow> 32 word \<Rightarrow> file_type" where
  "mode_type win32 mode =
     (if win32 then
        if bit mode 15 then ft_regular else if bit mode 14 then ft_directory
        else if bit mode 13 then ft_character else ft_unknown
      else case map_of posix_kinds (mode_kind mode) of Some t \<Rightarrow> t | None \<Rightarrow> ft_unknown)"

definition mode_permission :: "bool \<Rightarrow> 32 word \<Rightarrow> nat \<Rightarrow> bool" where
  "mode_permission win32 mode i \<longleftrightarrow> bit mode i \<and> (if win32 then i \<in> {6, 7, 8} else i < 12)"

lemma S_IFMT_kind: "S_IFMT mode = of_nat (mode_kind mode * 4096)" "mode_kind mode < 16"
proof -
  have m: "(0xF000 :: 32 word) = push_bit 12 (mask 4)" by (simp add: mask_eq_exp_minus_1 push_bit_eq_mult)
  have "S_IFMT mode = push_bit 12 (take_bit 4 (drop_bit 12 mode))"
    unfolding S_IFMT_def m by (rule bit_word_eqI) (auto simp: bit_simps)
  then show "S_IFMT mode = of_nat (mode_kind mode * 4096)" by (simp add: mode_kind_def push_bit_eq_mult mult.commute)
  have "unat (take_bit 4 (drop_bit 12 mode)) = take_bit 4 (unat (drop_bit 12 mode))" by (simp add: unsigned_take_bit_eq)
  then show "mode_kind mode < 16" unfolding mode_kind_def using take_bit_nat_less_exp [of 4] by simp
qed

lemma S_IFMT_iff:
  assumes "n < 16"
  shows "S_IFMT mode = of_nat (n * 4096) \<longleftrightarrow> mode_kind mode = n"
proof -
  have "unat (of_nat (k * 4096) :: 32 word) = k * 4096" if "k < 16" for k using that by (simp add: unsigned_of_nat take_bit_nat_eq_self del: of_nat_mult)
  with assms S_IFMT_kind [of mode] show ?thesis by (metis mult_right_cancel zero_neq_numeral)
qed

lemma ExtractFileType_mode: "ExtractFileType win32 st = mode_type win32 (st_mode st)"
proof -
  have flag: "m AND 2 ^ n \<noteq> 0 \<longleftrightarrow> bit m n" for m :: "32 word" and n by (simp add: and_exp_eq_0_iff_not_bit)
  show ?thesis
    using S_IFMT_iff [of 8 "st_mode st"] S_IFMT_iff [of 4 "st_mode st"] S_IFMT_iff [of 6 "st_mode st"]
      S_IFMT_iff [of 2 "st_mode st"] S_IFMT_iff [of 1 "st_mode st"] S_IFMT_iff [of 12 "st_mode st"]
      flag [of "st_mode st" 15] flag [of "st_mode st" 14] flag [of "st_mode st" 13]
    by (simp add: ExtractFileType_def mode_type_def posix_kinds_def)
qed

lemma ExtractPermissions_mode: "bit (ExtractPermissions win32 st) i \<longleftrightarrow> mode_permission win32 (st_mode st) i"
proof (cases win32)
  case True
  have all: "perms_owner_all = push_bit 6 (mask 3)" by (simp add: perms_owner_all_def mask_eq_exp_minus_1 push_bit_eq_mult)
  have "bit perms_owner_all i \<longleftrightarrow> i \<in> {6, 7, 8}" unfolding all by (auto simp: bit_simps)
  with True show ?thesis by (auto simp: ExtractPermissions_win32 mode_permission_def bit_and_iff)
next
  case False
  have all: "perms_mask = mask 12" by (simp add: perms_mask_def mask_eq_exp_minus_1)
  have "bit perms_mask i \<longleftrightarrow> i < 12" unfolding all by (auto simp: bit_simps)
  with False show ?thesis by (auto simp: ExtractPermissions_def mode_permission_def bit_and_iff)
qed

section \<open>Properties\<close>

text \<open>
  C37: on both systems the status functions report exactly what the system call said. A missing file
  (and on POSIX one behind a forbidden directory) is no error; every other failure leaves an unknown
  status and makes the throwing overload throw its errno. On success the type is the one that the mode word
  encodes and a permission bit is set exactly if it is set in the mode, all twelve of them on POSIX and those of
  the owner on Windows; complementing the permissions twice is the identity. Every status is in exactly one of the classes
  unknown, missing, regular, directory, link and other; and the size of a file is the one the call reported, or an error in
  every case of failure.
\<close>

theorem file_status_contract:
  assumes "\<And>errno. os_outcome os path = Inl errno \<Longrightarrow> errno \<noteq> 0"
  shows "(\<forall>errno t. os_outcome os path = Inl errno \<and> tolerated os path errno = Some t \<longrightarrow>
        status he msg os path = Inr (mk_file_status t)) \<and>
     (\<forall>errno. os_outcome os path = Inl errno \<and> tolerated os path errno = None \<longrightarrow>
        status_ec os path = (errno, file_status_default) \<and> \<not> status_known file_status_default \<and>
        status True msg os path = Inl (Abn (Thrown (system_error errno (c_str (''status: getting status of file='' @ path)))))) \<and>
     (\<forall>errno. os_outcome os path = Inl errno \<longrightarrow>
        file_size True msg os path = Inl (Abn (Thrown (system_error errno (c_str (''file_size: getting size of file='' @ path)))))) \<and>
     (\<forall>st. os_outcome os path = Inr st \<longrightarrow>
        (\<exists>s. status he msg os path = Inr s \<and> fs_type s = mode_type (is_win32 os) (st_mode st) \<and>
          (\<forall>i. bit (fs_permissions s) i \<longleftrightarrow> mode_permission (is_win32 os) (st_mode st) i) \<and>
          file_exists s \<and> \<not> is_symlink s \<and> perms_not (perms_not (fs_permissions s)) = fs_permissions s) \<and>
        file_size he msg os path = Inr (st_size st)) \<and>
     length (filter (\<lambda>c. c s) [\<lambda>s. \<not> status_known s, \<lambda>s. status_known s \<and> \<not> file_exists s, is_regular, is_directory, is_symlink, is_other]) = 1"
proof -
  have classes: "length (filter (\<lambda>c. c s) [\<lambda>s. \<not> status_known s, \<lambda>s. status_known s \<and> \<not> file_exists s, is_regular, is_directory, is_symlink, is_other]) = 1"
    by (cases "fs_type s") (simp_all add: status_known_def file_exists_def is_regular_def is_directory_def is_symlink_def is_other_def)
  have ok: "(\<exists>s. status he msg os path = Inr s \<and> fs_type s = mode_type (is_win32 os) (st_mode st) \<and>
          (\<forall>i. bit (fs_permissions s) i \<longleftrightarrow> mode_permission (is_win32 os) (st_mode st) i) \<and>
          file_exists s \<and> \<not> is_symlink s \<and> perms_not (perms_not (fs_permissions s)) = fs_permissions s) \<and>
        file_size he msg os path = Inr (st_size st)"
    if "os_outcome os path = Inr st" for st
    using that ExtractFileType_exists [of "is_win32 os" st] ExtractPermissions_wf [of "is_win32 os" st]
    by (simp add: status_def status_ec_outcome file_size_def file_size_ec_outcome file_exists_def status_known_def is_symlink_def
        perms_not_twice wf_perms_iff ExtractPermissions_mode ExtractFileType_mode)
  show ?thesis
    by (intro conjI allI impI classes)
      (use assms ok in \<open>auto simp: status_def status_ec_outcome file_size_def file_size_ec_outcome ThrowSystemError_def
        ThrowException_ec_def file_status_default_def mk_file_status_def status_known_def\<close>)
qed

theorem file_status_contract_witness:
  "\<exists>s. status True (\<lambda>ec. ''error'') (Posix (\<lambda>p. Inr \<lparr>st_mode = 0x81A4, st_size = 5\<rparr>)) ''f'' = Inr s \<and>
     fs_type s = ft_regular \<and> bit (fs_permissions s) 7 \<and> \<not> bit (fs_permissions s) 6"
proof -
  have "mode_type False 0x81A4 = ft_regular" "mode_permission False 0x81A4 7" "\<not> mode_permission False 0x81A4 6"
    by (simp_all add: mode_type_def mode_kind_def posix_kinds_def mode_permission_def drop_bit_eq_div take_bit_eq_mod bit_iff_odd)
  then show ?thesis
    using file_status_contract [of "Posix (\<lambda>p. Inr \<lparr>st_mode = 0x81A4, st_size = 5\<rparr>)" "''f''" True "\<lambda>ec. ''error''" file_status_default]
    by (simp del: status_ec.simps) metis
qed

end
