(* ===== verification/Utilities.thy ===== *)
theory Utilities
  imports Lifetime
begin

unbundle bit_operations_syntax

text \<open>
  Small helpers: saving stream flags (\<^verbatim>\<open>internal/ios_flags_saver.h\<close>), random strings and entropy
  (\<^verbatim>\<open>internal/random.{h,cc}\<close>), the version (\<^verbatim>\<open>version.{h,cc}\<close>) and the description of the compiler
  (\<^verbatim>\<open>internal/compiler_info.cc\<close>). Macros and generated constants are arguments.
\<close>

section \<open>Saving format flags\<close>

type_synonym fmtflags = "32 word"

text \<open>\<^verbatim>\<open>ios_base::setf\<close> adds flags to those that are set.\<close>

definition setf :: "fmtflags \<Rightarrow> fmtflags \<Rightarrow> fmtflags" where
  "setf f current = current OR f"

definition IosFlagsSaver_enter :: "fmtflags \<Rightarrow> fmtflags" where
  "IosFlagsSaver_enter current = current"

definition IosFlagsSaver_leave :: "fmtflags \<Rightarrow> fmtflags \<Rightarrow> fmtflags" where
  "IosFlagsSaver_leave saved current = setf saved current"

section \<open>Random numbers\<close>

text \<open>\<^verbatim>\<open>std::generate\<close> over a sequence of \<open>n\<close> elements.\<close>

fun generate :: "nat \<Rightarrow> ('g \<Rightarrow> 'a \<times> 'g) \<Rightarrow> 'g \<Rightarrow> 'a list \<times> 'g" where
  "generate 0 f g = ([], g)"
| "generate (Suc n) f g = (let (x, g1) = f g; (xs, g2) = generate n f g1 in (x # xs, g2))"

text \<open>
  \<open>rd\<close> is the random device, yielding unsigned ints; the number of words is computed in
  \<^verbatim>\<open>size_t\<close>, where it may wrap around.
\<close>

definition FetchEntropy :: "('d \<Rightarrow> 32 word \<times> 'd) \<Rightarrow> 64 word \<Rightarrow> 'd \<Rightarrow> 32 word list \<times> 'd" where
  "FetchEntropy rd desired_bits d = generate (unat ((desired_bits + 32 - 1) div 32)) rd d"

text \<open>A generator is made from a seed sequence by \<open>seeded\<close>; its state has \<open>state_size\<close> words of \<open>word_size\<close> bits.\<close>

definition MakePRNG ::
  "('d \<Rightarrow> 32 word \<times> 'd) \<Rightarrow> (32 word list \<Rightarrow> 'g) \<Rightarrow> 64 word \<Rightarrow> 64 word \<Rightarrow> 'd \<Rightarrow> 'g \<times> 'd" where
  "MakePRNG rd seeded state_size word_size d =
     (let desired_bits = state_size * word_size; (entropy, d) = FetchEntropy rd desired_bits d in (seeded entropy, d))"

text \<open>The default generator is \<^verbatim>\<open>std::mt19937_64\<close>.\<close>

definition MakeDefaultPRNG :: "('d \<Rightarrow> 32 word \<times> 'd) \<Rightarrow> (32 word list \<Rightarrow> 'g) \<Rightarrow> 'd \<Rightarrow> 'g \<times> 'd" where
  "MakeDefaultPRNG rd seeded d = MakePRNG rd seeded 312 64 d"

text \<open>
  \<open>uniform a b\<close> draws from \<^verbatim>\<open>uniform_int_distribution<size_t>(a, b)\<close>; for an empty population the upper
  bound \<^verbatim>\<open>population.size() - 1\<close> wraps around. Reading outside the string is undefined, and a negative
  length, converted to \<^verbatim>\<open>size_t\<close>, is more than a string can have.
\<close>

definition index_string :: "string \<Rightarrow> nat \<Rightarrow> fault + char" where
  "index_string s i = (if i \<le> length s then Inr (if i < length s then s ! i else CHR 0x00) else Inl (UB OutOfBounds))"

fun index_all :: "string \<Rightarrow> nat list \<Rightarrow> fault + string" where
  "index_all s [] = Inr []"
| "index_all s (i # is) = bindR (index_string s i) (\<lambda>c. bindR (index_all s is) (\<lambda>cs. Inr (c # cs)))"

definition Sample ::
  "(64 word \<Rightarrow> 64 word \<Rightarrow> 'g \<Rightarrow> 64 word \<times> 'g) \<Rightarrow> int \<Rightarrow> string \<Rightarrow> 'g \<Rightarrow> (fault + string) \<times> 'g" where
  "Sample uniform n population g =
     (if n < 0 then (Inl (Abn (Thrown (length_error ''basic_string''))), g)
      else
        let (is, g') = generate (nat n) (uniform 0 (of_nat (length population) - 1)) g in
        (index_all population (map unat is), g'))"

section \<open>Version and compiler\<close>

definition version :: "int \<Rightarrow> int \<Rightarrow> int \<Rightarrow> int" where
  "version major minor patch = 100 * (100 * major + minor) + patch"

definition version_string :: "int \<Rightarrow> int \<Rightarrow> int \<Rightarrow> string \<Rightarrow> string" where
  "version_string major minor patch metadata =
     ''v'' @ int_to_dec major @ ''.'' @ int_to_dec minor @ ''.'' @ int_to_dec patch @
     (if metadata \<noteq> [] then ''+'' @ metadata else [])"

text \<open>The macros the compiler defines, by their values.\<close>

record compiler_macros =
  apple_build_version :: "int option"
  clang :: "(int \<times> int \<times> int) option"
  gnuc :: "(int \<times> int \<times> int) option"
  msc_ver :: "int option"
  msc_full_ver :: "int option"

definition dotted :: "int \<times> int \<times> int \<Rightarrow> string" where
  "dotted v = (case v of (a, b, c) \<Rightarrow> int_to_dec a @ ''.'' @ int_to_dec b @ ''.'' @ int_to_dec c)"

definition CompilerId :: "compiler_macros \<Rightarrow> string" where
  "CompilerId m =
     (if apple_build_version m \<noteq> None \<and> clang m \<noteq> None then ''AppleClang''
      else if clang m \<noteq> None then ''Clang''
      else if gnuc m \<noteq> None then ''GNU''
      else if msc_ver m \<noteq> None then ''MSVC''
      else ''Unknown'')"

definition CompilerVersion :: "compiler_macros \<Rightarrow> string" where
  "CompilerVersion m = (case (apple_build_version m, clang m, gnuc m, msc_ver m) of
     (Some apple, Some v, _, _) \<Rightarrow> dotted v @ ''.'' @ int_to_dec apple
   | (None, Some v, _, _) \<Rightarrow> dotted v
   | (_, None, Some v, _) \<Rightarrow> dotted v
   | (_, None, None, Some ver) \<Rightarrow>
       int_to_dec (trunc_div ver 100) @ ''.'' @ int_to_dec (trunc_rem ver 100) @
       (case msc_full_ver m of
          None \<Rightarrow> []
        | Some full \<Rightarrow> ''.'' @ int_to_dec (trunc_rem full (if ver \<ge> 1400 then 100000 else 10000)))
   | _ \<Rightarrow> ''Unknown'')"

definition CompilerFeatures :: "bool \<Rightarrow> string" where
  "CompilerFeatures have_ex = (if have_ex then ''ex'' else ''noex'')"

definition LanguageVersion :: "int \<Rightarrow> string" where
  "LanguageVersion cplusplus =
     (if cplusplus = 199711 then ''1998''
      else if cplusplus = 201103 then ''2011''
      else if cplusplus = 201402 then ''2014''
      else if cplusplus = 201703 then ''2017''
      else ''unknown'')"

section \<open>Lemmas\<close>

lemma length_generate: "length (fst (generate n f g)) = n"
  by (induction n arbitrary: g) (simp_all add: Let_def case_prod_unfold)

lemma generate_all: "(\<And>g. P (fst (f g))) \<Longrightarrow> x \<in> set (fst (generate n f g)) \<Longrightarrow> P x"
proof (induction n arbitrary: g)
  case 0
  then show ?case by simp
next
  case (Suc n)
  from Suc.prems(2) consider "x = fst (f g)" | "x \<in> set (fst (generate n f (snd (f g))))"
    by (auto simp: Let_def split: prod.splits)
  then show ?case using Suc.prems(1) Suc.IH [OF Suc.prems(1)] by cases auto
qed

lemma index_all_ok: "\<forall>i \<in> set is. i < length s \<Longrightarrow> index_all s is = Inr (map ((!) s) is)"
  by (induction "is") (simp_all add: index_string_def)

text \<open>Enough entropy is fetched, and less than one word too much, if the sum does not wrap around.\<close>

lemma FetchEntropy_bits:
  assumes "unat desired_bits + 32 \<le> 2 ^ 64"
  shows "unat desired_bits \<le> 32 * length (fst (FetchEntropy rd desired_bits d))"
    and "32 * length (fst (FetchEntropy rd desired_bits d)) < unat desired_bits + 32"
proof -
  have "unat (31 + desired_bits) = unat desired_bits + 31"
    using assms by (subst unat_add_lem [THEN iffD1]) simp_all
  then have "length (fst (FetchEntropy rd desired_bits d)) = (unat desired_bits + 31) div 32"
    by (simp add: FetchEntropy_def length_generate unat_div)
  then show "unat desired_bits \<le> 32 * length (fst (FetchEntropy rd desired_bits d))"
    and "32 * length (fst (FetchEntropy rd desired_bits d)) < unat desired_bits + 32"
    by linarith+
qed

text \<open>The default generator is seeded with one word of entropy for every 32 bits of its state.\<close>

lemma MakeDefaultPRNG_entropy:
  "\<exists>entropy d'. MakeDefaultPRNG rd seeded d = (seeded entropy, d') \<and> length entropy = 624"
proof -
  have "length (fst (FetchEntropy rd (312 * 64) d)) = 624" by (simp add: FetchEntropy_def length_generate)
  then show ?thesis by (auto simp: MakeDefaultPRNG_def MakePRNG_def case_prod_unfold Let_def)
qed

text \<open>The version number orders versions as their components do.\<close>

lemma version_mono:
  assumes "0 \<le> b" "b < 100" "0 \<le> c" "c < 100" "0 \<le> b'" "b' < 100" "0 \<le> c'" "c' < 100"
  shows "version a b c < version a' b' c' \<longleftrightarrow> a < a' \<or> a = a' \<and> (b < b' \<or> b = b' \<and> c < c')"
  using assms by (auto simp: version_def)

section \<open>Properties\<close>

text \<open>
  \<^verbatim>\<open>Sample\<close> returns a string of the requested length made of characters of the population, for any
  distribution that keeps its bounds; a negative length is refused, and from an empty population a
  draw reads out of bounds unless it happens to be zero.
\<close>

lemma generate_below_population:
  assumes law: "\<And>a b g. a \<le> b \<Longrightarrow> a \<le> fst (uniform a b g) \<and> fst (uniform a b g) \<le> b"
    and size: "length population < 2 ^ 64" and ne: "population \<noteq> []"
    and i: "i \<in> set (map unat (fst (generate n (uniform 0 (of_nat (length population) - 1 :: 64 word)) g)))"
  shows "i < length population"
proof -
  let ?b = "of_nat (length population) - 1 :: 64 word"
  have "?b = of_nat (length population - 1)" using ne by (simp add: of_nat_diff Suc_leI)
  moreover have "length population - 1 < 2 ^ LENGTH(64)" using size by simp
  ultimately have b: "unat ?b = length population - 1" by (simp add: unat_of_nat take_bit_nat_eq_self)
  have "unat (fst (uniform 0 ?b g)) < length population" for g
    using law [of 0 ?b g] b ne by (simp add: word_le_nat_alt) (metis Suc_pred length_greater_0_conv less_Suc_eq_le)
  then show ?thesis
    using i generate_all [of "\<lambda>x. unat x < length population" "uniform 0 ?b"] by auto
qed

theorem Sample_from_population:
  assumes "\<And>a b g. a \<le> b \<Longrightarrow> a \<le> fst (uniform a b g) \<and> fst (uniform a b g) \<le> b"
    and "length population < 2 ^ 64" and "population \<noteq> []" and "0 \<le> n"
  shows "\<exists>s. fst (Sample uniform n population g) = Inr s \<and> int (length s) = n \<and> set s \<subseteq> set population"
proof -
  let ?is = "map unat (fst (generate (nat n) (uniform 0 (of_nat (length population) - 1)) g))"
  have below: "\<forall>i \<in> set ?is. i < length population"
    using generate_below_population [where uniform = uniform, OF assms(1-3)] by blast
  then have "fst (Sample uniform n population g) = Inr (map ((!) population) ?is)"
    using assms(4) index_all_ok [OF below] by (simp add: Sample_def case_prod_unfold Let_def)
  moreover have "int (length ?is) = n" using assms(4) by (simp add: length_generate)
  ultimately show ?thesis using below by (auto simp del: map_map)
qed

lemma Sample_errors:
  "n < 0 \<Longrightarrow> Sample uniform n population g = (Inl (Abn (Thrown (length_error ''basic_string''))), g)"
  "0 < n \<Longrightarrow> fst (uniform 0 (- 1) g) \<noteq> 0 \<Longrightarrow> fst (Sample uniform n [] g) = Inl (UB OutOfBounds)"
proof -
  assume n: "0 < n" and "fst (uniform 0 (- 1) g) \<noteq> 0"
  then have "unat (fst (uniform 0 (- 1) g)) \<noteq> 0" by (simp add: unat_eq_0)
  moreover from n obtain k where "nat n = Suc k" by (metis Suc_pred zero_less_nat_eq)
  ultimately show "fst (Sample uniform n [] g) = Inl (UB OutOfBounds)"
    using n by (simp add: Sample_def Let_def index_string_def case_prod_unfold)
qed (simp add: Sample_def)

theorem Sample_from_population_witness:
  "\<exists>s. fst (Sample (\<lambda>a b g. (b, Suc g)) 3 ''ab'' 0) = Inr s \<and> int (length s) = 3 \<and> set s \<subseteq> {CHR ''a'', CHR ''b''}"
  using Sample_from_population [of "\<lambda>a b g. (b, Suc g)" "''ab''" 3 0] by simp

text \<open>
  \<^verbatim>\<open>IosFlagsSaver\<close> does not restore the flags: its destructor adds the saved flags to the current
  ones, so the original value comes back only if no flag was set in between, and a flag set in the
  scope stays set.
\<close>

theorem IosFlagsSaver_keeps_new_flags:
  "(IosFlagsSaver_leave (IosFlagsSaver_enter f) current = f \<longleftrightarrow> current OR f = f) \<and>
   IosFlagsSaver_leave (IosFlagsSaver_enter 0) 1 = 1"
  by (simp add: IosFlagsSaver_leave_def IosFlagsSaver_enter_def setf_def)

end
