(* ===== verification/Then_Meta.thy ===== *)
theory Then_Meta
  imports Prelude
begin

text \<open>
  The metafunctions of the library, which the compiler evaluates on types: \<^verbatim>\<open>internal/invoke_result.h\<close>,
  \<^verbatim>\<open>internal/future_then_meta.h\<close> with the adapters of \<^verbatim>\<open>internal/future_then_impl.h\<close>,
  \<^verbatim>\<open>internal/conjunction.h\<close>, \<^verbatim>\<open>internal/disjunction.h\<close>, \<^verbatim>\<open>internal/utility.h\<close> and \<^verbatim>\<open>internal/tuple.h\<close>. Types
  are values of a datatype, and a missing member type (substitution failure) is \<open>None\<close>.
\<close>

section \<open>Types\<close>

text \<open>\<open>T_object n\<close> are the types the library knows nothing about, \<open>T_state_ptr\<close> is a shared pointer to a shared state.\<close>

datatype cpp_type =
    T_void
  | T_object nat
  | T_const cpp_type
  | T_lref cpp_type
  | T_rref cpp_type
  | T_reference_wrapper cpp_type
  | T_future cpp_type
  | T_state_ptr cpp_type

text \<open>\<^verbatim>\<open>std::decay\<close> on object and reference types.\<close>

fun remove_cv :: "cpp_type \<Rightarrow> cpp_type" where
  "remove_cv (T_const t) = remove_cv t"
| "remove_cv t = t"

fun decay :: "cpp_type \<Rightarrow> cpp_type" where
  "decay (T_lref t) = decay t"
| "decay (T_rref t) = decay t"
| "decay t = remove_cv t"

section \<open>Invoking\<close>

text \<open>
  A callable type is known by the result type of \<^verbatim>\<open>f(a...)\<close> for the argument types, if that expression
  is valid. A pointer to member function has a signature and the object types it applies to; a
  pointer to a data member is not a function.
\<close>

datatype functor_type =
    Callable "cpp_type list \<Rightarrow> cpp_type option"
  | MemberFunction "cpp_type \<Rightarrow> bool" "cpp_type list \<Rightarrow> cpp_type option"
  | MemberData

fun invoke_impl_call :: "functor_type \<Rightarrow> cpp_type list \<Rightarrow> cpp_type option" where
  "invoke_impl_call (Callable f) args = f args"
| "invoke_impl_call (MemberFunction applies f) (t # args) = (if applies t then f args else None)"
| "invoke_impl_call (MemberFunction applies f) [] = None"
| "invoke_impl_call MemberData args = None"

definition invoke_result :: "functor_type \<Rightarrow> cpp_type list \<Rightarrow> cpp_type option" where
  "invoke_result F args = invoke_impl_call F args"

definition is_invocable :: "functor_type \<Rightarrow> cpp_type list \<Rightarrow> bool" where
  "is_invocable F args \<longleftrightarrow> invoke_impl_call F args \<noteq> None"

section \<open>The type of a continuation\<close>

text \<open>The unwrapped type and whether unwrapping is needed.\<close>

fun unwrap_then :: "cpp_type \<Rightarrow> cpp_type \<times> bool" where
  "unwrap_then (T_future U) = (U, True)"
| "unwrap_then t = (t, False)"

fun unwrap_internal :: "cpp_type \<Rightarrow> cpp_type \<times> bool" where
  "unwrap_internal (T_state_ptr U) = (U, True)"
| "unwrap_internal t = (t, False)"

text \<open>The members of the helpers; \<open>state_t\<close> is the type of the value in the new shared state.\<close>

record helper =
  functor_result_t :: cpp_type
  result_t :: cpp_type
  requires_unwrap_t :: bool
  state_t :: cpp_type

definition continuation_helper :: "functor_type \<Rightarrow> cpp_type \<Rightarrow> helper option" where
  "continuation_helper F T =
     (case invoke_result F [T_state_ptr T] of
        None \<Rightarrow> None
      | Some R \<Rightarrow> Some \<lparr>functor_result_t = R, result_t = fst (unwrap_then R),
                      requires_unwrap_t = snd (unwrap_then R), state_t = fst (unwrap_then R)\<rparr>)"

definition unwrapping_continuation_helper :: "functor_type \<Rightarrow> cpp_type \<Rightarrow> helper option" where
  "unwrapping_continuation_helper F T =
     (case invoke_result F [T_state_ptr T] of
        None \<Rightarrow> None
      | Some R \<Rightarrow> Some \<lparr>functor_result_t = R, result_t = fst (unwrap_internal R),
                      requires_unwrap_t = snd (unwrap_internal R), state_t = fst (unwrap_internal R)\<rparr>)"

definition then_helper :: "functor_type \<Rightarrow> cpp_type \<Rightarrow> helper option" where
  "then_helper F T =
     (case invoke_result F [T_future T] of
        None \<Rightarrow> None
      | Some R \<Rightarrow> Some \<lparr>functor_result_t = R, result_t = fst (unwrap_then R),
                      requires_unwrap_t = snd (unwrap_then R), state_t = fst (unwrap_then R)\<rparr>)"

definition future_t :: "helper \<Rightarrow> cpp_type" where
  "future_t hp = T_future (result_t hp)"

text \<open>The adapters around the functor, without and with unwrapping, and the shared state each creates.\<close>

definition then_adapter :: "helper \<Rightarrow> cpp_type \<Rightarrow> functor_type" where
  "then_adapter hp T = Callable (\<lambda>args. if args = [T_state_ptr T] then Some (functor_result_t hp) else None)"

definition then_unwrap_adapter :: "helper \<Rightarrow> cpp_type \<Rightarrow> functor_type" where
  "then_unwrap_adapter hp T = Callable (\<lambda>args. if args = [T_state_ptr T] then Some (T_state_ptr (result_t hp)) else None)"

definition then_impl_state :: "functor_type \<Rightarrow> cpp_type \<Rightarrow> cpp_type option" where
  "then_impl_state F T =
     (case then_helper F T of
        None \<Rightarrow> None
      | Some hp \<Rightarrow>
          map_option state_t
            (if requires_unwrap_t hp then unwrapping_continuation_helper (then_unwrap_adapter hp T) T
             else continuation_helper (then_adapter hp T) T))"

section \<open>Ready futures\<close>

definition make_ready_helper :: "cpp_type \<Rightarrow> cpp_type \<Rightarrow> cpp_type" where
  "make_ready_helper T U = (case U of T_reference_wrapper X \<Rightarrow> T_lref X | _ \<Rightarrow> decay T)"

definition make_ready_return :: "cpp_type \<Rightarrow> cpp_type" where
  "make_ready_return T = make_ready_helper T (decay T)"

section \<open>Folds, index sequences and tuples\<close>

fun conjunction :: "bool list \<Rightarrow> bool" where
  "conjunction [] = True"
| "conjunction [b] = b"
| "conjunction (b # bs) = (if b then conjunction bs else b)"

fun disjunction :: "bool list \<Rightarrow> bool" where
  "disjunction [] = False"
| "disjunction [b] = b"
| "disjunction (b # bs) = (if b then b else disjunction bs)"

fun MakeIndexSequenceImpl :: "nat \<Rightarrow> nat list \<Rightarrow> nat list" where
  "MakeIndexSequenceImpl 0 I = I"
| "MakeIndexSequenceImpl (Suc n) I = MakeIndexSequenceImpl n (n # I)"

definition make_index_sequence :: "nat \<Rightarrow> nat list" where
  "make_index_sequence n = MakeIndexSequenceImpl n []"

definition ApplyRes :: "functor_type \<Rightarrow> cpp_type list \<Rightarrow> cpp_type option" where
  "ApplyRes F args = invoke_result F args"

definition ApplyImpl :: "('a list \<Rightarrow> 'r) \<Rightarrow> 'a list \<Rightarrow> nat list \<Rightarrow> 'r" where
  "ApplyImpl f t I = f (map ((!) t) I)"

definition apply_tuple :: "('a list \<Rightarrow> 'r) \<Rightarrow> 'a list \<Rightarrow> 'r" where
  "apply_tuple f t = ApplyImpl f t (make_index_sequence (length t))"

section \<open>Lemmas\<close>

lemma conjunction_iff: "conjunction bs \<longleftrightarrow> list_all id bs"
  by (induction bs rule: conjunction.induct) auto

lemma disjunction_iff: "disjunction bs \<longleftrightarrow> list_ex id bs"
  by (induction bs rule: disjunction.induct) auto

lemma MakeIndexSequenceImpl_eq: "MakeIndexSequenceImpl n I = [0..<n] @ I"
  by (induction n arbitrary: I) simp_all

lemma apply_tuple_eq: "apply_tuple f t = f t"
  by (simp add: apply_tuple_def ApplyImpl_def make_index_sequence_def MakeIndexSequenceImpl_eq map_nth)

lemma invoke_result_Callable [simp]: "invoke_result (Callable f) args = f args"
  by (simp add: invoke_result_def)

lemma unwrap_then_cases:
  obtains U where "R = T_future U" "unwrap_then R = (U, True)"
  | "unwrap_then R = (R, False)" "\<And>U. R \<noteq> T_future U"
  by (cases R) auto

text \<open>
  The shared state that \<^verbatim>\<open>then\<close> creates has the type of the future it returns, so that the last line
  of \<^verbatim>\<open>then_impl\<close> type checks; it exists whenever the functor accepts the future.
\<close>

lemma then_impl_state_eq: "then_impl_state F T = map_option result_t (then_helper F T)"
proof (cases "invoke_result F [T_future T]")
  case (Some R)
  show ?thesis
    by (cases rule: unwrap_then_cases [of R])
      (simp_all add: Some then_impl_state_def then_helper_def unwrapping_continuation_helper_def continuation_helper_def
        then_unwrap_adapter_def then_adapter_def)
qed (simp add: then_impl_state_def then_helper_def)

lemma then_helper_cases:
  assumes "then_helper F T = Some hp"
  shows "invoke_result F [T_future T] = Some (if requires_unwrap_t hp then T_future (result_t hp) else result_t hp)"
proof -
  from assms obtain R where "invoke_result F [T_future T] = Some R"
    "hp = \<lparr>functor_result_t = R, result_t = fst (unwrap_then R), requires_unwrap_t = snd (unwrap_then R), state_t = fst (unwrap_then R)\<rparr>"
    by (auto simp: then_helper_def split: option.splits)
  then show ?thesis by (cases rule: unwrap_then_cases [of R]) auto
qed

end
