(* ===== verification/Future_Types.thy ===== *)
theory Future_Types
  imports Future Then_Meta
begin

text \<open>
  Type soundness of futures. The store of shared states conforms to a typing that gives each state
  the type of its value; the types that \<^verbatim>\<open>then\<close> computes for its result (\<open>Then_Meta\<close>) are those of the
  values that reach the new shared state. A client program accepted by the type rules of the
  interface never runs into undefined behaviour, and what its \<^verbatim>\<open>get()\<close> calls return has the static
  type. Application functors are assumed to respect their own types.
\<close>

section \<open>Conformance\<close>

text \<open>Whether exceptions are enabled, the types of plain values, and the types of application functors.\<close>

record ('v, 'f) typing =
  ty_ex :: bool
  ty_val :: "'v \<Rightarrow> cpp_type \<Rightarrow> bool"
  ty_functor :: "'f \<Rightarrow> functor_type"

type_synonym store_type = "nat \<rightharpoonup> cpp_type"

definition ptr_ok :: "store_type \<Rightarrow> nat option \<Rightarrow> cpp_type \<Rightarrow> bool" where
  "ptr_ok \<Gamma> p U \<longleftrightarrow> (case p of None \<Rightarrow> True | Some i \<Rightarrow> \<Gamma> i = Some U)"

definition val_ok :: "('v, 'f) typing \<Rightarrow> store_type \<Rightarrow> 'v fval \<Rightarrow> cpp_type \<Rightarrow> bool" where
  "val_ok G \<Gamma> v T \<longleftrightarrow>
     (case v of
        Plain x \<Rightarrow> ty_val G x T \<and> (case T of T_future U \<Rightarrow> False | _ \<Rightarrow> True)
      | FutureVal p \<Rightarrow> (case T of T_future U \<Rightarrow> ptr_ok \<Gamma> p U | _ \<Rightarrow> False))"

text \<open>The result type of a functor object called with a future of type \<open>T\<close>.\<close>

definition functor_result :: "('v, 'f) typing \<Rightarrow> 'f functor_obj \<Rightarrow> cpp_type \<Rightarrow> cpp_type option" where
  "functor_result G fn T =
     (case fn of UserFunctor f \<Rightarrow> invoke_result (ty_functor G f) [T_future T] | GetFunctor \<Rightarrow> Some T)"

text \<open>A continuation of the state \<open>i\<close>, and whether it still owns its output.\<close>

definition cont_ok :: "('v, 'f) typing \<Rightarrow> store_type \<Rightarrow> nat \<Rightarrow> 'f continuation \<Rightarrow> bool" where
  "cont_ok G \<Gamma> i c \<longleftrightarrow>
     (case c of
        Continuation fn inp out \<Rightarrow>
          inp = i \<and> (\<exists>T R. \<Gamma> i = Some T \<and> functor_result G fn T = Some R \<and> ptr_ok \<Gamma> out R)
      | UnwrappingContinuation fn inp im out \<Rightarrow>
          inp = i \<and> (\<exists>T U. \<Gamma> i = Some T \<and> functor_result G fn T = Some (T_future U) \<and> \<Gamma> out = Some U))"

fun has_output :: "'f continuation \<Rightarrow> bool" where
  "has_output (Continuation fn inp out) \<longleftrightarrow> out \<noteq> None"
| "has_output (UnwrappingContinuation fn inp im out) \<longleftrightarrow> True"

definition state_ok :: "('v, 'f) typing \<Rightarrow> store_type \<Rightarrow> nat \<Rightarrow> cpp_type \<Rightarrow> ('v, 'f, 'k) fstate \<Rightarrow> bool" where
  "state_ok G \<Gamma> i T s \<longleftrightarrow> shared_state_inv s \<and>
     (\<forall>v. ss_buffer s = Live v \<longrightarrow> val_ok G \<Gamma> v T) \<and>
     (\<forall>c. ss_continuation s = Some c \<longrightarrow> cont_ok G \<Gamma> i c \<and> (is_ready_unlocked s \<or> has_output c)) \<and>
     (ty_ex G \<and> ss_current_state s = has_exception \<longrightarrow> ss_exception s \<noteq> None)"

definition heap_ok :: "('v, 'f) typing \<Rightarrow> store_type \<Rightarrow> ('v, 'f, 'k) fheap \<Rightarrow> bool" where
  "heap_ok G \<Gamma> h \<longleftrightarrow> (\<forall>i. \<Gamma> i = None \<longleftrightarrow> fh_store h i = None) \<and> (\<forall>i. fh_next h \<le> i \<longrightarrow> \<Gamma> i = None) \<and>
     (\<forall>i s T. fh_store h i = Some s \<and> \<Gamma> i = Some T \<longrightarrow> state_ok G \<Gamma> i T s)"

text \<open>Being satisfied is final.\<close>

definition ready_at :: "nat \<Rightarrow> ('v, 'f, 'k) fheap \<Rightarrow> bool" where
  "ready_at i h \<longleftrightarrow> (case fh_store h i of None \<Rightarrow> False | Some s \<Rightarrow> is_ready_unlocked s)"

definition ready_kept :: "('v, 'f, 'k) fheap \<Rightarrow> ('v, 'f, 'k) fheap \<Rightarrow> bool" where
  "ready_kept h h' \<longleftrightarrow> (\<forall>i. ready_at i h \<longrightarrow> ready_at i h')"

definition no_ub :: "fault \<Rightarrow> bool" where
  "no_ub e \<longleftrightarrow> (case e of UB u \<Rightarrow> False | Abn a \<Rightarrow> True)"

text \<open>
  A call started in the store \<open>h\<close>: if it returns, the store conforms to an extension of the typing, and
  its result is a value with the given property or a defined abnormal end.
\<close>

definition good ::
  "('v, 'f) typing \<Rightarrow> store_type \<Rightarrow> ('v, 'f, 'k) fheap \<Rightarrow> ('a, ('v, 'f, 'k) fheap) outcome
    \<Rightarrow> (store_type \<Rightarrow> 'a \<Rightarrow> bool) \<Rightarrow> bool" where
  "good G \<Gamma> h m P \<longleftrightarrow>
     (\<forall>r h'. m = Some (r, h') \<longrightarrow> (\<exists>\<Gamma>'. \<Gamma> \<subseteq>\<^sub>m \<Gamma>' \<and> heap_ok G \<Gamma>' h' \<and> ready_kept h h' \<and>
        (case r of Inl e \<Rightarrow> no_ub e | Inr x \<Rightarrow> P \<Gamma>' x)))"

definition exec_ok :: "('v, 'f) typing \<Rightarrow> ('v, 'f, 'k) executor \<Rightarrow> bool" where
  "exec_ok G exec \<longleftrightarrow>
     (\<forall>\<Gamma> h i c. heap_ok G \<Gamma> h \<and> cont_ok G \<Gamma> i c \<and> has_output c \<and> ready_at i h \<longrightarrow>
        good G \<Gamma> h (exec c h) (\<lambda>_ _. True))"

text \<open>What application functors and moved-from values have to satisfy.\<close>

definition calls_ok :: "('v, 'f) typing \<Rightarrow> ('v, 'f, 'k) functor_call \<Rightarrow> bool" where
  "calls_ok G call \<longleftrightarrow>
     (\<forall>\<Gamma> h f i T R. heap_ok G \<Gamma> h \<and> \<Gamma> i = Some T \<and> ready_at i h \<and>
        invoke_result (ty_functor G f) [T_future T] = Some R \<longrightarrow>
        good G \<Gamma> h (Some (call f i h)) (\<lambda>\<Gamma>' v. val_ok G \<Gamma>' v R))"

definition moves_ok :: "('v, 'f) typing \<Rightarrow> ('v fval \<Rightarrow> 'v fval) \<Rightarrow> bool" where
  "moves_ok G mv \<longleftrightarrow> (\<forall>\<Gamma> v T. val_ok G \<Gamma> v T \<longrightarrow> val_ok G \<Gamma> (mv v) T)"

section \<open>Growing the store\<close>

lemma ptr_ok_mono: "ptr_ok \<Gamma> p U \<Longrightarrow> \<Gamma> \<subseteq>\<^sub>m \<Gamma>' \<Longrightarrow> ptr_ok \<Gamma>' p U"
  by (auto simp: ptr_ok_def map_le_def dom_def split: option.splits)

lemma val_ok_mono: "val_ok G \<Gamma> v T \<Longrightarrow> \<Gamma> \<subseteq>\<^sub>m \<Gamma>' \<Longrightarrow> val_ok G \<Gamma>' v T"
  by (auto simp: val_ok_def dest: ptr_ok_mono split: fval.splits cpp_type.splits)

lemma map_le_Some: "\<Gamma> \<subseteq>\<^sub>m \<Gamma>' \<Longrightarrow> \<Gamma> i = Some T \<Longrightarrow> \<Gamma>' i = Some T"
  by (force simp: map_le_def dom_def)

lemma cont_ok_mono: "cont_ok G \<Gamma> i c \<Longrightarrow> \<Gamma> \<subseteq>\<^sub>m \<Gamma>' \<Longrightarrow> cont_ok G \<Gamma>' i c"
  by (fastforce simp: cont_ok_def dest: ptr_ok_mono map_le_Some split: continuation.splits)

lemma state_ok_mono: "state_ok G \<Gamma> i T s \<Longrightarrow> \<Gamma> \<subseteq>\<^sub>m \<Gamma>' \<Longrightarrow> state_ok G \<Gamma>' i T s"
  by (auto simp: state_ok_def dest: val_ok_mono cont_ok_mono)

lemma ready_kept_refl [simp]: "ready_kept h h"
  by (simp add: ready_kept_def)

lemma ready_kept_trans: "ready_kept h h' \<Longrightarrow> ready_kept h' h'' \<Longrightarrow> ready_kept h h''"
  by (simp add: ready_kept_def)

lemma heap_ok_lookup:
  assumes "heap_ok G \<Gamma> h" "\<Gamma> i = Some T"
  obtains s where "fh_store h i = Some s" "state_ok G \<Gamma> i T s"
proof -
  have "fh_store h i \<noteq> None" using assms unfolding heap_ok_def by (metis option.distinct(1))
  then obtain s where "fh_store h i = Some s" by blast
  with that assms show thesis by (simp add: heap_ok_def)
qed

lemma heap_ok_put:
  assumes "heap_ok G \<Gamma> h" "\<Gamma> i = Some T" "state_ok G \<Gamma> i T s"
  shows "heap_ok G \<Gamma> (fh_put i s h)"
proof -
  obtain s' where "fh_store h i = Some s'" using heap_ok_lookup [OF assms(1,2)] .
  with assms show ?thesis by (auto simp: heap_ok_def)
qed

lemma heap_ok_alloc:
  assumes "heap_ok G \<Gamma> h" "fh_alloc s h = (j, h')" "ss_current_state s = not_ready" "ss_buffer s = Uninit"
    "ss_continuation s = None"
  shows "\<Gamma> \<subseteq>\<^sub>m \<Gamma>(j \<mapsto> T) \<and> heap_ok G (\<Gamma>(j \<mapsto> T)) h' \<and> ready_kept h h'"
proof -
  have j: "j = fh_next h" "\<Gamma> j = None" "fh_store h j = None" and h': "h' = (fh_put j s h)\<lparr>fh_next := Suc j\<rparr>"
    using assms(1,2) by (auto simp: fh_alloc_def heap_ok_def)
  then have le: "\<Gamma> \<subseteq>\<^sub>m \<Gamma>(j \<mapsto> T)" by (auto simp: map_le_def)
  have s: "state_ok G (\<Gamma>(j \<mapsto> T)) j T s"
    using assms(3-5) by (simp add: state_ok_def shared_state_inv_def alive_def)
  have "heap_ok G (\<Gamma>(j \<mapsto> T)) h'"
    unfolding heap_ok_def
  proof (intro conjI allI impI)
    show "(\<Gamma>(j \<mapsto> T)) i = None \<longleftrightarrow> fh_store h' i = None" for i using assms(1) by (simp add: h' heap_ok_def)
    show "(\<Gamma>(j \<mapsto> T)) i = None" if "fh_next h' \<le> i" for i using assms(1) j(1) that by (simp add: h' heap_ok_def)
  next
    fix i s' T' assume i: "fh_store h' i = Some s' \<and> (\<Gamma>(j \<mapsto> T)) i = Some T'"
    show "state_ok G (\<Gamma>(j \<mapsto> T)) i T' s'"
    proof (cases "i = j")
      case False
      with i assms(1) have "state_ok G \<Gamma> i T' s'" by (simp add: h' heap_ok_def)
      then show ?thesis using le by (rule state_ok_mono)
    qed (use i s in \<open>simp add: h'\<close>)
  qed
  with le j show ?thesis by (auto simp: h' ready_kept_def ready_at_def split: option.splits)
qed

section \<open>Composing calls\<close>

lemma good_None [simp]: "good G \<Gamma> h None P"
  by (simp add: good_def)

lemma good_Inr: "heap_ok G \<Gamma> h' \<Longrightarrow> ready_kept h h' \<Longrightarrow> P \<Gamma> x \<Longrightarrow> good G \<Gamma> h (Some (Inr x, h')) P"
  by (auto simp: good_def intro: map_le_refl)

lemma good_Inl: "heap_ok G \<Gamma> h' \<Longrightarrow> ready_kept h h' \<Longrightarrow> no_ub e \<Longrightarrow> good G \<Gamma> h (Some (Inl e, h')) P"
  by (auto simp: good_def intro: map_le_refl)

lemma good_weaken:
  assumes "good G \<Gamma>' h' m P" "\<Gamma> \<subseteq>\<^sub>m \<Gamma>'" "ready_kept h h'" "\<And>\<Gamma>'' x. \<Gamma>' \<subseteq>\<^sub>m \<Gamma>'' \<Longrightarrow> P \<Gamma>'' x \<Longrightarrow> Q \<Gamma>'' x"
  shows "good G \<Gamma> h m Q"
  unfolding good_def
proof (intro allI impI)
  fix r h'' assume "m = Some (r, h'')"
  with assms(1) obtain \<Gamma>'' where "\<Gamma>' \<subseteq>\<^sub>m \<Gamma>''" "heap_ok G \<Gamma>'' h''" "ready_kept h' h''" "case r of Inl e \<Rightarrow> no_ub e | Inr x \<Rightarrow> P \<Gamma>'' x"
    by (auto simp: good_def)
  with assms(2-4) show "\<exists>\<Gamma>''. \<Gamma> \<subseteq>\<^sub>m \<Gamma>'' \<and> heap_ok G \<Gamma>'' h'' \<and> ready_kept h h'' \<and> (case r of Inl e \<Rightarrow> no_ub e | Inr x \<Rightarrow> Q \<Gamma>'' x)"
    by (intro exI [of _ \<Gamma>'']) (auto intro: map_le_trans ready_kept_trans split: sum.splits)
qed

lemma good_step:
  assumes "good G \<Gamma> h (Some (r, h')) P"
    "\<And>\<Gamma>'. \<Gamma> \<subseteq>\<^sub>m \<Gamma>' \<Longrightarrow> heap_ok G \<Gamma>' h' \<Longrightarrow> ready_kept h h' \<Longrightarrow> (case r of Inl e \<Rightarrow> no_ub e | Inr x \<Rightarrow> P \<Gamma>' x) \<Longrightarrow> good G \<Gamma>' h' m Q"
  shows "good G \<Gamma> h m Q"
proof -
  obtain \<Gamma>' where "\<Gamma> \<subseteq>\<^sub>m \<Gamma>'" "heap_ok G \<Gamma>' h'" "ready_kept h h'" "case r of Inl e \<Rightarrow> no_ub e | Inr x \<Rightarrow> P \<Gamma>' x"
    using assms(1) by (auto simp: good_def)
  with assms(2) [OF this] show ?thesis by (auto intro: good_weaken)
qed

lemma good_bindH:
  assumes "good G \<Gamma> h m P"
    "\<And>\<Gamma>' x h'. \<Gamma> \<subseteq>\<^sub>m \<Gamma>' \<Longrightarrow> heap_ok G \<Gamma>' h' \<Longrightarrow> ready_kept h h' \<Longrightarrow> P \<Gamma>' x \<Longrightarrow> good G \<Gamma>' h' (f x h') Q"
  shows "good G \<Gamma> h (bindH m f) Q"
proof (cases m)
  case (Some p)
  obtain r h' where p: "p = (r, h')" by (cases p)
  show ?thesis
  proof (rule good_step [OF assms(1) [unfolded Some p]])
    fix \<Gamma>' assume "\<Gamma> \<subseteq>\<^sub>m \<Gamma>'" "heap_ok G \<Gamma>' h'" "ready_kept h h'" "case r of Inl e \<Rightarrow> no_ub e | Inr x \<Rightarrow> P \<Gamma>' x"
    then show "good G \<Gamma>' h' (bindH m f) Q"
      using assms(2) by (cases r) (simp_all add: Some p good_Inl)
  qed
qed (simp add: bindH_def)

section \<open>Locked sections\<close>

lemma no_ub_simps [simp]: "no_ub (Abn a)" "\<not> no_ub (UB u)" "no_ub (future_fault he ec f)"
  by (simp_all add: no_ub_def future_fault_def)

lemma exec_okD:
  "exec_ok G exec \<Longrightarrow> heap_ok G \<Gamma> h \<Longrightarrow> cont_ok G \<Gamma> i c \<Longrightarrow> has_output c \<Longrightarrow> ready_at i h \<Longrightarrow>
   good G \<Gamma> h (exec c h) (\<lambda>_ _. True)"
  by (simp add: exec_ok_def)

definition section_ok ::
  "('v, 'f) typing \<Rightarrow> store_type \<Rightarrow> nat \<Rightarrow> cpp_type
    \<Rightarrow> (('v, 'f, 'k) fstate \<Rightarrow> fault + ('v, 'f, 'k) fstate \<times> 'f continuation after) \<Rightarrow> bool" where
  "section_ok G \<Gamma> i T sect \<longleftrightarrow>
     (\<forall>s. state_ok G \<Gamma> i T s \<longrightarrow>
        (case sect s of
           Inl e \<Rightarrow> no_ub e
         | Inr (s', a) \<Rightarrow> state_ok G \<Gamma> i T s' \<and> (is_ready_unlocked s \<longrightarrow> is_ready_unlocked s') \<and>
             (\<forall>c. a = Execute c \<longrightarrow> is_ready_unlocked s' \<and> cont_ok G \<Gamma> i c \<and> has_output c)))"

lemma on_state_good:
  assumes "heap_ok G \<Gamma> h" "\<Gamma> i = Some T" "exec_ok G exec" "section_ok G \<Gamma> i T sect"
  shows "good G \<Gamma> h (on_state exec i sect h) (\<lambda>_ _. True)"
proof -
  obtain s where s: "fh_store h i = Some s" "state_ok G \<Gamma> i T s" using heap_ok_lookup [OF assms(1,2)] .
  show ?thesis
  proof (cases "sect s")
    case (Inl e)
    then show ?thesis using assms(1,4) s by (auto simp: on_state_def section_ok_def intro!: good_Inl)
  next
    case (Inr p)
    obtain s' a where p: "p = (s', a)" by (cases p)
    from assms(4) s(2) Inr p have s': "state_ok G \<Gamma> i T s'" "is_ready_unlocked s \<longrightarrow> is_ready_unlocked s'"
      "\<And>c. a = Execute c \<Longrightarrow> is_ready_unlocked s' \<and> cont_ok G \<Gamma> i c \<and> has_output c"
      by (force simp: section_ok_def)+
    let ?h = "fh_put i s' h"
    have h: "heap_ok G \<Gamma> ?h" "ready_kept h ?h"
      using heap_ok_put [OF assms(1,2) s'(1)] s'(2) s(1) by (auto simp: ready_kept_def ready_at_def)
    have "good G \<Gamma> ?h (perform exec a ?h) (\<lambda>_ _. True)"
    proof (cases a)
      case (Execute c)
      with s'(3) have "is_ready_unlocked s'" "cont_ok G \<Gamma> i c" "has_output c" by blast+
      with exec_okD [OF assms(3) h(1), of i c] show ?thesis by (simp add: perform_def ready_at_def Execute)
    qed (simp_all add: perform_def good_Inr h)
    then show ?thesis using h(2) by (simp add: on_state_def s(1) Inr p) (auto intro: good_weaken)
  qed
qed

lemma section_ok_set_value: "val_ok G \<Gamma> v T \<Longrightarrow> section_ok G \<Gamma> i T (set_value_section (ty_ex G) v)"
  by (auto simp: section_ok_def state_ok_def future_simps shared_state_inv_def alive_def cell_new_def
      split: cell.splits option.splits)

lemma section_ok_set_exception:
  "ty_ex G \<longrightarrow> ex \<noteq> None \<Longrightarrow> section_ok G \<Gamma> i T (set_exception_section (ty_ex G) ex)"
  by (auto simp: section_ok_def state_ok_def future_simps shared_state_inv_def split: option.splits)

lemma section_ok_abandon: "section_ok G \<Gamma> i T (abandon_section (ty_ex G))"
  by (auto simp: section_ok_def state_ok_def future_simps shared_state_inv_def)

lemma section_ok_set_continuation:
  "cont_ok G \<Gamma> i c \<Longrightarrow> has_output c \<Longrightarrow> section_ok G \<Gamma> i T (set_continuation_section (ty_ex G) c)"
  by (auto simp: section_ok_def state_ok_def future_simps shared_state_inv_def)

lemma state_get_good:
  assumes "heap_ok G \<Gamma> h" "\<Gamma> i = Some T" "moves_ok G mv"
  shows "good G \<Gamma> h (state_get (ty_ex G) mv i h) (\<lambda>\<Gamma>' v. val_ok G \<Gamma>' v T)"
proof -
  obtain s where s: "fh_store h i = Some s" "state_ok G \<Gamma> i T s" using heap_ok_lookup [OF assms(1,2)] .
  have same: "heap_ok G \<Gamma> (fh_put i s h)" "ready_kept h (fh_put i s h)"
    using heap_ok_put [OF assms(1,2) s(2)] s(1) by (auto simp: ready_kept_def ready_at_def)
  show ?thesis
  proof (cases "ss_current_state s")
    case not_ready
    then show ?thesis by (simp add: state_get_def s(1) get_section_def)
  next
    case has_exception
    then show ?thesis
      using s(2) same by (auto simp: state_get_def s(1) get_section_def state_ok_def intro!: good_Inl split: option.splits)
  next
    case has_value
    then obtain v where v: "ss_buffer s = Live v" "val_ok G \<Gamma> v T"
      using s(2) by (auto simp: state_ok_def shared_state_inv_def elim: aliveE)
    let ?s = "s\<lparr>ss_buffer := Live (mv v)\<rparr>"
    have "state_ok G \<Gamma> i T ?s"
      using s(2) v assms(3) by (auto simp: state_ok_def shared_state_inv_def moves_ok_def is_ready_unlocked_def)
    from heap_ok_put [OF assms(1,2) this] s(1) has_value v show ?thesis
      by (auto simp: state_get_def get_section_def ready_kept_def ready_at_def is_ready_unlocked_def intro!: good_Inr)
  qed
qed

section \<open>Executing continuations\<close>

lemma call_functor_good:
  assumes "heap_ok G \<Gamma> h" "\<Gamma> i = Some T" "ready_at i h" "functor_result G fn T = Some R" "calls_ok G call" "moves_ok G mv"
  shows "good G \<Gamma> h (call_functor (ty_ex G) call mv fn i h) (\<lambda>\<Gamma>' v. val_ok G \<Gamma>' v R)"
proof (cases fn)
  case (UserFunctor f)
  let ?h = "h\<lparr>fh_calls := fh_calls h @ [(f, i)]\<rparr>"
  have "heap_ok G \<Gamma> ?h" "ready_at i ?h" and same: "ready_kept h ?h"
    using assms(1,3) by (simp_all add: heap_ok_def ready_at_def ready_kept_def)
  with assms(2,4,5) UserFunctor have "good G \<Gamma> ?h (Some (call f i ?h)) (\<lambda>\<Gamma>' v. val_ok G \<Gamma>' v R)"
    by (auto simp: calls_ok_def functor_result_def)
  with same UserFunctor show ?thesis by (auto simp: call_functor_def intro: good_weaken)
next
  case GetFunctor
  with assms state_get_good [OF assms(1,2,6)] show ?thesis by (simp add: call_functor_def functor_result_def)
qed

lemma report_exception_good:
  assumes "good G \<Gamma> h m (\<lambda>_ _. True)" "\<Gamma> out = Some R" "exec_ok G exec"
  shows "good G \<Gamma> h (report_exception exec (ty_ex G) out m) (\<lambda>_ _. True)"
proof (cases m)
  case (Some p)
  obtain r h' where p: "p = (r, h')" by (cases p)
  show ?thesis
  proof (rule good_step [OF assms(1) [unfolded Some p]])
    fix \<Gamma>' assume g: "\<Gamma> \<subseteq>\<^sub>m \<Gamma>'" "heap_ok G \<Gamma>' h'" "case r of Inl e \<Rightarrow> no_ub e | Inr x \<Rightarrow> True"
    have "good G \<Gamma>' h' (state_set_exception exec (ty_ex G) out (Some ex) h') (\<lambda>_ _. True)" for ex
      unfolding state_set_exception_def
      using on_state_good [OF g(2) map_le_Some [OF g(1) assms(2)] assms(3) section_ok_set_exception] by simp
    with g show "good G \<Gamma>' h' (report_exception exec (ty_ex G) out m) (\<lambda>_ _. True)"
      by (auto simp: report_exception_def Some p intro!: good_Inl good_Inr split: sum.splits fault.splits abnormal.splits cpp_exception.splits)
  qed
qed (simp add: report_exception_def)

lemma delegate_good:
  fixes h :: "('v, 'f, 'k) fheap"
  assumes "heap_ok G \<Gamma> h" "\<Gamma> i = Some T" "ready_at i h" "functor_result G fn T = Some R" "\<Gamma> out = Some R"
    "calls_ok G call" "moves_ok G mv" "exec_ok G exec"
  shows "good G \<Gamma> h (continuation_execute_delegate exec (ty_ex G) call mv fn i out h) (\<lambda>_ _. True)"
  unfolding continuation_execute_delegate_def
proof (rule report_exception_good [OF good_bindH [OF call_functor_good [OF assms(1-4,6,7)]] assms(5,8)])
  fix \<Gamma>' v and h' :: "('v, 'f, 'k) fheap" assume "\<Gamma> \<subseteq>\<^sub>m \<Gamma>'" "heap_ok G \<Gamma>' h'" "val_ok G \<Gamma>' v R"
  moreover from this(1) have "\<Gamma>' out = Some R" using assms(5) by (rule map_le_Some)
  ultimately show "good G \<Gamma>' h' (state_set_value exec (ty_ex G) out v h') (\<lambda>_ _. True)"
    unfolding state_set_value_def by (intro on_state_good [OF _ _ assms(8) section_ok_set_value])
qed

lemma reset_output_ok:
  assumes "heap_ok G \<Gamma> h" "ready_at i h"
  shows "heap_ok G \<Gamma> (reset_output c i h)" "ready_kept h (reset_output c i h)"
proof -
  from assms(2) obtain s where s: "fh_store h i = Some s" "is_ready_unlocked s" by (auto simp: ready_at_def split: option.splits)
  then have "\<Gamma> i \<noteq> None" using assms(1) by (simp add: heap_ok_def)
  then obtain T where T: "\<Gamma> i = Some T" by blast
  then have ok: "state_ok G \<Gamma> i T s" using assms(1) s(1) by (simp add: heap_ok_def)
  then have "state_ok G \<Gamma> i T (s\<lparr>ss_continuation := Some (Continuation fn j None)\<rparr>)"
    if "ss_continuation s = Some (Continuation fn j out)" for fn j out
    using that s(2) by (auto simp: state_ok_def cont_ok_def ptr_ok_def shared_state_inv_def is_ready_unlocked_def)
  with heap_ok_put [OF assms(1) T] assms(1) s show "heap_ok G \<Gamma> (reset_output c i h)"
    by (auto simp: reset_output_def split: continuation.splits)
  show "ready_kept h (reset_output c i h)"
    using s by (auto simp: reset_output_def ready_kept_def ready_at_def is_ready_unlocked_def split: continuation.splits)
qed

text \<open>A functor that returns a future returns no plain value, so unwrapping sees a pointer.\<close>

lemma val_ok_future: "val_ok G \<Gamma> v (T_future U) \<longleftrightarrow> (\<exists>p. v = FutureVal p \<and> ptr_ok \<Gamma> p U)"
  by (auto simp: val_ok_def split: fval.splits)

lemma execute_ok:
  assumes "calls_ok G call" "moves_ok G mv"
  shows "exec_ok G (execute (ty_ex G) call mv n)"
proof (induction n)
  case 0
  then show ?case by (simp add: exec_ok_def)
next
  case (Suc n)
  note exec = Suc.IH
  show ?case
    unfolding exec_ok_def
  proof (intro allI impI, elim conjE)
    fix \<Gamma> :: store_type and h :: "('a, 'b, 'c) fheap" and i c
    assume h: "heap_ok G \<Gamma> h" and c: "cont_ok G \<Gamma> i c" "has_output c" and rdy: "ready_at i h"
    then obtain s where s: "fh_store h i = Some s" by (auto simp: ready_at_def split: option.splits)
    show "good G \<Gamma> h (execute (ty_ex G) call mv (Suc n) c h) (\<lambda>_ _. True)"
    proof (cases c)
      case (Continuation fn j out)
      with c obtain T R out' where t: "j = i" "\<Gamma> i = Some T" "functor_result G fn T = Some R" "out = Some out'" "\<Gamma> out' = Some R"
        by (auto simp: cont_ok_def ptr_ok_def)
      have "good G \<Gamma> h (bindH (continuation_execute_delegate (execute (ty_ex G) call mv n) (ty_ex G) call mv fn i out' h)
          (\<lambda>_ h1. Some (Inr (), reset_output c i h1))) (\<lambda>_ _. True)"
      proof (rule good_bindH [OF delegate_good [OF h t(2) rdy t(3,5) assms exec]])
        fix \<Gamma>' :: store_type and h1 :: "('a, 'b, 'c) fheap" assume "heap_ok G \<Gamma>' h1" "ready_kept h h1"
        with reset_output_ok [of G \<Gamma>' h1 i c] rdy show "good G \<Gamma>' h1 (Some (Inr (), reset_output c i h1)) (\<lambda>_ _. True)"
          by (auto simp: ready_kept_def intro!: good_Inr)
      qed
      then show ?thesis by (simp add: Continuation t s)
    next
      case (UnwrappingContinuation fn j im out)
      with c obtain T U where t: "j = i" "\<Gamma> i = Some T" "functor_result G fn T = Some (T_future U)" "\<Gamma> out = Some U"
        by (auto simp: cont_ok_def)
      show ?thesis
      proof (cases "call_functor (ty_ex G) call mv fn i h")
        case None
        then show ?thesis by (simp add: UnwrappingContinuation t s)
      next
        case (Some p)
        obtain r h1 where p: "p = (r, h1)" by (cases p)
        from call_functor_good [OF h t(2) rdy t(3) assms] have called: "good G \<Gamma> h (Some (r, h1)) (\<lambda>\<Gamma>' v. val_ok G \<Gamma>' v (T_future U))"
          by (simp add: Some p)
        show ?thesis
        proof (rule good_step [OF called])
          fix \<Gamma>' assume g: "\<Gamma> \<subseteq>\<^sub>m \<Gamma>'" "heap_ok G \<Gamma>' h1" "case r of Inl e \<Rightarrow> no_ub e | Inr v \<Rightarrow> val_ok G \<Gamma>' v (T_future U)"
          have out: "\<Gamma>' out = Some U" by (rule map_le_Some [OF g(1) t(4)])
          have ex: "good G \<Gamma>' h1 (state_set_exception (execute (ty_ex G) call mv n) (ty_ex G) out (Some ex) h1) (\<lambda>_ _. True)" for ex
            unfolding state_set_exception_def by (rule on_state_good [OF g(2) out exec section_ok_set_exception]) simp
          have attach: "good G \<Gamma>' h1 (state_set_continuation (execute (ty_ex G) call mv n) (ty_ex G) m
              (Continuation GetFunctor m (Some out)) h1) (\<lambda>_ _. True)" if "\<Gamma>' m = Some U" for m
            unfolding state_set_continuation_def
            by (rule on_state_good [OF g(2) that exec section_ok_set_continuation])
              (simp_all add: cont_ok_def functor_result_def ptr_ok_def that out)
          show "good G \<Gamma>' h1 (execute (ty_ex G) call mv (Suc n) c h) (\<lambda>_ _. True)"
            using g(2,3) ex attach
            by (auto simp: UnwrappingContinuation t s Some p val_ok_future ptr_ok_def intro!: good_Inl
                split: sum.splits fault.splits abnormal.splits option.splits)
        qed
      qed
    qed
  qed
qed

section \<open>Operations of futures and promises\<close>

lemma make_continuation_good:
  fixes h :: "('v, 'f, 'k) fheap"
  assumes "heap_ok G \<Gamma> h" "\<Gamma> i = Some T" "functor_result G fn T = Some (if unwrap then T_future R else R)"
    "calls_ok G call" "moves_ok G mv"
  shows "good G \<Gamma> h (make_continuation (ty_ex G) call mv n i fn unwrap h) (\<lambda>\<Gamma>' out. \<Gamma>' out = Some R)"
proof -
  obtain s where s: "fh_store h i = Some s" "state_ok G \<Gamma> i T s" using heap_ok_lookup [OF assms(1,2)] .
  let ?s = "s\<lparr>ss_cancellation_callback := None\<rparr>"
  let ?h0 = "fh_put i ?s h" and ?new = "shared_state_new (ss_cancellation_callback s) :: ('v, 'f, 'k) fstate"
  obtain out h1 where a: "fh_alloc ?new ?h0 = (out, h1)" by (cases "fh_alloc ?new ?h0")
  have "state_ok G \<Gamma> i T ?s" using s(2) by (simp add: state_ok_def shared_state_inv_def is_ready_unlocked_def)
  then have h0: "heap_ok G \<Gamma> ?h0" "ready_kept h ?h0"
    using heap_ok_put [OF assms(1,2)] s(1) by (auto simp: ready_kept_def ready_at_def is_ready_unlocked_def)
  have h1: "\<Gamma> \<subseteq>\<^sub>m \<Gamma>(out \<mapsto> R)" "heap_ok G (\<Gamma>(out \<mapsto> R)) h1" "ready_kept ?h0 h1"
    using heap_ok_alloc [OF h0(1) a, of R] by simp_all
  let ?c = "if unwrap then UnwrappingContinuation fn i None out else Continuation fn i (Some out)"
  have i: "(\<Gamma>(out \<mapsto> R)) i = Some T" by (rule map_le_Some [OF h1(1) assms(2)])
  have c: "cont_ok G (\<Gamma>(out \<mapsto> R)) i ?c" "has_output ?c"
    using assms(3) i by (auto simp: cont_ok_def ptr_ok_def)
  have "good G (\<Gamma>(out \<mapsto> R)) h1 (bindH (state_set_continuation (execute (ty_ex G) call mv n) (ty_ex G) i ?c h1)
      (\<lambda>_ h2. Some (Inr out, h2))) (\<lambda>\<Gamma>' out. \<Gamma>' out = Some R)"
    unfolding state_set_continuation_def
  proof (rule good_bindH [OF on_state_good [OF h1(2) i execute_ok [OF assms(4,5)] section_ok_set_continuation [OF c]]])
    fix \<Gamma>' and h2 :: "('v, 'f, 'k) fheap" assume "\<Gamma>(out \<mapsto> R) \<subseteq>\<^sub>m \<Gamma>'" "heap_ok G \<Gamma>' h2"
    then show "good G \<Gamma>' h2 (Some (Inr out, h2)) (\<lambda>\<Gamma>' out. \<Gamma>' out = Some R)"
      by (intro good_Inr) (auto dest: map_le_Some)
  qed
  then have "good G \<Gamma> h (bindH (state_set_continuation (execute (ty_ex G) call mv n) (ty_ex G) i ?c h1)
      (\<lambda>_ h2. Some (Inr out, h2))) (\<lambda>\<Gamma>' out. \<Gamma>' out = Some R)"
    by (rule good_weaken [OF _ h1(1) ready_kept_trans [OF h0(2) h1(3)]])
  then show ?thesis by (simp add: make_continuation_def s(1) release_cancellation_callback_def a)
qed

lemma promise_satisfy_good:
  assumes "heap_ok G \<Gamma> h" "ptr_ok \<Gamma> p T" "calls_ok G call" "moves_ok G mv"
  shows "val_ok G \<Gamma> v T \<Longrightarrow> good G \<Gamma> h (promise_set_value (ty_ex G) call mv n p v h) (\<lambda>_ _. True)"
    and "good G \<Gamma> h (promise_set_exception (ty_ex G) call mv n p (Some ex) h) (\<lambda>_ _. True)"
    and "good G \<Gamma> h (promise_destroy (ty_ex G) call mv n p h) (\<lambda>_ _. True)"
  using assms(1,2) on_state_good [OF assms(1) _ execute_ok [OF assms(3,4)]]
  by (auto simp: promise_set_value_def promise_set_exception_def promise_destroy_def ptr_ok_def state_set_value_def
      state_set_exception_def state_abandon_def section_ok_set_value section_ok_set_exception section_ok_abandon
      intro!: good_Inl good_Inr split: option.splits)

lemma promise_get_future_good:
  assumes "heap_ok G \<Gamma> h" "ptr_ok \<Gamma> p T" "promise_get_future (ty_ex G) p h = (r, h')"
  shows "heap_ok G \<Gamma> h' \<and> ready_kept h h' \<and> (case r of Inl e \<Rightarrow> no_ub e | Inr fut \<Rightarrow> ptr_ok \<Gamma> fut T)"
proof (cases p)
  case (Some i)
  with assms(2) have i: "\<Gamma> i = Some T" by (simp add: ptr_ok_def)
  obtain s where s: "fh_store h i = Some s" "state_ok G \<Gamma> i T s" using heap_ok_lookup [OF assms(1) i] .
  then have "state_ok G \<Gamma> i T (s\<lparr>ss_retrieved := True\<rparr>)" by (simp add: state_ok_def shared_state_inv_def is_ready_unlocked_def)
  from heap_ok_put [OF assms(1) i this] assms(1,3) s(1) i show ?thesis
    by (auto simp: promise_get_future_def Some mark_retrieved_section_def ptr_ok_def ready_kept_def ready_at_def
        is_ready_unlocked_def split: if_splits)
qed (use assms in \<open>auto simp: promise_get_future_def\<close>)

section \<open>Client programs\<close>

text \<open>
  A program works with promises, futures and the values it got from them, named by their position.
  Whether \<^verbatim>\<open>then\<close> unwraps is decided by the compiler, so it is part of the operation. An exception
  ends the program.
\<close>

datatype ('v, 'f, 'k) client_op =
    NewPromise cpp_type "'k option"
  | GetFuture nat
  | SetValue nat 'v
  | SetFuture nat nat
  | SetException nat cpp_exception
  | Then nat 'f bool
  | Unwrap nat
  | Get nat
  | DestroyPromise nat

record ('v, 'f, 'k) client =
  cl_heap :: "('v, 'f, 'k) fheap"
  cl_promises :: "promise_ptr list"
  cl_futures :: "future_ptr list"
  cl_values :: "'v fval list"

definition on_heap :: "('v, 'f, 'k) client \<Rightarrow> (unit, ('v, 'f, 'k) fheap) outcome \<Rightarrow> (unit, ('v, 'f, 'k) client) outcome" where
  "on_heap cl m = map_option (\<lambda>(r, h). (r, cl\<lparr>cl_heap := h\<rparr>)) m"

definition replacing_future ::
  "nat \<Rightarrow> ('v, 'f, 'k) client \<Rightarrow> ((fault + future_ptr) \<times> future_ptr \<times> ('v, 'f, 'k) fheap) option
    \<Rightarrow> (unit, ('v, 'f, 'k) client) outcome" where
  "replacing_future j cl m = map_option (\<lambda>(r, fut, h).
     let cl' = cl\<lparr>cl_heap := h, cl_futures := (cl_futures cl)[j := fut]\<rparr> in
     case r of Inl e \<Rightarrow> (Inl e, cl') | Inr out \<Rightarrow> (Inr (), cl'\<lparr>cl_futures := cl_futures cl' @ [out]\<rparr>)) m"

fun client_op_run ::
  "bool \<Rightarrow> ('v, 'f, 'k) functor_call \<Rightarrow> ('v fval \<Rightarrow> 'v fval) \<Rightarrow> nat \<Rightarrow> ('v, 'f, 'k) client_op
    \<Rightarrow> ('v, 'f, 'k) client \<Rightarrow> (unit, ('v, 'f, 'k) client) outcome" where
  "client_op_run he call mv n (NewPromise T cb) cl =
     (case promise_new cb (cl_heap cl) of (p, h) \<Rightarrow>
        Some (Inr (), cl\<lparr>cl_heap := h, cl_promises := cl_promises cl @ [p]\<rparr>))"
| "client_op_run he call mv n (GetFuture i) cl =
     (case promise_get_future he (cl_promises cl ! i) (cl_heap cl) of
        (Inl e, h) \<Rightarrow> Some (Inl e, cl\<lparr>cl_heap := h\<rparr>)
      | (Inr fut, h) \<Rightarrow> Some (Inr (), cl\<lparr>cl_heap := h, cl_futures := cl_futures cl @ [fut]\<rparr>))"
| "client_op_run he call mv n (SetValue i x) cl =
     on_heap cl (promise_set_value he call mv n (cl_promises cl ! i) (Plain x) (cl_heap cl))"
| "client_op_run he call mv n (SetFuture i j) cl =
     on_heap (cl\<lparr>cl_futures := (cl_futures cl)[j := None]\<rparr>)
       (promise_set_value he call mv n (cl_promises cl ! i) (FutureVal (cl_futures cl ! j)) (cl_heap cl))"
| "client_op_run he call mv n (SetException i ex) cl =
     on_heap cl (promise_set_exception he call mv n (cl_promises cl ! i) (Some ex) (cl_heap cl))"
| "client_op_run he call mv n (Then j f unwrap) cl =
     replacing_future j cl (future_then he call mv n (UserFunctor f) unwrap (cl_futures cl ! j) (cl_heap cl))"
| "client_op_run he call mv n (Unwrap j) cl =
     replacing_future j cl (future_unwrap he call mv n (cl_futures cl ! j) (cl_heap cl))"
| "client_op_run he call mv n (Get j) cl =
     map_option (\<lambda>(r, fut, h). let cl' = cl\<lparr>cl_heap := h, cl_futures := (cl_futures cl)[j := fut]\<rparr> in
         case r of Inl e \<Rightarrow> (Inl e, cl') | Inr v \<Rightarrow> (Inr (), cl'\<lparr>cl_values := cl_values cl' @ [v]\<rparr>))
       (future_get he mv (cl_futures cl ! j) (cl_heap cl))"
| "client_op_run he call mv n (DestroyPromise i) cl =
     on_heap (cl\<lparr>cl_promises := (cl_promises cl)[i := None]\<rparr>)
       (promise_destroy he call mv n (cl_promises cl ! i) (cl_heap cl))"

fun client_run ::
  "bool \<Rightarrow> ('v, 'f, 'k) functor_call \<Rightarrow> ('v fval \<Rightarrow> 'v fval) \<Rightarrow> nat \<Rightarrow> ('v, 'f, 'k) client_op list
    \<Rightarrow> ('v, 'f, 'k) client \<Rightarrow> (unit, ('v, 'f, 'k) client) outcome" where
  "client_run he call mv n [] cl = Some (Inr (), cl)"
| "client_run he call mv n (op # ops) cl =
     bindH (client_op_run he call mv n op cl) (\<lambda>_ cl'. client_run he call mv n ops cl')"

definition client_new :: "('v, 'f, 'k) client" where
  "client_new = \<lparr>cl_heap = \<lparr>fh_next = 0, fh_store = Map.empty, fh_calls = []\<rparr>, cl_promises = [], cl_futures = [], cl_values = []\<rparr>"

text \<open>The rules of the compiler: the types of the promises, futures and values after an operation.\<close>

record static_types =
  st_promises :: "cpp_type list"
  st_futures :: "cpp_type list"
  st_values :: "cpp_type list"

fun check_op :: "('v, 'f) typing \<Rightarrow> ('v, 'f, 'k) client_op \<Rightarrow> static_types \<Rightarrow> static_types option" where
  "check_op G (NewPromise T cb) te = Some (te\<lparr>st_promises := st_promises te @ [T]\<rparr>)"
| "check_op G (GetFuture i) te =
     (if i < length (st_promises te) then Some (te\<lparr>st_futures := st_futures te @ [st_promises te ! i]\<rparr>) else None)"
| "check_op G (SetValue i x) te =
     (if i < length (st_promises te) \<and> val_ok G Map.empty (Plain x) (st_promises te ! i) then Some te else None)"
| "check_op G (SetFuture i j) te =
     (if i < length (st_promises te) \<and> j < length (st_futures te) \<and> st_promises te ! i = T_future (st_futures te ! j)
      then Some te else None)"
| "check_op G (SetException i ex) te = (if i < length (st_promises te) then Some te else None)"
| "check_op G (Then j f unwrap) te =
     (if j < length (st_futures te) then
        (case then_helper (ty_functor G f) (st_futures te ! j) of
           None \<Rightarrow> None
         | Some hp \<Rightarrow>
             if unwrap = requires_unwrap_t hp then Some (te\<lparr>st_futures := st_futures te @ [result_t hp]\<rparr>) else None)
      else None)"
| "check_op G (Unwrap j) te =
     (if j < length (st_futures te) then
        (case st_futures te ! j of T_future U \<Rightarrow> Some (te\<lparr>st_futures := st_futures te @ [U]\<rparr>) | _ \<Rightarrow> None)
      else None)"
| "check_op G (Get j) te =
     (if j < length (st_futures te) then Some (te\<lparr>st_values := st_values te @ [st_futures te ! j]\<rparr>) else None)"
| "check_op G (DestroyPromise i) te = (if i < length (st_promises te) then Some te else None)"

fun check_program :: "('v, 'f) typing \<Rightarrow> ('v, 'f, 'k) client_op list \<Rightarrow> static_types \<Rightarrow> static_types option" where
  "check_program G [] te = Some te"
| "check_program G (op # ops) te = (case check_op G op te of None \<Rightarrow> None | Some te' \<Rightarrow> check_program G ops te')"

definition no_types :: static_types where
  "no_types = \<lparr>st_promises = [], st_futures = [], st_values = []\<rparr>"

definition client_ok :: "('v, 'f) typing \<Rightarrow> store_type \<Rightarrow> static_types \<Rightarrow> ('v, 'f, 'k) client \<Rightarrow> bool" where
  "client_ok G \<Gamma> te cl \<longleftrightarrow> heap_ok G \<Gamma> (cl_heap cl) \<and> list_all2 (ptr_ok \<Gamma>) (cl_promises cl) (st_promises te) \<and>
     list_all2 (ptr_ok \<Gamma>) (cl_futures cl) (st_futures te) \<and> list_all2 (val_ok G \<Gamma>) (cl_values cl) (st_values te)"

section \<open>Soundness\<close>

lemma handles_mono:
  "list_all2 (ptr_ok \<Gamma>) ps Ts \<Longrightarrow> \<Gamma> \<subseteq>\<^sub>m \<Gamma>' \<Longrightarrow> list_all2 (ptr_ok \<Gamma>') ps Ts"
  "list_all2 (val_ok G \<Gamma>) vs Ts \<Longrightarrow> \<Gamma> \<subseteq>\<^sub>m \<Gamma>' \<Longrightarrow> list_all2 (val_ok G \<Gamma>') vs Ts"
  by (auto elim!: list_all2_mono dest: ptr_ok_mono val_ok_mono)

lemma handles_update:
  "list_all2 (ptr_ok \<Gamma>) ps Ts \<Longrightarrow> ptr_ok \<Gamma> p (Ts ! j) \<Longrightarrow> list_all2 (ptr_ok \<Gamma>) (ps[j := p]) Ts"
  by (auto simp: list_all2_conv_all_nth) (metis nth_list_update nth_list_update_neq)

lemma handles_nth:
  "list_all2 (ptr_ok \<Gamma>) ps Ts \<Longrightarrow> j < length Ts \<Longrightarrow> ptr_ok \<Gamma> (ps ! j) (Ts ! j)"
  by (simp add: list_all2_conv_all_nth)

lemma ptr_ok_None [simp]: "ptr_ok \<Gamma> None T"
  by (simp add: ptr_ok_def)

text \<open>What an operation of a client leaves: a conforming store, and conforming handles unless it threw.\<close>

definition step_ok :: "('v, 'f) typing \<Rightarrow> static_types \<Rightarrow> (unit, ('v, 'f, 'k) client) outcome \<Rightarrow> bool" where
  "step_ok G te m \<longleftrightarrow> (\<forall>r cl. m = Some (r, cl) \<longrightarrow>
     (\<exists>\<Gamma>. heap_ok G \<Gamma> (cl_heap cl) \<and> (case r of Inl e \<Rightarrow> no_ub e | Inr _ \<Rightarrow> client_ok G \<Gamma> te cl)))"

lemma on_heap_ok:
  assumes "client_ok G \<Gamma> te cl" "good G \<Gamma> (cl_heap cl) m (\<lambda>_ _. True)"
  shows "step_ok G te (on_heap cl m)"
  unfolding step_ok_def
proof (intro allI impI)
  fix r cl' assume "on_heap cl m = Some (r, cl')"
  then obtain h' where m: "m = Some (r, h')" "cl' = cl\<lparr>cl_heap := h'\<rparr>" by (auto simp: on_heap_def)
  with assms(2) obtain \<Gamma>' where "\<Gamma> \<subseteq>\<^sub>m \<Gamma>'" "heap_ok G \<Gamma>' h'" "case r of Inl e \<Rightarrow> no_ub e | Inr x \<Rightarrow> True"
    by (auto simp: good_def)
  with assms(1) m(2) show "\<exists>\<Gamma>. heap_ok G \<Gamma> (cl_heap cl') \<and> (case r of Inl e \<Rightarrow> no_ub e | Inr _ \<Rightarrow> client_ok G \<Gamma> te cl')"
    by (intro exI [of _ \<Gamma>']) (auto simp: client_ok_def intro: handles_mono split: sum.splits)
qed

lemma future_then_ok:
  fixes cl :: "('v, 'f, 'k) client"
  assumes "client_ok G \<Gamma> te cl" "j < length (st_futures te)" "calls_ok G call" "moves_ok G mv"
    "functor_result G fn (st_futures te ! j) = Some (if unwrap then T_future R else R)"
  shows "step_ok G (te\<lparr>st_futures := st_futures te @ [R]\<rparr>)
     (replacing_future j cl (future_then (ty_ex G) call mv n fn unwrap (cl_futures cl ! j) (cl_heap cl)))"
proof (cases "cl_futures cl ! j")
  case None
  with assms(1) show ?thesis
    by (auto simp: step_ok_def replacing_future_def future_then_def check_valid_def client_ok_def)
next
  case (Some i)
  have h: "heap_ok G \<Gamma> (cl_heap cl)" and i: "\<Gamma> i = Some (st_futures te ! j)"
    using assms(1) handles_nth [of \<Gamma> "cl_futures cl" "st_futures te", OF _ assms(2)] Some by (simp_all add: client_ok_def ptr_ok_def)
  note mk = make_continuation_good [OF h i assms(5,3,4), of n]
  show ?thesis
    unfolding step_ok_def
  proof (intro allI impI)
    fix r cl' assume run: "replacing_future j cl (future_then (ty_ex G) call mv n fn unwrap (cl_futures cl ! j) (cl_heap cl)) = Some (r, cl')"
    then obtain x h' where m: "make_continuation (ty_ex G) call mv n i fn unwrap (cl_heap cl) = Some (x, h')"
      by (auto simp: replacing_future_def future_then_def check_valid_def Some split: option.splits)
    with mk obtain \<Gamma>' where g: "\<Gamma> \<subseteq>\<^sub>m \<Gamma>'" "heap_ok G \<Gamma>' h'" "case x of Inl e \<Rightarrow> no_ub e | Inr out \<Rightarrow> \<Gamma>' out = Some R"
      by (auto simp: good_def)
    have "list_all2 (ptr_ok \<Gamma>') ((cl_futures cl)[j := None]) (st_futures te)" "list_all2 (ptr_ok \<Gamma>') (cl_promises cl) (st_promises te)"
      "list_all2 (val_ok G \<Gamma>') (cl_values cl) (st_values te)"
      using assms(1) g(1) by (auto simp: client_ok_def intro: handles_mono handles_update)
    with run m g(2,3) show "\<exists>\<Gamma>. heap_ok G \<Gamma> (cl_heap cl') \<and>
        (case r of Inl e \<Rightarrow> no_ub e | Inr _ \<Rightarrow> client_ok G \<Gamma> (te\<lparr>st_futures := st_futures te @ [R]\<rparr>) cl')"
      by (intro exI [of _ \<Gamma>'])
        (auto simp: replacing_future_def future_then_def check_valid_def Some client_ok_def ptr_ok_def list_all2_appendI split: sum.splits)
  qed
qed

lemma future_get_ok:
  assumes "client_ok G \<Gamma> te cl" "j < length (st_futures te)" "moves_ok G mv"
  shows "step_ok G (te\<lparr>st_values := st_values te @ [st_futures te ! j]\<rparr>) (client_op_run (ty_ex G) call mv n (Get j) cl)"
proof (cases "cl_futures cl ! j")
  case None
  with assms(1) show ?thesis by (auto simp: step_ok_def future_get_def check_valid_def client_ok_def)
next
  case (Some i)
  have h: "heap_ok G \<Gamma> (cl_heap cl)" and i: "\<Gamma> i = Some (st_futures te ! j)"
    using assms(1) handles_nth [of \<Gamma> "cl_futures cl" "st_futures te", OF _ assms(2)] Some by (simp_all add: client_ok_def ptr_ok_def)
  note get = state_get_good [OF h i assms(3)]
  show ?thesis
    unfolding step_ok_def
  proof (intro allI impI)
    fix r cl' assume run: "client_op_run (ty_ex G) call mv n (Get j) cl = Some (r, cl')"
    then obtain x h' where m: "state_get (ty_ex G) mv i (cl_heap cl) = Some (x, h')"
      by (auto simp: future_get_def check_valid_def Some)
    with get obtain \<Gamma>' where g: "\<Gamma> \<subseteq>\<^sub>m \<Gamma>'" "heap_ok G \<Gamma>' h'" "case x of Inl e \<Rightarrow> no_ub e | Inr v \<Rightarrow> val_ok G \<Gamma>' v (st_futures te ! j)"
      by (auto simp: good_def)
    have "list_all2 (ptr_ok \<Gamma>') ((cl_futures cl)[j := None]) (st_futures te)" "list_all2 (ptr_ok \<Gamma>') (cl_promises cl) (st_promises te)"
      "list_all2 (val_ok G \<Gamma>') (cl_values cl) (st_values te)"
      using assms(1) g(1) by (auto simp: client_ok_def intro: handles_mono handles_update)
    with run m g(2,3) show "\<exists>\<Gamma>. heap_ok G \<Gamma> (cl_heap cl') \<and>
        (case r of Inl e \<Rightarrow> no_ub e | Inr _ \<Rightarrow> client_ok G \<Gamma> (te\<lparr>st_values := st_values te @ [st_futures te ! j]\<rparr>) cl')"
      by (intro exI [of _ \<Gamma>'])
        (auto simp: future_get_def check_valid_def Some client_ok_def list_all2_appendI split: sum.splits)
  qed
qed

lemma promise_new_ok:
  assumes "client_ok G \<Gamma> te cl"
  shows "step_ok G (te\<lparr>st_promises := st_promises te @ [T]\<rparr>) (client_op_run he call mv n (NewPromise T cb) cl)"
proof -
  obtain j h' where a: "fh_alloc (shared_state_new cb) (cl_heap cl) = (j, h')" by (cases "fh_alloc (shared_state_new cb) (cl_heap cl)")
  have "heap_ok G \<Gamma> (cl_heap cl)" using assms by (simp add: client_ok_def)
  from heap_ok_alloc [OF this a, of T] have g: "\<Gamma> \<subseteq>\<^sub>m \<Gamma>(j \<mapsto> T)" "heap_ok G (\<Gamma>(j \<mapsto> T)) h'" by simp_all
  have "list_all2 (ptr_ok (\<Gamma>(j \<mapsto> T))) (cl_promises cl) (st_promises te)"
    "list_all2 (ptr_ok (\<Gamma>(j \<mapsto> T))) (cl_futures cl) (st_futures te)" "list_all2 (val_ok G (\<Gamma>(j \<mapsto> T))) (cl_values cl) (st_values te)"
    using assms handles_mono [OF _ g(1)] by (auto simp: client_ok_def)
  with g(2) show ?thesis
    by (auto simp: step_ok_def promise_new_def a client_ok_def ptr_ok_def intro!: exI [of _ "\<Gamma>(j \<mapsto> T)"] list_all2_appendI)
qed

lemma get_future_ok:
  assumes "client_ok G \<Gamma> te cl" "i < length (st_promises te)"
  shows "step_ok G (te\<lparr>st_futures := st_futures te @ [st_promises te ! i]\<rparr>) (client_op_run (ty_ex G) call mv n (GetFuture i) cl)"
proof -
  obtain r h' where m: "promise_get_future (ty_ex G) (cl_promises cl ! i) (cl_heap cl) = (r, h')" by fastforce
  have "heap_ok G \<Gamma> (cl_heap cl)" "ptr_ok \<Gamma> (cl_promises cl ! i) (st_promises te ! i)"
    using assms by (auto simp: client_ok_def intro: handles_nth)
  from promise_get_future_good [OF this m] assms(1) show ?thesis
    by (auto simp: step_ok_def m client_ok_def intro!: exI [of _ \<Gamma>] list_all2_appendI split: sum.splits)
qed

lemma client_step_ok:
  assumes "calls_ok G call" "moves_ok G mv" "client_ok G \<Gamma> te cl" "check_op G op te = Some te'"
  shows "step_ok G te' (client_op_run (ty_ex G) call mv n op cl)"
proof -
  have h: "heap_ok G \<Gamma> (cl_heap cl)" and ps: "list_all2 (ptr_ok \<Gamma>) (cl_promises cl) (st_promises te)"
    and fs: "list_all2 (ptr_ok \<Gamma>) (cl_futures cl) (st_futures te)" using assms(3) by (simp_all add: client_ok_def)
  note set = promise_satisfy_good [OF h handles_nth [OF ps] assms(1,2)]
  show ?thesis
  proof (cases op)
    case (NewPromise T cb)
    with assms(3,4) show ?thesis by (auto intro: promise_new_ok simp del: client_op_run.simps)
  next
    case (GetFuture i)
    with assms(3,4) show ?thesis by (auto intro!: get_future_ok simp del: client_op_run.simps split: if_splits)
  next
    case (SetValue i x)
    with assms(4) have i: "i < length (st_promises te)" "val_ok G Map.empty (Plain x) (st_promises te ! i)" "te' = te"
      by (auto split: if_splits)
    then have "val_ok G \<Gamma> (Plain x) (st_promises te ! i)" by (auto intro: val_ok_mono)
    with set(1) [OF i(1)] i SetValue assms(3) show ?thesis by (auto intro: on_heap_ok)
  next
    case (SetFuture i j)
    with assms(4) have i: "i < length (st_promises te)" "j < length (st_futures te)" "st_promises te ! i = T_future (st_futures te ! j)" "te' = te"
      by (auto split: if_splits)
    then have "val_ok G \<Gamma> (FutureVal (cl_futures cl ! j)) (st_promises te ! i)" using handles_nth [OF fs i(2)] by (simp add: val_ok_def)
    moreover have "client_ok G \<Gamma> te (cl\<lparr>cl_futures := (cl_futures cl)[j := None]\<rparr>)"
      using assms(3) handles_update [OF fs] by (simp add: client_ok_def)
    ultimately show ?thesis using set(1) [OF i(1)] i(4) SetFuture by (auto intro: on_heap_ok)
  next
    case (SetException i ex)
    with assms(3,4) set(2) show ?thesis by (auto intro!: on_heap_ok split: if_splits)
  next
    case (Then j f unwrap)
    with assms(4) obtain hp where hp: "j < length (st_futures te)" "then_helper (ty_functor G f) (st_futures te ! j) = Some hp"
      "unwrap = requires_unwrap_t hp" "te' = te\<lparr>st_futures := st_futures te @ [result_t hp]\<rparr>"
      by (auto split: if_splits option.splits)
    then have "functor_result G (UserFunctor f) (st_futures te ! j) = Some (if unwrap then T_future (result_t hp) else result_t hp)"
      using then_helper_cases [OF hp(2)] by (auto simp: functor_result_def)
    from future_then_ok [OF assms(3) hp(1) assms(1,2) this] Then hp(4) show ?thesis by simp
  next
    case (Unwrap j)
    with assms(4) obtain U where U: "j < length (st_futures te)" "st_futures te ! j = T_future U" "te' = te\<lparr>st_futures := st_futures te @ [U]\<rparr>"
      by (auto split: if_splits cpp_type.splits)
    have "functor_result G GetFunctor (st_futures te ! j) = Some (if True then T_future U else U)" using U by (simp add: functor_result_def)
    from future_then_ok [OF assms(3) U(1) assms(1,2) this] Unwrap U(3) show ?thesis by (simp add: future_unwrap_def)
  next
    case (Get j)
    with assms(2-4) show ?thesis by (auto intro!: future_get_ok simp del: client_op_run.simps split: if_splits)
  next
    case (DestroyPromise i)
    moreover have "client_ok G \<Gamma> te (cl\<lparr>cl_promises := (cl_promises cl)[i := None]\<rparr>)"
      using assms(3) handles_update [OF ps] by (simp add: client_ok_def)
    ultimately show ?thesis using assms(4) set(3) by (auto intro!: on_heap_ok split: if_splits)
  qed
qed

lemma client_run_ok:
  assumes "calls_ok G call" "moves_ok G mv" "client_ok G \<Gamma> te cl" "check_program G ops te = Some te'"
  shows "step_ok G te' (client_run (ty_ex G) call mv n ops cl)"
  using assms(3,4)
proof (induction ops arbitrary: \<Gamma> te cl)
  case Nil
  then show ?case by (auto simp: step_ok_def client_ok_def)
next
  case (Cons op ops)
  from Cons.prems(2) obtain te1 where te1: "check_op G op te = Some te1" "check_program G ops te1 = Some te'"
    by (auto split: option.splits)
  note op_ok = client_step_ok [OF assms(1,2) Cons.prems(1) te1(1), of n]
  show ?case
  proof (cases "client_op_run (ty_ex G) call mv n op cl")
    case (Some p)
    obtain r cl1 where p: "p = (r, cl1)" by (cases p)
    with op_ok Some obtain \<Gamma>1 where "heap_ok G \<Gamma>1 (cl_heap cl1)" "case r of Inl e \<Rightarrow> no_ub e | Inr _ \<Rightarrow> client_ok G \<Gamma>1 te1 cl1"
      by (auto simp: step_ok_def)
    with Cons.IH [OF _ te1(2)] show ?thesis by (cases r) (auto simp: Some p step_ok_def)
  qed (simp add: step_ok_def)
qed

lemma client_new_ok: "client_ok G Map.empty no_types client_new"
  by (simp add: client_ok_def heap_ok_def client_new_def no_types_def)

text \<open>Functors that call \<^verbatim>\<open>get()\<close> on their argument and map the result according to their type are well behaved.\<close>

lemma getting_ok:
  assumes "ty_ex G" "moves_ok G mv"
    "\<And>f T R \<Gamma> r. invoke_result (ty_functor G f) [T_future T] = Some R \<Longrightarrow> (case r of Inl e \<Rightarrow> no_ub e | Inr v \<Rightarrow> val_ok G \<Gamma> v T) \<Longrightarrow>
       (case g f r of Inl e \<Rightarrow> no_ub e | Inr v \<Rightarrow> val_ok G \<Gamma> v R)"
  shows "calls_ok G (getting mv g)"
  unfolding calls_ok_def
proof (intro allI impI, elim conjE)
  fix \<Gamma> f i T R and h :: "('a, 'b, 'c) fheap"
  assume h: "heap_ok G \<Gamma> h" "\<Gamma> i = Some T" "ready_at i h" and R: "invoke_result (ty_functor G f) [T_future T] = Some R"
  from h(3) have "state_get True mv i h \<noteq> None"
    by (auto simp: ready_at_def state_get_def get_section_def is_ready_unlocked_def split: option.splits future_state.splits sum.splits)
  then obtain r h1 where get: "state_get True mv i h = Some (r, h1)" by force
  from state_get_good [OF h(1,2) assms(2)] obtain \<Gamma>' where
    g: "\<Gamma> \<subseteq>\<^sub>m \<Gamma>'" "heap_ok G \<Gamma>' h1" "ready_kept h h1" "case r of Inl e \<Rightarrow> no_ub e | Inr v \<Rightarrow> val_ok G \<Gamma>' v T"
    using get assms(1) by (auto simp: good_def)
  from assms(3) [OF R g(4)] g(1-3) show "good G \<Gamma> h (Some (getting mv g f i h)) (\<lambda>\<Gamma>' v. val_ok G \<Gamma>' v R)"
    by (auto simp: good_def getting_def get)
qed

section \<open>Properties\<close>

text \<open>
  C3: type soundness of the interface. A client program that the type rules accept, with functors that
  respect their types, never runs into undefined behaviour, whichever operations throw or leave
  continuations waiting; as long as it does not end by an exception, the store of shared states
  conforms to a typing under which every value that \<^verbatim>\<open>get()\<close> returned has its static type, where
  \<^verbatim>\<open>then\<close> yields the type computed by \<^verbatim>\<open>then_helper\<close>, in which one level of \<^verbatim>\<open>future\<close> is unwrapped.
\<close>

theorem well_typed_clients_are_safe:
  assumes "calls_ok G call" "moves_ok G mv" "check_program G ops no_types = Some te"
    "client_run (ty_ex G) call mv n ops client_new = Some (r, cl)"
  shows "(\<forall>u. r \<noteq> Inl (UB u)) \<and>
     (r = Inr () \<longrightarrow> (\<exists>\<Gamma>. heap_ok G \<Gamma> (cl_heap cl) \<and> list_all2 (val_ok G \<Gamma>) (cl_values cl) (st_values te)))"
  using client_run_ok [OF assms(1,2) client_new_ok assms(3), of n] assms(4)
  by (auto simp: step_ok_def client_ok_def split: sum.splits)

definition example_typing :: "(nat, nat) typing" where
  "example_typing = \<lparr>ty_ex = True, ty_val = (\<lambda>x T. T = T_object 0),
     ty_functor = (\<lambda>f. Callable (\<lambda>args. if args = [T_future (T_object 0)] then Some (T_object 0) else None))\<rparr>"

definition example_program :: "(nat, nat, unit) client_op list" where
  "example_program = [NewPromise (T_object 0) None, GetFuture 0, Then 0 2 False, NewPromise (T_future (T_object 0)) None,
     SetFuture 1 1, GetFuture 1, Unwrap 2, SetValue 0 10, Get 3]"

lemma example_typing_ok:
  "moves_ok example_typing id" "calls_ok example_typing (getting id example_functor :: (nat, nat, unit) functor_call)"
proof -
  show m: "moves_ok example_typing id" by (simp add: moves_ok_def)
  show "calls_ok example_typing (getting id example_functor :: (nat, nat, unit) functor_call)"
    by (rule getting_ok [OF _ m])
      (auto simp: example_typing_def example_functor_def val_ok_def split: if_splits sum.splits fval.splits)
qed

lemma example_program_runs:
  "map_option (\<lambda>(r, cl). (r, cl_values cl)) (client_run True (getting id example_functor) id 4 example_program client_new)
   = Some (Inr (), [Plain 12])"
  by code_simp

theorem well_typed_clients_are_safe_witness:
  "\<exists>te cl \<Gamma>. check_program example_typing example_program no_types = Some te \<and>
     client_run True (getting id example_functor) id 4 example_program client_new = Some (Inr (), cl) \<and>
     heap_ok example_typing \<Gamma> (cl_heap cl) \<and> list_all2 (val_ok example_typing \<Gamma>) (cl_values cl) [T_object 0]"
proof -
  obtain te where te: "check_program example_typing example_program no_types = Some te" "st_values te = [T_object 0]"
    by (simp add: example_program_def example_typing_def no_types_def then_helper_def val_ok_def)
  obtain cl where run: "client_run True (getting id example_functor) id 4 example_program client_new = Some (Inr (), cl)"
    using example_program_runs by auto
  have "ty_ex example_typing" by (simp add: example_typing_def)
  with run have "client_run (ty_ex example_typing) (getting id example_functor) id 4 example_program client_new = Some (Inr (), cl)"
    by simp
  from well_typed_clients_are_safe [OF example_typing_ok(2,1) te(1) this] te run show ?thesis by auto
qed

end
