(* ===== verification/Log_Race.thy ===== *)
theory Log_Race
  imports Log "HOL-Library.Sublist"
begin

text \<open>
  The log sink shared by threads (\<^verbatim>\<open>log.h\<close>, \<^verbatim>\<open>log.cc\<close>). Changing the sink is one critical section.
  \<^verbatim>\<open>LogSink::Log\<close> copies the map of backends in a critical section and calls the backends of the copy
  one after the other without a lock, so changes and other calls happen in between, made by other threads or by
  the backends themselves. Whether \<^verbatim>\<open>Log\<close> is called at all is decided by flags that are read without
  a lock and with relaxed memory order; since such a read may return an older value, a call can
  start at any time here.
\<close>

section \<open>Threads and the system\<close>

datatype 'b sink_op =
    OpAdd 'b
  | OpRemove int
  | OpClear
  | OpEnable
  | OpDisable
  | OpMinimum Severity

fun sink_op_run :: "'b sink_op \<Rightarrow> 'b LogSink \<Rightarrow> fault + 'b LogSink" where
  "sink_op_run (OpAdd b) s = bindR (AddBackend (UserBackend b) s) (\<lambda>(ident, s'). Inr s')"
| "sink_op_run (OpRemove ident) s = Inr (RemoveBackend ident s)"
| "sink_op_run OpClear s = Inr (ClearBackends s)"
| "sink_op_run OpEnable s = EnableStdClogImpl s"
| "sink_op_run OpDisable s = Inr (DisableStdClogImpl s)"
| "sink_op_run (OpMinimum sev) s = Inr (set_minimum_severity sev s)"

text \<open>A call of \<^verbatim>\<open>Log\<close>: before the copy; with the rest of the copy still to be called; done; left by an exception.\<close>

datatype 'b log_call =
    Logging LogRecord
  | Delivering LogRecord bool "(int, 'b LogBackend) smap"
  | Logged
  | Escaped

definition log_copy_section :: "LogRecord \<Rightarrow> 'b LogSink \<Rightarrow> 'b log_call" where
  "log_copy_section r s =
     (let copy = ls_backends s in if copy = [] then Logged else Delivering r (length copy = 1) copy)"

definition log_deliver :: "bool \<Rightarrow> LogRecord \<Rightarrow> backend_call" where
  "log_deliver owned r = (if owned then ProcessWithOwnership r else Process r)"

text \<open>The critical sections in the order of the lock, and the calls that backends have received from each \<^verbatim>\<open>Log\<close>.\<close>

datatype 'b log_section = Changed "'b sink_op" | Copied nat LogRecord

type_synonym 'b delivery = "int \<times> 'b LogBackend \<times> backend_call"

record 'b log_system =
  lsys_sink :: "'b LogSink"
  lsys_calls :: "'b log_call list"
  lsys_sections :: "'b log_section list"
  lsys_received :: "(nat \<times> 'b delivery) list"

definition log_system_init :: "'b log_system" where
  "log_system_init = \<lparr>lsys_sink = LogSink_new, lsys_calls = [], lsys_sections = [], lsys_received = []\<rparr>"

inductive log_step :: "'b log_system \<Rightarrow> 'b log_system \<Rightarrow> bool" where
  change: "sink_op_run op (lsys_sink S) = Inr s' \<Longrightarrow>
    log_step S (S\<lparr>lsys_sink := s', lsys_sections := lsys_sections S @ [Changed op]\<rparr>)"
| log_start: "log_step S (S\<lparr>lsys_calls := lsys_calls S @ [Logging r]\<rparr>)"
| copy: "i < length (lsys_calls S) \<Longrightarrow> lsys_calls S ! i = Logging r \<Longrightarrow>
    log_step S (S\<lparr>lsys_calls := (lsys_calls S)[i := log_copy_section r (lsys_sink S)],
      lsys_sections := lsys_sections S @ [Copied i r]\<rparr>)"
| process: "i < length (lsys_calls S) \<Longrightarrow> lsys_calls S ! i = Delivering r owned ((k, b) # kvs) \<Longrightarrow>
    log_step S (S\<lparr>lsys_calls := (lsys_calls S)[i := if kvs = [] then Logged else Delivering r owned kvs],
      lsys_received := lsys_received S @ [(i, k, b, log_deliver owned r)]\<rparr>)"
| process_throws: "i < length (lsys_calls S) \<Longrightarrow> lsys_calls S ! i = Delivering r owned ((k, b) # kvs) \<Longrightarrow>
    log_step S (S\<lparr>lsys_calls := (lsys_calls S)[i := Escaped],
      lsys_received := lsys_received S @ [(i, k, b, log_deliver owned r)]\<rparr>)"

inductive_cases log_stepE: "log_step S S'"

section \<open>The sequential specification\<close>

text \<open>What one \<^verbatim>\<open>Log\<close> sends, as a function of the backends, and the calls it makes in the sequential model.\<close>

definition log_deliveries :: "(int, 'b LogBackend) smap \<Rightarrow> LogRecord \<Rightarrow> 'b delivery list" where
  "log_deliveries copy r = map (\<lambda>(k, b). (k, b, log_deliver (length copy = 1) r)) copy"

fun run_deliveries ::
  "('b, 'w) user_backend \<Rightarrow> 'b delivery list \<Rightarrow> ('b, 'w) log_world \<Rightarrow> fault + ('b, 'w) log_world" where
  "run_deliveries user [] w = Inr w"
| "run_deliveries user ((k, b, call) # ds) w = bindR (call_backend user b call w) (run_deliveries user ds)"

lemma process_all_deliveries: "process_all user r kvs w = run_deliveries user (map (\<lambda>(k, b). (k, b, Process r)) kvs) w"
proof (induction kvs arbitrary: w)
  case (Cons kv kvs)
  then have "process_all user r kvs = run_deliveries user (map (\<lambda>(k, b). (k, b, Process r)) kvs)" by blast
  then show ?case by (cases kv) simp
qed simp

text \<open>\<^const>\<open>LogSink_Log\<close> makes these calls and no others.\<close>

lemma LogSink_Log_deliveries: "LogSink_Log user r w = run_deliveries user (log_deliveries (ls_backends (fst w)) r) w"
proof -
  consider "ls_backends (fst w) = []" | k b where "ls_backends (fst w) = [(k, b)]" | "length (ls_backends (fst w)) > 1"
    by (cases "ls_backends (fst w)"; cases "tl (ls_backends (fst w))") auto
  then show ?thesis
  proof cases
    case 3
    then have "ls_backends (fst w) \<noteq> []" "length (ls_backends (fst w)) \<noteq> 1" by auto
    then show ?thesis
      by (simp add: LogSink_Log_def log_deliveries_def log_deliver_def process_all_deliveries del: One_nat_def)
  qed (simp_all add: LogSink_Log_def log_deliveries_def log_deliver_def bindR_def split: sum.splits)
qed

text \<open>The sections, one after the other.\<close>

fun replay :: "'b log_section list \<Rightarrow> 'b LogSink \<Rightarrow> fault + 'b LogSink" where
  "replay [] s = Inr s"
| "replay (Changed op # xs) s = bindR (sink_op_run op s) (replay xs)"
| "replay (Copied i r # xs) s = replay xs s"

lemma replay_append: "replay (xs @ ys) s = bindR (replay xs s) (replay ys)"
proof (induction xs arbitrary: s)
  case (Cons x xs)
  then show ?case by (cases x) (auto simp: bindR_def split: sum.splits)
qed simp

lemma replay_prefix: "replay (xs @ ys) s = Inr s' \<Longrightarrow> \<exists>s1. replay xs s = Inr s1"
  by (auto simp: replay_append bindR_def split: sum.splits)

lemma sink_op_run_step: "sink_op_run op s = Inr s' \<Longrightarrow> sink_step s s'"
  by (cases op) (auto intro: sink_step.intros)

section \<open>Invariant\<close>

definition received_from :: "nat \<Rightarrow> 'b log_system \<Rightarrow> 'b delivery list" where
  "received_from i S = map snd (filter (\<lambda>x. fst x = i) (lsys_received S))"

definition copied_by :: "nat \<Rightarrow> 'b log_system \<Rightarrow> 'b log_section list" where
  "copied_by i S = filter (\<lambda>x. \<exists>r. x = Copied i r) (lsys_sections S)"

text \<open>Call \<open>i\<close> took effect at one point of the sequence of sections; these are the backends of that point.\<close>

definition took_effect :: "nat \<Rightarrow> LogRecord \<Rightarrow> (int, 'b LogBackend) smap \<Rightarrow> 'b log_system \<Rightarrow> bool" where
  "took_effect i r copy S \<longleftrightarrow>
     copied_by i S = [Copied i r] \<and>
     (\<exists>pre post s. lsys_sections S = pre @ Copied i r # post \<and> replay pre LogSink_new = Inr s \<and> ls_backends s = copy)"

definition log_call_ok :: "nat \<Rightarrow> 'b log_system \<Rightarrow> bool" where
  "log_call_ok i S \<longleftrightarrow>
     (if i < length (lsys_calls S) then
        (case lsys_calls S ! i of
           Logging r \<Rightarrow> received_from i S = [] \<and> copied_by i S = []
         | Delivering r owned kvs \<Rightarrow> kvs \<noteq> [] \<and>
             (\<exists>copy. took_effect i r copy S \<and> owned = (length copy = 1) \<and>
               log_deliveries copy r = received_from i S @ map (\<lambda>(k, b). (k, b, log_deliver owned r)) kvs)
         | Logged \<Rightarrow> (\<exists>r copy. took_effect i r copy S \<and> received_from i S = log_deliveries copy r)
         | Escaped \<Rightarrow> (\<exists>r copy. took_effect i r copy S \<and> prefix (received_from i S) (log_deliveries copy r)))
      else received_from i S = [] \<and> copied_by i S = [])"

lemma log_call_ok_intros:
  assumes "i < length (lsys_calls S)" "took_effect i r copy S"
  shows "lsys_calls S ! i = Logged \<Longrightarrow> received_from i S = log_deliveries copy r \<Longrightarrow> log_call_ok i S"
    "lsys_calls S ! i = Escaped \<Longrightarrow> prefix (received_from i S) (log_deliveries copy r) \<Longrightarrow> log_call_ok i S"
    "lsys_calls S ! i = Delivering r owned kvs \<Longrightarrow> kvs \<noteq> [] \<Longrightarrow> owned = (length copy = 1) \<Longrightarrow>
       log_deliveries copy r = received_from i S @ map (\<lambda>(k, b). (k, b, log_deliver owned r)) kvs \<Longrightarrow> log_call_ok i S"
  using assms by (auto simp: log_call_ok_def)

definition log_inv :: "'b log_system \<Rightarrow> bool" where
  "log_inv S \<longleftrightarrow> replay (lsys_sections S) LogSink_new = Inr (lsys_sink S) \<and> LogSink_inv (lsys_sink S) \<and> (\<forall>i. log_call_ok i S)"

text \<open>A later section of another thread, and a delivery of another call, change nothing for call \<open>i\<close>.\<close>

lemma took_effect_mono:
  assumes "took_effect i r copy S" "lsys_sections S' = lsys_sections S @ xs" "\<forall>x \<in> set xs. \<forall>r. x \<noteq> Copied i r"
  shows "took_effect i r copy S'"
  using assms unfolding took_effect_def copied_by_def by (force simp: filter_empty_conv)

lemma log_call_ok_frame:
  assumes "log_call_ok i S" "lsys_sections S' = lsys_sections S @ xs" "\<forall>x \<in> set xs. \<forall>r. x \<noteq> Copied i r"
    "received_from i S' = received_from i S"
    "i < length (lsys_calls S') \<longleftrightarrow> i < length (lsys_calls S)" "i < length (lsys_calls S) \<Longrightarrow> lsys_calls S' ! i = lsys_calls S ! i"
  shows "log_call_ok i S'"
proof -
  have "copied_by i S' = copied_by i S" using assms(2,3) by (auto simp: copied_by_def filter_empty_conv)
  with assms(1,4-) took_effect_mono [OF _ assms(2,3)] show ?thesis
    unfolding log_call_ok_def by (auto split: log_call.splits) blast+
qed

lemma received_from_snoc:
  "lsys_received S' = lsys_received S @ [(j, d)] \<Longrightarrow>
     received_from i S' = (if i = j then received_from i S @ [d] else received_from i S)"
  by (simp add: received_from_def)

lemma took_effect_sections: "lsys_sections S' = lsys_sections S \<Longrightarrow> took_effect i r copy S' \<longleftrightarrow> took_effect i r copy S"
  by (simp add: took_effect_def copied_by_def)

lemma log_inv_change:
  assumes "log_inv S" "sink_op_run op (lsys_sink S) = Inr s'"
  shows "log_inv (S\<lparr>lsys_sink := s', lsys_sections := lsys_sections S @ [Changed op]\<rparr>)"
proof -
  have "LogSink_inv s'" using sink_step_inv [OF sink_op_run_step [OF assms(2)]] assms(1) by (simp add: log_inv_def)
  moreover have "log_call_ok i (S\<lparr>lsys_sink := s', lsys_sections := lsys_sections S @ [Changed op]\<rparr>)" for i
    by (rule log_call_ok_frame [of i S _ "[Changed op]"]) (use assms(1) in \<open>auto simp: log_inv_def received_from_def\<close>)
  ultimately show ?thesis using assms by (simp add: log_inv_def replay_append)
qed

lemma log_inv_start:
  assumes "log_inv S"
  shows "log_inv (S\<lparr>lsys_calls := lsys_calls S @ [Logging r]\<rparr>)"
proof -
  let ?S = "S\<lparr>lsys_calls := lsys_calls S @ [Logging r]\<rparr>"
  have "log_call_ok i ?S" for i
  proof (cases "i = length (lsys_calls S)")
    case True
    from assms have "log_call_ok i S" by (simp add: log_inv_def)
    with True show ?thesis by (simp add: log_call_ok_def received_from_def copied_by_def)
  next
    case False
    then show ?thesis
      by (intro log_call_ok_frame [of i S ?S "[]"]) (use assms in \<open>auto simp: log_inv_def received_from_def nth_append\<close>)
  qed
  with assms show ?thesis by (simp add: log_inv_def)
qed

lemma log_inv_copy:
  assumes "log_inv S" "i < length (lsys_calls S)" "lsys_calls S ! i = Logging r"
  shows "log_inv (S\<lparr>lsys_calls := (lsys_calls S)[i := log_copy_section r (lsys_sink S)],
      lsys_sections := lsys_sections S @ [Copied i r]\<rparr>)"
proof -
  let ?S = "S\<lparr>lsys_calls := (lsys_calls S)[i := log_copy_section r (lsys_sink S)],
      lsys_sections := lsys_sections S @ [Copied i r]\<rparr>"
  have rep: "replay (lsys_sections S) LogSink_new = Inr (lsys_sink S)" and "log_call_ok i S" using assms(1) by (simp_all add: log_inv_def)
  with assms(2,3) have none: "received_from i S = []" "copied_by i S = []" by (simp_all add: log_call_ok_def)
  then have eff: "took_effect i r (ls_backends (lsys_sink S)) ?S" "received_from i ?S = []"
    using rep by (auto simp: took_effect_def copied_by_def received_from_def)
  have "log_call_ok i ?S"
    using eff assms(2) by (auto simp: log_call_ok_def log_copy_section_def log_deliveries_def Let_def)
  moreover have "log_call_ok j ?S" if "j \<noteq> i" for j
    by (rule log_call_ok_frame [of j S _ "[Copied i r]"]) (use assms(1) that in \<open>auto simp: log_inv_def received_from_def\<close>)
  ultimately have "log_call_ok j ?S" for j by (cases "j = i") simp_all
  with assms(1) rep show ?thesis by (simp add: log_inv_def replay_append)
qed

lemma log_inv_process:
  assumes "log_inv S" "i < length (lsys_calls S)" "lsys_calls S ! i = Delivering r owned ((k, b) # kvs)"
    "c = Escaped \<or> c = (if kvs = [] then Logged else Delivering r owned kvs)"
  shows "log_inv (S\<lparr>lsys_calls := (lsys_calls S)[i := c], lsys_received := lsys_received S @ [(i, k, b, log_deliver owned r)]\<rparr>)"
proof -
  let ?S = "S\<lparr>lsys_calls := (lsys_calls S)[i := c], lsys_received := lsys_received S @ [(i, k, b, log_deliver owned r)]\<rparr>"
  have rec: "received_from j ?S = (if j = i then received_from i S @ [(k, b, log_deliver owned r)] else received_from j S)" for j
    using received_from_snoc [of ?S S i "(k, b, log_deliver owned r)" j] by simp
  have "log_call_ok i S" using assms(1) by (simp add: log_inv_def)
  with assms(2,3) obtain copy where copy: "took_effect i r copy S" "owned = (length copy = 1)"
    "log_deliveries copy r = received_from i S @ (k, b, log_deliver owned r) # map (\<lambda>(k, b). (k, b, log_deliver owned r)) kvs"
    unfolding log_call_ok_def by simp blast
  have eff: "took_effect i r copy ?S" using copy(1) took_effect_sections [of ?S S] by simp
  have "log_call_ok i ?S"
  proof (cases "c = Escaped")
    case True
    have "prefix (received_from i ?S) (log_deliveries copy r)" unfolding rec copy(3) by simp
    then show ?thesis by (intro log_call_ok_intros(2) [OF _ eff]) (use True assms(2) in simp_all)
  next
    case False
    with assms(4) have "c = (if kvs = [] then Logged else Delivering r owned kvs)" by blast
    moreover have "log_deliveries copy r = received_from i ?S @ map (\<lambda>(k, b). (k, b, log_deliver owned r)) kvs"
      unfolding rec copy(3) by simp
    ultimately show ?thesis
      using log_call_ok_intros(1,3) [OF _ eff] copy(2) assms(2) by (cases "kvs = []") simp_all
  qed
  moreover have "log_call_ok j ?S" if "j \<noteq> i" for j
    by (rule log_call_ok_frame [of j S _ "[]"]) (use assms(1) that rec in \<open>auto simp: log_inv_def\<close>)
  ultimately have "log_call_ok j ?S" for j by (cases "j = i") simp_all
  with assms(1) show ?thesis by (simp add: log_inv_def)
qed

lemma log_step_inv: "log_step S S' \<Longrightarrow> log_inv S \<Longrightarrow> log_inv S'"
proof (induction rule: log_step.induct)
  case (change op S s')
  then show ?case by (intro log_inv_change)
next
  case (log_start S r)
  then show ?case by (intro log_inv_start)
next
  case (copy i S r)
  then show ?case by (intro log_inv_copy)
next
  case (process i S r owned k b kvs)
  from log_inv_process [OF process(3,1,2)] show ?case by blast
next
  case (process_throws i S r owned k b kvs)
  from log_inv_process [OF process_throws(3,1,2)] show ?case by blast
qed

lemma log_inv_init: "log_inv log_system_init"
  by (simp add: log_inv_def log_system_init_def LogSink_new_inv log_call_ok_def received_from_def copied_by_def)

lemma log_reachable_inv: "log_step\<^sup>*\<^sup>* log_system_init S \<Longrightarrow> log_inv S"
  by (induction rule: rtranclp_induct) (auto intro: log_inv_init log_step_inv)

section \<open>Progress\<close>

fun finished :: "'b log_call \<Rightarrow> bool" where
  "finished Logged = True"
| "finished Escaped = True"
| "finished _ = False"

text \<open>The steps a call still has to make if nothing else happens.\<close>

fun call_weight :: "'b LogSink \<Rightarrow> 'b log_call \<Rightarrow> nat" where
  "call_weight s (Logging r) = Suc (length (ls_backends s))"
| "call_weight s (Delivering r owned kvs) = length kvs"
| "call_weight s _ = 0"

definition log_weight :: "'b log_system \<Rightarrow> nat" where
  "log_weight S = sum_list (map (call_weight (lsys_sink S)) (lsys_calls S))"

lemma log_weight_update:
  assumes "i < length cs" "call_weight s c < call_weight s (cs ! i)"
  shows "sum_list (map (call_weight s) (cs[i := c])) < sum_list (map (call_weight s) cs)"
  using assms by (induction cs arbitrary: i) (auto split: nat.splits simp: less_Suc_eq_0_disj)

lemma log_progress:
  assumes "log_inv S" "i < length (lsys_calls S)" "\<not> finished (lsys_calls S ! i)"
  shows "\<exists>S'. log_step S S' \<and> lsys_sink S' = lsys_sink S \<and> length (lsys_calls S') = length (lsys_calls S) \<and> log_weight S' < log_weight S"
proof (cases "lsys_calls S ! i")
  case (Logging r)
  have "call_weight (lsys_sink S) (log_copy_section r (lsys_sink S)) < call_weight (lsys_sink S) (lsys_calls S ! i)"
    by (simp add: Logging log_copy_section_def Let_def)
  from log_weight_update [OF assms(2) this] have "log_weight (S\<lparr>lsys_calls := (lsys_calls S)[i := log_copy_section r (lsys_sink S)],
      lsys_sections := lsys_sections S @ [Copied i r]\<rparr>) < log_weight S" by (simp add: log_weight_def)
  with log_step.copy [OF assms(2) Logging] show ?thesis by force
next
  case (Delivering r owned kvs)
  with assms(1,2) have "kvs \<noteq> []" by (auto simp: log_inv_def log_call_ok_def dest: spec [of _ i])
  then obtain k b kvs' where kvs: "kvs = (k, b) # kvs'" by (cases kvs) auto
  have "call_weight (lsys_sink S) (if kvs' = [] then Logged else Delivering r owned kvs') < call_weight (lsys_sink S) (lsys_calls S ! i)"
    by (simp add: Delivering kvs)
  from log_weight_update [OF assms(2) this] have "log_weight (S\<lparr>lsys_calls := (lsys_calls S)[i := if kvs' = [] then Logged else Delivering r owned kvs'],
      lsys_received := lsys_received S @ [(i, k, b, log_deliver owned r)]\<rparr>) < log_weight S" by (simp add: log_weight_def)
  with log_step.process [OF assms(2) Delivering [unfolded kvs]] show ?thesis by force
qed (use assms(3) in auto)

lemma log_can_finish:
  assumes "log_inv S"
  shows "\<exists>S'. log_step\<^sup>*\<^sup>* S S' \<and> lsys_sink S' = lsys_sink S \<and> length (lsys_calls S') = length (lsys_calls S) \<and>
     (\<forall>c \<in> set (lsys_calls S'). finished c)"
  using assms
proof (induction "log_weight S" arbitrary: S rule: less_induct)
  case less
  show ?case
  proof (cases "\<forall>c \<in> set (lsys_calls S). finished c")
    case True
    then show ?thesis by blast
  next
    case False
    then obtain i where "i < length (lsys_calls S)" "\<not> finished (lsys_calls S ! i)" by (auto simp: in_set_conv_nth)
    from log_progress [OF less.prems this] obtain S1 where S1: "log_step S S1" "lsys_sink S1 = lsys_sink S"
      "length (lsys_calls S1) = length (lsys_calls S)" "log_weight S1 < log_weight S" by blast
    from less.hyps [OF S1(4) log_step_inv [OF S1(1) less.prems]] obtain S' where "log_step\<^sup>*\<^sup>* S1 S'" "lsys_sink S' = lsys_sink S1"
      "length (lsys_calls S') = length (lsys_calls S1)" "\<forall>c \<in> set (lsys_calls S'). finished c" by blast
    with S1 show ?thesis by (intro exI [of _ S']) (auto intro: converse_rtranclp_into_rtranclp)
  qed
qed

section \<open>Properties\<close>

text \<open>
  C27: logging is linearizable. However threads that log, add and remove backends, and backends that do
  the same from within a call, are interleaved: the sink is the result of its critical sections one after the
  other; every \<^verbatim>\<open>Log\<close> has at most one of them, and the backends it calls are, in order and each
  once, those of the sink at that point of the sequence, exactly what the sequential \<^verbatim>\<open>Log\<close> would call
  there, or the first of them if a backend throws; and all calls of \<^verbatim>\<open>Log\<close> under way can always run to their end.
\<close>

theorem log_linearizable:
  fixes S :: "'b log_system"
  assumes "log_step\<^sup>*\<^sup>* log_system_init S"
  shows "replay (lsys_sections S) LogSink_new = Inr (lsys_sink S) \<and> LogSink_inv (lsys_sink S) \<and>
     (\<forall>i. length (copied_by i S) \<le> 1) \<and>
     (\<forall>i < length (lsys_calls S). lsys_calls S ! i = Logged \<longrightarrow>
        (\<exists>r pre post s. lsys_sections S = pre @ Copied i r # post \<and> replay pre LogSink_new = Inr s \<and>
          received_from i S = log_deliveries (ls_backends s) r)) \<and>
     (\<forall>i. received_from i S \<noteq> [] \<longrightarrow>
        (\<exists>r pre post s. lsys_sections S = pre @ Copied i r # post \<and> replay pre LogSink_new = Inr s \<and>
          prefix (received_from i S) (log_deliveries (ls_backends s) r))) \<and>
     (\<forall>user r (w :: ('b, 'w) log_world). LogSink_Log user r w = run_deliveries user (log_deliveries (ls_backends (fst w)) r) w) \<and>
     (\<exists>S'. log_step\<^sup>*\<^sup>* S S' \<and> lsys_sink S' = lsys_sink S \<and> length (lsys_calls S') = length (lsys_calls S) \<and>
        (\<forall>c \<in> set (lsys_calls S'). finished c))"
proof -
  have inv: "log_inv S" by (rule log_reachable_inv [OF assms])
  then have ok: "log_call_ok i S" for i by (simp add: log_inv_def)
  have "length (copied_by i S) \<le> 1" for i
    using ok [of i] by (auto simp: log_call_ok_def took_effect_def split: if_splits log_call.splits)
  moreover have "\<exists>r pre post s. lsys_sections S = pre @ Copied i r # post \<and> replay pre LogSink_new = Inr s \<and>
          received_from i S = log_deliveries (ls_backends s) r"
    if "i < length (lsys_calls S)" "lsys_calls S ! i = Logged" for i
    using ok [of i] that by (auto simp: log_call_ok_def took_effect_def)
  moreover have "\<exists>r pre post s. lsys_sections S = pre @ Copied i r # post \<and> replay pre LogSink_new = Inr s \<and>
          prefix (received_from i S) (log_deliveries (ls_backends s) r)"
    if "received_from i S \<noteq> []" for i
    using ok [of i] that
    by (fastforce simp: log_call_ok_def took_effect_def split: if_splits log_call.splits)
  ultimately show ?thesis using inv LogSink_Log_deliveries log_can_finish [OF inv] by (auto simp: log_inv_def)
qed

text \<open>Two backends are added, a record is logged, and the second backend is removed before it is called.\<close>

definition example_log_record :: LogRecord where
  "example_log_record = \<lparr>lr_severity = GCP_LS_INFO, lr_function = ''f'', lr_filename = ''g'', lr_lineno = 3, lr_timestamp = 0, lr_message = ''hi''\<rparr>"

definition example_sink :: "(int, nat LogBackend) smap \<Rightarrow> int \<Rightarrow> nat LogSink" where
  "example_sink bs n = LogSink_new\<lparr>ls_empty := False, ls_next_id := n, ls_backends := bs\<rparr>"

definition example_log_system :: "nat log_system" where
  "example_log_system = \<lparr>lsys_sink = example_sink [(1, UserBackend 7)] 2, lsys_calls = [Logged],
     lsys_sections = [Changed (OpAdd 7), Changed (OpAdd 8), Copied 0 example_log_record, Changed (OpRemove 2)],
     lsys_received = [(0, 1, UserBackend 7, Process example_log_record), (0, 2, UserBackend 8, Process example_log_record)]\<rparr>"

lemma example_sink_ops:
  "sink_op_run (OpAdd 7) LogSink_new = Inr (example_sink [(1, UserBackend 7)] 1)"
  "sink_op_run (OpAdd 8) (example_sink [(1, UserBackend 7)] 1) = Inr (example_sink [(1, UserBackend 7), (2, UserBackend 8)] 2)"
  "sink_op_run (OpRemove 2) (example_sink [(1, UserBackend 7), (2, UserBackend 8)] 2) = Inr (example_sink [(1, UserBackend 7)] 2)"
  by (simp_all add: AddBackend_def AddBackendImpl_def LogSink_new_def map_emplace_def map_find_def in_int64_def RemoveBackend_def
      RemoveBackendImpl_def map_erase_def example_sink_def)

lemma example_log_reachable: "log_step\<^sup>*\<^sup>* log_system_init example_log_system"
proof -
  let ?r = example_log_record and ?b2 = "[(1, UserBackend 7), (2, UserBackend 8)] :: (int, nat LogBackend) smap"
  let ?S1 = "log_system_init\<lparr>lsys_sink := example_sink [(1, UserBackend 7)] 1, lsys_sections := [Changed (OpAdd 7)]\<rparr>"
  let ?S2 = "?S1\<lparr>lsys_sink := example_sink ?b2 2, lsys_sections := [Changed (OpAdd 7), Changed (OpAdd 8)]\<rparr>"
  let ?S3 = "?S2\<lparr>lsys_calls := [Logging ?r]\<rparr>"
  let ?S4 = "?S3\<lparr>lsys_calls := [Delivering ?r False ?b2], lsys_sections := [Changed (OpAdd 7), Changed (OpAdd 8), Copied 0 ?r]\<rparr>"
  let ?S5 = "?S4\<lparr>lsys_sink := example_sink [(1, UserBackend 7)] 2,
      lsys_sections := [Changed (OpAdd 7), Changed (OpAdd 8), Copied 0 ?r, Changed (OpRemove 2)]\<rparr>"
  let ?S6 = "?S5\<lparr>lsys_calls := [Delivering ?r False [(2, UserBackend 8)]], lsys_received := [(0, 1, UserBackend 7, Process ?r)]\<rparr>"
  have "log_step log_system_init ?S1"
    using log_step.change [of "OpAdd (7 :: nat)" log_system_init] example_sink_ops(1) by (simp add: log_system_init_def)
  moreover have "log_step ?S1 ?S2" using log_step.change [of "OpAdd 8" ?S1] example_sink_ops(2) by simp
  moreover have "log_step ?S2 ?S3" using log_step.log_start [of ?S2 ?r] by (simp add: log_system_init_def)
  moreover have "log_step ?S3 ?S4"
    using log_step.copy [of 0 ?S3 ?r] by (simp add: log_copy_section_def example_sink_def LogSink_new_def)
  moreover have "log_step ?S4 ?S5" using log_step.change [of "OpRemove 2" ?S4] example_sink_ops(3) by simp
  moreover have "log_step ?S5 ?S6"
    using log_step.process [of 0 ?S5 ?r False 1 "UserBackend 7" "[(2, UserBackend 8)]"] by (simp add: log_system_init_def log_deliver_def)
  moreover have "log_step ?S6 example_log_system"
    using log_step.process [of 0 ?S6 ?r False 2 "UserBackend 8" "[]"]
    by (simp add: log_system_init_def log_deliver_def example_log_system_def)
  ultimately show ?thesis by (meson converse_rtranclp_into_rtranclp rtranclp.rtrancl_refl)
qed

theorem log_linearizable_witness:
  "log_step\<^sup>*\<^sup>* log_system_init example_log_system \<and>
   replay (lsys_sections example_log_system) LogSink_new = Inr (lsys_sink example_log_system) \<and>
   length (copied_by 0 example_log_system) \<le> 1 \<and> lsys_calls example_log_system ! 0 = Logged \<and>
   (\<exists>r (s :: nat LogSink). received_from 0 example_log_system = log_deliveries (ls_backends s) r)"
proof -
  have "0 < length (lsys_calls example_log_system)" "lsys_calls example_log_system ! 0 = Logged"
    by (simp_all add: example_log_system_def)
  moreover note log = log_linearizable [OF example_log_reachable, where 'w = unit]
  ultimately have "\<exists>r (s :: nat LogSink). received_from 0 example_log_system = log_deliveries (ls_backends s) r" by metis
  with log example_log_reachable show ?thesis by (simp add: example_log_system_def)
qed

end
