(* ===== verification/Queue_Client.thy ===== *)
theory Queue_Client
  imports Event_Loop
begin

text \<open>
  Clients of the completion queue on the event loop. A client waits for at most one operation; what it does when that
  one completes, or when it is called, is to start operations with new addresses, of which at most the
  last is left pending. The locale \<open>queue_client\<close> states this contract for the function that handles one event,
  with what the state of the client owes to the notifications of its operations, and shows that every run of such a client,
  which its own theory handles one completion after the other, is a
  run of steps of the concurrent event loop: gRPC completes the operation, a thread polls it, finds,
  notifies, starts what the client asks for, and forgets.
\<close>

section \<open>Starting operations\<close>

abbreviation tags :: "'r CompletionQueueImpl \<Rightarrow> nat set" where
  "tags q \<equiv> fst ` set (pending_ops q)"

text \<open>
  Operations at address \<open>tag\<close> are started one after the other; all but the last were cancelled at once, with the
  notifications listed at the end.
\<close>

inductive started ::
  "bool \<Rightarrow> nat \<Rightarrow> 'r CompletionQueueImpl \<Rightarrow> 'r CompletionQueueImpl \<Rightarrow> nat set \<Rightarrow> 'r notification list \<Rightarrow> bool" for he tag where
  started_none: "started he tag q q {} []"
| started_cancelled: "StartOperation he tag op st q = (Inr (Some n), q1) \<Longrightarrow> op_started (st op) \<Longrightarrow> started he tag q1 q' W ns \<Longrightarrow>
    started he tag q q' W (n # ns)"
| started_pending: "StartOperation he tag op st q = (Inr None, q') \<Longrightarrow> op_started (st op) \<Longrightarrow> started he tag q q' {tag} []"

lemma started_one:
  assumes "StartOperation he tag op st q = (Inr x, q')" "op_started (st op)"
  shows "started he tag q q' (if x = None then {tag} else {}) (case x of None \<Rightarrow> [] | Some n \<Rightarrow> [n])"
proof (cases x)
  case None
  with assms show ?thesis by (auto intro: started_pending)
next
  case (Some n)
  with started_cancelled [OF assms(1) [unfolded Some] assms(2) started_none] show ?thesis by simp
qed

lemma started_trans:
  "started he tag q q1 W ns \<Longrightarrow> W = {} \<Longrightarrow> started he tag q1 q' W' ns' \<Longrightarrow> started he tag q q' W' (ns @ ns')"
  by (induction rule: started.induct) (auto intro: started_cancelled)

text \<open>Steps that leave the threads alone, notify \<open>ks\<close> and only add to what gRPC is working on.\<close>

definition framed :: "bool \<Rightarrow> 'r system \<Rightarrow> (nat \<times> 'r notification) list \<Rightarrow> 'r system \<Rightarrow> bool" where
  "framed he s ks s' \<longleftrightarrow> (step he)\<^sup>*\<^sup>* s s' \<and> sys_threads s' = sys_threads s \<and> grpc_outstanding s \<subseteq> grpc_outstanding s' \<and>
     sys_notified s' = sys_notified s @ ks"

lemma framed_refl [simp]: "framed he s [] s"
  by (simp add: framed_def)

lemma framed_trans: "framed he s ks s' \<Longrightarrow> framed he s' ks' s'' \<Longrightarrow> framed he s (ks @ ks') s''"
  by (auto simp: framed_def)

text \<open>While an operation is being notified, gRPC has written its result into the pending operation \<open>t\<close>.\<close>

lemma write_result_simps [simp]:
  "shutdown (write_result t f q) = shutdown q" "tags (write_result t f q) = tags q"
  by (force simp: write_result_def image_image case_prod_unfold)+

lemma write_result_id: "write_result t (\<lambda>op. op) q = q"
  by (simp add: write_result_def case_prod_unfold)

lemma write_result_snoc:
  "t \<noteq> tag \<Longrightarrow> write_result t f (q\<lparr>pending_ops := pending_ops q @ [(tag, op)]\<rparr>) =
     (write_result t f q)\<lparr>pending_ops := pending_ops (write_result t f q) @ [(tag, op)]\<rparr>"
  by (simp add: write_result_def)

lemma start_simulated:
  assumes "StartOperation he tag op st q = (Inr x, q')" "tag \<notin> tags q" "op_started (st op)" "t \<noteq> tag"
    "sys_impl s = write_result t f q"
  shows "\<exists>s'. framed he s (case x of None \<Rightarrow> [] | Some n \<Rightarrow> [(tag, n)]) s' \<and> sys_impl s' = write_result t f q' \<and>
     (x = None \<longrightarrow> tag \<in> grpc_outstanding s')"
proof -
  have fresh: "tag \<notin> fst ` set (pending_ops (sys_impl s))" using assms(2,5) by simp
  show ?thesis
  proof (cases "shutdown q")
    case True
    with assms(1) have q': "q' = q" "x = Some (snd (Notify False op))" by (auto simp: StartOperation_def)
    let ?s = "s\<lparr>sys_started := sys_started s @ [tag], sys_notified := sys_notified s @ [(tag, snd (Notify False op))]\<rparr>"
    have "start_step he tag op st s = Inr ?s" using True by (simp add: start_step_def StartOperation_def assms(5))
    then have "step he s ?s" using step.start [where st = st and op = op, OF fresh] assms(3) by blast
    then show ?thesis using q' assms(5) by (intro exI [of _ ?s]) (auto simp: framed_def)
  next
    case False
    with assms(1,2) have q': "q' = q\<lparr>pending_ops := pending_ops q @ [(tag, st op)]\<rparr>" "x = None"
      by (auto simp: StartOperation_def map_of_None_iff)
    let ?s = "s\<lparr>sys_impl := write_result t f q', sys_started := sys_started s @ [tag],
        grpc_outstanding := insert tag (grpc_outstanding s), grpc_misused := (grpc_misused s \<or> grpc_down s)\<rparr>"
    have "start_step he tag op st s = Inr ?s"
      using False fresh
      by (simp add: start_step_def StartOperation_def assms(5) q'(1) write_result_snoc [OF assms(4)] map_of_None_iff
          del: write_result_simps(2))
    then have "step he s ?s" using step.start [where st = st and op = op, OF fresh] assms(3) by blast
    then show ?thesis by (intro exI [of _ ?s]) (auto simp: framed_def q'(2))
  qed
qed

lemma started_simulated:
  assumes "started he tag q q' W ns" "tag \<notin> tags q" "t \<noteq> tag" "sys_impl s = write_result t f q"
  shows "\<exists>s'. framed he s (map (Pair tag) ns) s' \<and> sys_impl s' = write_result t f q' \<and> W \<subseteq> grpc_outstanding s' \<and> W \<subseteq> {tag} \<and>
     tags q' = tags q \<union> W"
  using assms(1,2,4)
proof (induction arbitrary: s rule: started.induct)
  case (started_none q)
  then show ?case by (intro exI [of _ s]) simp
next
  case (started_cancelled op st q n q1 q' W ns)
  have q1: "q1 = q" using started_cancelled.hyps(1) by (auto simp: StartOperation_def split: if_splits)
  obtain s1 where s1: "framed he s [(tag, n)] s1" "sys_impl s1 = write_result t f q1"
    using start_simulated [OF started_cancelled.hyps(1) started_cancelled.prems(1) started_cancelled.hyps(2) assms(3) started_cancelled.prems(2)] by auto
  with started_cancelled.IH [OF _ s1(2)] started_cancelled.prems(1) q1 show ?case using framed_trans [OF s1(1)] by fastforce
next
  case (started_pending op st q q')
  have "tags q' = tags q \<union> {tag}" using started_pending.hyps(1) by (auto simp: StartOperation_def split: if_splits)
  with start_simulated [OF started_pending.hyps(1) started_pending.prems(1) started_pending.hyps(2) assms(3) started_pending.prems(2)]
  show ?case by auto
qed

section \<open>The steps of a thread for one event\<close>

lemma map_of_write_result: "map_of (pending_ops (write_result t f q)) t = map_option f (map_of (pending_ops q) t)"
proof -
  have "map_of (map (\<lambda>(k, op). (k, if k = t then f op else op)) kvs) t = map_option f (map_of kvs t)" for kvs
    by (induction kvs) auto
  then show ?thesis by (simp add: write_result_def)
qed

definition shut_queue :: "bool \<Rightarrow> 'r CompletionQueueImpl \<Rightarrow> 'r CompletionQueueImpl" where
  "shut_queue down q = (if down then Shutdown_section q else q)"

lemma shut_queue_simps [simp]: "tags (shut_queue d q) = tags q"
  by (simp add: shut_queue_def Shutdown_section_def)

lemma shut_write_result: "shut_queue d (write_result t f q) = write_result t f (shut_queue d q)"
  by (simp add: shut_queue_def Shutdown_section_def write_result_def)

lemma shut_step: "\<exists>s'. (step he)\<^sup>*\<^sup>* s s' \<and> sys_impl s' = shut_queue d (sys_impl s) \<and> sys_threads s' = sys_threads s \<and>
    grpc_outstanding s' = grpc_outstanding s \<and> sys_notified s' = sys_notified s"
proof (cases d)
  case True
  show ?thesis
    by (rule exI, intro conjI, rule r_into_rtranclp, rule step.shutdown_flag) (simp_all add: shut_queue_def True)
qed (auto simp: shut_queue_def)

lemma forget_write_result:
  "ForgetOperation he t (write_result t f q) = ForgetOperation he t q"
proof -
  have "filter (\<lambda>kv. fst kv \<noteq> t) (map (\<lambda>(k, op). (k, if k = t then f op else op)) kvs) = filter (\<lambda>kv. fst kv \<noteq> t) kvs" for kvs
    by (induction kvs) auto
  then have "(write_result t f q)\<lparr>pending_ops := filter (\<lambda>kv. fst kv \<noteq> t) (pending_ops (write_result t f q))\<rparr> =
      q\<lparr>pending_ops := filter (\<lambda>kv. fst kv \<noteq> t) (pending_ops q)\<rparr>"
    by (simp add: write_result_def)
  then show ?thesis by (simp add: ForgetOperation_def)
qed

lemma forget_tags: "ForgetOperation he t q = Inr q' \<Longrightarrow> tags q' = tags q - {t}"
  by (auto simp: ForgetOperation_def split: if_splits)

definition keeps_started :: "('r AsyncGrpcOperation \<Rightarrow> 'r AsyncGrpcOperation) \<Rightarrow> bool" where
  "keeps_started f \<longleftrightarrow> (\<forall>op. op_started op \<longrightarrow> op_started (f op))"

text \<open>gRPC completes operation \<open>t\<close>, and the polling thread \<open>i\<close> picks it up and looks it up.\<close>

lemma pick_up:
  assumes "t \<in> grpc_outstanding s" "i < length (sys_threads s)" "sys_threads s ! i = Polling"
    "FindOperation he t (sys_impl s) = Inr op" "keeps_started f"
  shows "\<exists>s'. (step he)\<^sup>*\<^sup>* s s' \<and> sys_impl s' = write_result t (f) (sys_impl s) \<and>
     sys_threads s' = (sys_threads s)[i := Notifying t ok (f op)] \<and> sys_notified s' = sys_notified s"
proof -
  let ?s1 = "s\<lparr>grpc_outstanding := grpc_outstanding s - {t}, grpc_ready := (grpc_ready s)(t \<mapsto> ok),
      sys_impl := write_result t (f) (sys_impl s)\<rparr>"
  let ?s2 = "?s1\<lparr>grpc_ready := (grpc_ready ?s1)(t := None), sys_threads := (sys_threads ?s1)[i := GotEvent t ok]\<rparr>"
  let ?s3 = "?s2\<lparr>sys_threads := (sys_threads ?s2)[i := Notifying t ok (f op)]\<rparr>"
  have "step he s ?s1" by (rule step.complete [OF assms(1)]) (use assms(5) in \<open>simp add: keeps_started_def\<close>)
  moreover have "step he ?s1 ?s2" by (rule step.poll_event) (use assms(2,3) in simp_all)
  moreover have "step he ?s2 ?s3"
    by (rule step.handle) (use assms(2,4) in \<open>auto simp: FindOperation_def map_of_write_result split: option.splits\<close>)
  ultimately have "(step he)\<^sup>*\<^sup>* s ?s3" by (meson converse_rtranclp_into_rtranclp rtranclp.rtrancl_refl)
  then show ?thesis by (rule exI [where x = ?s3, OF conjI]) simp
qed

lemma notify_step:
  assumes "i < length (sys_threads s)" "sys_threads s ! i = Notifying t ok op"
  shows "\<exists>s'. (step he)\<^sup>*\<^sup>* s s' \<and> sys_impl s' = sys_impl s \<and> sys_threads s' = (sys_threads s)[i := Forgetting t] \<and>
     sys_notified s' = sys_notified s @ [(t, snd (Notify ok op))]"
proof -
  have "step he s (s\<lparr>sys_notified := sys_notified s @ [(t, snd (Notify ok op))], sys_threads := (sys_threads s)[i := Forgetting t]\<rparr>)"
    using step.handle [OF assms(1), of he "Forgetting t" "s\<lparr>sys_notified := sys_notified s @ [(t, snd (Notify ok op))]\<rparr>"] assms(2)
    by (simp add: case_prod_unfold)
  from r_into_rtranclp [where r = "step he", OF this] show ?thesis by (intro exI conjI, assumption) simp_all
qed

lemma forget_step:
  assumes "i < length (sys_threads s)" "sys_threads s ! i = Forgetting t" "ForgetOperation he t (sys_impl s) = Inr q"
  shows "\<exists>s'. (step he)\<^sup>*\<^sup>* s s' \<and> sys_impl s' = q \<and> sys_threads s' = (sys_threads s)[i := Polling] \<and>
     grpc_outstanding s' = grpc_outstanding s \<and> sys_notified s' = sys_notified s"
proof -
  have "step he s (s\<lparr>sys_impl := q, sys_threads := (sys_threads s)[i := Polling]\<rparr>)"
    using step.handle [OF assms(1), of he Polling "s\<lparr>sys_impl := q\<rparr>"] assms(2,3) by simp
  from r_into_rtranclp [where r = "step he", OF this] show ?thesis by (intro exI conjI, assumption) simp_all
qed

lemma event_simulated:
  fixes f :: "'r AsyncGrpcOperation \<Rightarrow> 'r AsyncGrpcOperation" and q q1 q' :: "'r CompletionQueueImpl"
  assumes find: "FindOperation he t q = Inr op" and st: "started he tag (shut_queue down q) q1 W ns"
    and forget: "ForgetOperation he t q1 = Inr q'" and keeps: "keeps_started f"
    and s: "sys_impl s = q" "t \<in> grpc_outstanding s" "i < length (sys_threads s)" "sys_threads s ! i = Polling"
    and tag: "tag \<notin> tags q"
  shows "\<exists>s'. (step he)\<^sup>*\<^sup>* s s' \<and> sys_impl s' = q' \<and> sys_threads s' = sys_threads s \<and> W \<subseteq> grpc_outstanding s' \<and>
     W \<subseteq> {tag} \<and> tags q' = tags q - {t} \<union> W \<and>
     sys_notified s' = sys_notified s @ (t, snd (Notify ok (f op))) # map (Pair tag) ns"
proof -
  have neq: "t \<noteq> tag" using find tag by (force simp: FindOperation_def split: option.splits dest: map_of_SomeD)
  obtain s1 where s1: "(step he)\<^sup>*\<^sup>* s s1" "sys_impl s1 = write_result t f q" "sys_threads s1 = (sys_threads s)[i := Notifying t ok (f op)]"
      "sys_notified s1 = sys_notified s"
    using pick_up [OF s(2-4) find [folded s(1)] keeps, where ok = ok] s(1) by auto
  obtain s2 where s2: "(step he)\<^sup>*\<^sup>* s1 s2" "sys_impl s2 = write_result t f (shut_queue down q)" "sys_threads s2 = sys_threads s1"
      "sys_notified s2 = sys_notified s1"
    using shut_step [of he s1 down] s1(2) by (auto simp: shut_write_result)
  obtain s3 where s3: "(step he)\<^sup>*\<^sup>* s2 s3" "sys_impl s3 = write_result t f (shut_queue down q)" "sys_threads s3 = (sys_threads s)[i := Forgetting t]"
      "sys_notified s3 = sys_notified s @ [(t, snd (Notify ok (f op)))]"
    using notify_step [of i s2 t ok "f op" he] s(3) s2 s1(3,4) by auto
  obtain s4 where s4: "framed he s3 (map (Pair tag) ns) s4" "sys_impl s4 = write_result t f q1" "W \<subseteq> grpc_outstanding s4" "W \<subseteq> {tag}" "tags q1 = tags q \<union> W"
    using started_simulated [OF st _ neq s3(2)] tag by auto
  have "t \<notin> W" using s4(4) neq by blast
  then have tags': "tags q' = tags q - {t} \<union> W" unfolding forget_tags [OF forget] s4(5) Un_Diff by (simp add: Diff_triv)
  have "i < length (sys_threads s4)" "sys_threads s4 ! i = Forgetting t" "ForgetOperation he t (sys_impl s4) = Inr q'"
    using s4(1,2) s3(3) s(3) forget by (simp_all add: framed_def forget_write_result)
  from forget_step [OF this] obtain s5 where s5: "(step he)\<^sup>*\<^sup>* s4 s5" "sys_impl s5 = q'"
      "sys_threads s5 = (sys_threads s4)[i := Polling]" "grpc_outstanding s5 = grpc_outstanding s4"
      "sys_notified s5 = sys_notified s4" by blast
  have "(step he)\<^sup>*\<^sup>* s s5" using s1(1) s2(1) s3(1) s4(1) s5(1) unfolding framed_def by (meson rtranclp_trans)
  moreover have "sys_threads s5 = sys_threads s"
    using s5(3) s4(1) s3(3) s(4) by (simp add: framed_def) (metis list_update_id)
  moreover have "sys_notified s5 = sys_notified s @ (t, snd (Notify ok (f op))) # map (Pair tag) ns"
    using s5(5) s4(1) s3(4) by (simp add: framed_def)
  ultimately show ?thesis using s5(2,4) s4(3,4) tags' by auto
qed

text \<open>A call from outside the event loop.\<close>

lemma call_simulated:
  assumes "started he tag (shut_queue down q) q' W ns" "tag \<notin> tags q" "sys_impl s = q"
  shows "\<exists>s'. (step he)\<^sup>*\<^sup>* s s' \<and> sys_impl s' = q' \<and> sys_threads s' = sys_threads s \<and> W \<subseteq> grpc_outstanding s' \<and>
     W \<subseteq> {tag} \<and> tags q' = tags q \<union> W \<and> sys_notified s' = sys_notified s @ map (Pair tag) ns"
proof -
  obtain s1 where s1: "(step he)\<^sup>*\<^sup>* s s1" "sys_impl s1 = shut_queue down q" "sys_threads s1 = sys_threads s"
      "sys_notified s1 = sys_notified s"
    using shut_step [of he s down] assms(3) by auto
  have "Suc tag \<noteq> tag" by simp
  from started_simulated [OF assms(1) _ this, of s1 "\<lambda>op. op", unfolded write_result_id] s1 assms(2) show ?thesis
    unfolding framed_def by simp (metis rtranclp_trans)
qed

section \<open>Clients\<close>

lemma fresh_disjoint: "W \<subseteq> {x} \<Longrightarrow> x \<notin> K \<Longrightarrow> W \<inter> K = {}"
  by blast

lemma new_disjoint: "W' \<subseteq> insert x W \<Longrightarrow> x \<notin> X \<Longrightarrow> X \<inter> (K \<union> W) = {} \<Longrightarrow> X \<inter> (K \<union> W') = {}"
  by blast

text \<open>What a client does with an event, by the critical sections of the queue it passes through.\<close>

definition handles ::
  "bool \<Rightarrow> nat \<Rightarrow> bool \<Rightarrow> 'r CompletionQueueImpl \<Rightarrow> nat set \<Rightarrow> 'r CompletionQueueImpl \<Rightarrow> nat set \<Rightarrow> (nat \<times> 'r notification) list \<Rightarrow> bool" where
  "handles he tag down q W q' W' ks \<longleftrightarrow>
     q' = q \<and> W' = W \<and> ks = [] \<or>
     (\<exists>ns. W = {} \<and> started he tag (shut_queue down q) q' W' ns \<and> ks = map (Pair tag) ns) \<or>
     (\<exists>t op q1 f ok ns. W = {t} \<and> FindOperation he t q = Inr op \<and> keeps_started f \<and> started he tag (shut_queue down q) q1 W' ns \<and>
        ForgetOperation he t q1 = Inr q' \<and> ks = (t, snd (Notify ok (f op))) # map (Pair tag) ns)"

text \<open>From the queue \<open>q\<close> the client starts operations, up to the state \<open>c\<close>, which agrees with the notifications.\<close>

definition advances ::
  "bool \<Rightarrow> ('s \<Rightarrow> 'r CompletionQueueImpl) \<Rightarrow> ('s \<Rightarrow> nat set) \<Rightarrow> ('r notification list \<Rightarrow> 's \<Rightarrow> bool) \<Rightarrow> nat \<Rightarrow> 'r CompletionQueueImpl
    \<Rightarrow> 'r notification list \<Rightarrow> 's \<Rightarrow> bool" where
  "advances he queue waits agrees tag q ns c \<longleftrightarrow> (\<exists>ms. started he tag q (queue c) (waits c) ms \<and> agrees (ns @ ms) c)"

lemma advances_none: "waits c = {} \<Longrightarrow> agrees ns c \<Longrightarrow> queue c = q \<Longrightarrow> advances he queue waits agrees tag q ns c"
  by (auto simp: advances_def intro!: exI [of _ "[]"] started_none)

lemma advances_one:
  assumes "StartOperation he tag op st q = (Inr x, queue c)" "op_started (st op)" "waits c = (if x = None then {tag} else {})"
    "agrees (ns @ (case x of None \<Rightarrow> [] | Some n \<Rightarrow> [n])) c"
  shows "advances he queue waits agrees tag q ns c"
  using started_one [where op = op and st = st, OF assms(1,2)] assms(3,4) by (auto simp: advances_def)

lemma advances_trans:
  assumes "advances he queue waits agrees tag q ns c" "waits c = {}"
    "\<And>ms. agrees ms c \<Longrightarrow> advances he queue waits agrees tag (queue c) ms c'"
  shows "advances he queue waits agrees tag q ns c'"
proof -
  obtain ms where ms: "started he tag q (queue c) (waits c) ms" "agrees (ns @ ms) c" using assms(1) by (auto simp: advances_def)
  obtain ms' where "started he tag (queue c) (queue c') (waits c') ms'" "agrees ((ns @ ms) @ ms') c'"
    using assms(3) [OF ms(2)] by (auto simp: advances_def)
  with started_trans [OF ms(1) assms(2) this(1)] show ?thesis by (auto simp: advances_def)
qed

fun client_run :: "('e \<Rightarrow> 's \<Rightarrow> (fault + 's) option) \<Rightarrow> 'e list \<Rightarrow> 's \<Rightarrow> (fault + 's) option" where
  "client_run handle [] s = Some (Inr s)"
| "client_run handle (e # es) s =
     (case handle e s of None \<Rightarrow> None | Some (Inl f) \<Rightarrow> Some (Inl f) | Some (Inr s1) \<Rightarrow> client_run handle es s1)"

text \<open>
  The contract: \<open>agrees ns c\<close> says that the client state \<open>c\<close> is what the notifications \<open>ns\<close> of its operations
  so far lead to.
\<close>

locale queue_client =
  fixes he :: bool
    and queue :: "'s \<Rightarrow> 'r CompletionQueueImpl"
    and waits :: "'s \<Rightarrow> nat set"
    and agrees :: "'r notification list \<Rightarrow> 's \<Rightarrow> bool"
    and handle :: "'e \<Rightarrow> 's \<Rightarrow> (fault + 's) option"
    and ev_new :: "'e \<Rightarrow> nat"
    and ev_shut :: "'e \<Rightarrow> bool"
  assumes handle_ok: "handle e c = Some (Inr c') \<Longrightarrow> ev_new e \<notin> tags (queue c) \<Longrightarrow> agrees ns c \<Longrightarrow>
    \<exists>ks. handles he (ev_new e) (ev_shut e) (queue c) (waits c) (queue c') (waits c') ks \<and> agrees (ns @ map snd ks) c'"
begin

lemma handles_simulated:
  assumes "handles he (ev_new e) (ev_shut e) (queue c) (waits c) (queue c') (waits c') ks" "ev_new e \<notin> tags (queue c)"
    "sys_impl s = queue c" "waits c \<subseteq> grpc_outstanding s"
    "i < length (sys_threads s)" "sys_threads s ! i = Polling" "tags (queue c) = K \<union> waits c" "waits c \<inter> K = {}" "ev_new e \<notin> K"
  shows "\<exists>s'. (step he)\<^sup>*\<^sup>* s s' \<and> sys_impl s' = queue c' \<and> sys_threads s' = sys_threads s \<and> waits c' \<subseteq> grpc_outstanding s' \<and>
     tags (queue c') = K \<union> waits c' \<and> waits c' \<inter> K = {} \<and> waits c' \<subseteq> insert (ev_new e) (waits c) \<and>
     sys_notified s' = sys_notified s @ ks"
proof -
  consider "queue c' = queue c" "waits c' = waits c" "ks = []"
    | ns where "waits c = {}" "started he (ev_new e) (shut_queue (ev_shut e) (queue c)) (queue c') (waits c') ns"
        "ks = map (Pair (ev_new e)) ns"
    | t op q1 f ok ns where "waits c = {t}" "FindOperation he t (queue c) = Inr op" "keeps_started f"
        "started he (ev_new e) (shut_queue (ev_shut e) (queue c)) q1 (waits c') ns" "ForgetOperation he t q1 = Inr (queue c')"
        "ks = (t, snd (Notify ok (f op))) # map (Pair (ev_new e)) ns"
    using assms(1) unfolding handles_def by blast
  then show ?thesis
  proof cases
    case 1
    with assms(3,4,7,8) show ?thesis by (intro exI [of _ s]) auto
  next
    case 2
    from call_simulated [OF 2(2) assms(2,3)] obtain s' where s': "(step he)\<^sup>*\<^sup>* s s'" "sys_impl s' = queue c'"
        "sys_threads s' = sys_threads s" "waits c' \<subseteq> grpc_outstanding s'" "waits c' \<subseteq> {ev_new e}" "tags (queue c') = tags (queue c) \<union> waits c'"
        "sys_notified s' = sys_notified s @ ks"
      unfolding 2(3) by blast
    have "tags (queue c') = K \<union> waits c'" using s'(6) assms(7) 2(1) by simp
    with s' fresh_disjoint [OF s'(5) assms(9)] show ?thesis by blast
  next
    case 3
    have t: "t \<in> grpc_outstanding s" using assms(4) 3(1) by simp
    have K: "tags (queue c) - {t} = K" using assms(7,8) 3(1) by auto
    from event_simulated [OF 3(2,4,5,3) assms(3) t assms(5,6,2), of ok] obtain s' where s': "(step he)\<^sup>*\<^sup>* s s'"
        "sys_impl s' = queue c'" "sys_threads s' = sys_threads s" "waits c' \<subseteq> grpc_outstanding s'" "waits c' \<subseteq> {ev_new e}"
        "tags (queue c') = K \<union> waits c'" "sys_notified s' = sys_notified s @ ks"
      unfolding K 3(6) by auto
    with fresh_disjoint [OF s'(5) assms(9)] show ?thesis by blast
  qed
qed

text \<open>
  Every run is a run of the event loop, leaves pending what the client waits for and nothing else of its own, and takes
  the client where the notifications of the event loop lead.
\<close>

lemma client_simulated:
  assumes "client_run handle es c = Some (Inr c')" "sys_impl s = queue c" "waits c \<subseteq> grpc_outstanding s"
    "i < length (sys_threads s)" "sys_threads s ! i = Polling" "tags (queue c) = K \<union> waits c" "waits c \<inter> K = {}"
    "distinct (map ev_new es)" "ev_new ` set es \<inter> (K \<union> waits c) = {}" "agrees ns c"
  shows "\<exists>s' ks. (step he)\<^sup>*\<^sup>* s s' \<and> sys_impl s' = queue c' \<and> sys_threads s' = sys_threads s \<and> tags (queue c') = K \<union> waits c' \<and>
     sys_notified s' = sys_notified s @ ks \<and> agrees (ns @ map snd ks) c'"
  using assms
proof (induction es arbitrary: c s ns)
  case Nil
  then show ?case by (intro exI [of _ s] exI [of _ "[]"]) auto
next
  case (Cons e es)
  obtain c1 where c1: "handle e c = Some (Inr c1)" "client_run handle es c1 = Some (Inr c')"
    using Cons.prems(1) by (auto split: option.splits sum.splits)
  have new: "ev_new e \<notin> tags (queue c)" "ev_new e \<notin> K" using Cons.prems(6,9) by auto
  obtain ks where ks: "handles he (ev_new e) (ev_shut e) (queue c) (waits c) (queue c1) (waits c1) ks" "agrees (ns @ map snd ks) c1"
    using handle_ok [OF c1(1) new(1) Cons.prems(10)] by blast
  obtain s1 where s1: "(step he)\<^sup>*\<^sup>* s s1" "sys_impl s1 = queue c1" "sys_threads s1 = sys_threads s" "waits c1 \<subseteq> grpc_outstanding s1"
      "tags (queue c1) = K \<union> waits c1" "waits c1 \<inter> K = {}" "waits c1 \<subseteq> insert (ev_new e) (waits c)" "sys_notified s1 = sys_notified s @ ks"
    using handles_simulated [OF ks(1) new(1) Cons.prems(2-7) new(2)] by blast
  have "ev_new ` set es \<inter> (K \<union> waits c1) = {}" "distinct (map ev_new es)"
    using new_disjoint [OF s1(7), of "ev_new ` set es" K] Cons.prems(8,9) by auto
  from Cons.IH [OF c1(2) s1(2,4) _ _ s1(5,6) this(2,1) ks(2)] Cons.prems(4,5) s1(3) obtain s' ks' where
    s': "(step he)\<^sup>*\<^sup>* s1 s'" "sys_impl s' = queue c'" "sys_threads s' = sys_threads s" "tags (queue c') = K \<union> waits c'"
      "sys_notified s' = sys_notified s1 @ ks'" "agrees ((ns @ map snd ks) @ map snd ks') c'" by auto
  show ?case
    by (rule exI [of _ s'], rule exI [of _ "ks @ ks'"]) (use s' s1(1,8) in \<open>auto intro: rtranclp_trans\<close>)
qed

lemma client_started_simulated:
  assumes "started he tag q (queue c) (waits c) ns" "agrees ns c" "tag \<notin> tags q" "sys_impl s = q"
    "i < length (sys_threads s)" "sys_threads s ! i = Polling"
    "client_run handle es c = Some (Inr c')" "distinct (map ev_new es)" "ev_new ` set es \<inter> (tags q \<union> {tag}) = {}"
  shows "\<exists>s' ks. (step he)\<^sup>*\<^sup>* s s' \<and> sys_impl s' = queue c' \<and> sys_threads s' = sys_threads s \<and> tags (queue c') = tags q \<union> waits c' \<and>
     sys_notified s' = sys_notified s @ ks \<and> agrees (map snd ks) c'"
proof -
  have "started he tag (shut_queue False q) (queue c) (waits c) ns" using assms(1) by (simp add: shut_queue_def)
  from call_simulated [OF this assms(3,4)] obtain s1 where s1: "(step he)\<^sup>*\<^sup>* s s1" "sys_impl s1 = queue c"
      "sys_threads s1 = sys_threads s" "waits c \<subseteq> grpc_outstanding s1" "waits c \<subseteq> {tag}" "tags (queue c) = tags q \<union> waits c"
      "sys_notified s1 = sys_notified s @ map (Pair tag) ns" by blast
  have "ev_new ` set es \<inter> (tags q \<union> waits c) = {}" using s1(5) assms(9) by blast
  from client_simulated [where i = i, OF assms(7) s1(2,4) _ _ s1(6) fresh_disjoint [OF s1(5) assms(3)] assms(8) this assms(2)] assms(5,6) s1(3)
  obtain s' ks where s': "(step he)\<^sup>*\<^sup>* s1 s'" "sys_impl s' = queue c'" "sys_threads s' = sys_threads s" "tags (queue c') = tags q \<union> waits c'"
      "sys_notified s' = sys_notified s1 @ ks" "agrees (ns @ map snd ks) c'" by auto
  show ?thesis
    by (rule exI [of _ s'], rule exI [of _ "map (Pair tag) ns @ ks"])
      (use s' s1(1,7) in \<open>auto simp: comp_def intro: rtranclp_trans\<close>)
qed

end

text \<open>What holds in every state of the event loop; operations that are not pending have been notified.\<close>

lemma reachable_facts:
  assumes "(step he)\<^sup>*\<^sup>* (system_init n) s"
  shows "(\<forall>e. Threw e \<notin> set (sys_threads s)) \<and> \<not> grpc_misused s \<and>
    (\<forall>t. t \<notin> tags (sys_impl s) \<longrightarrow> count_list (sys_started s) t = count_list (map fst (sys_notified s)) t)"
proof -
  have inv: "sys_inv s" "balanced s" using reachable_inv [OF assms] by blast+
  have "unnotified s \<subseteq> tags (sys_impl s)"
    using inv(1) unnotified_subset [of "sys_threads s"] by (auto simp: sys_inv_def tags_ok_def unnotified_def)
  with inv show ?thesis by (auto simp: sys_inv_def balanced_def)
qed

end
