(* ===== verification/Retry_On_Loop.thy ===== *)
theory Retry_On_Loop
  imports Async_Retry Queue_Client
begin

text \<open>
  The retry loop on the event loop. \<open>Async_Retry\<close> handles one completion after the other; as a client of
  the queue (\<open>queue_client\<close>) it runs on the threads of the event loop, whatever else the queue is used for.
\<close>

section \<open>The loop as a client\<close>

text \<open>The operation the loop waits for.\<close>

fun await_tags :: "'r await \<Rightarrow> nat set" where
  "await_tags (Waiting t) = {t}"
| "await_tags _ = {}"

definition retry_queue :: "'r await \<times> ('q, 'p, 'b, 'r) RetryAsyncUnaryRpc \<times> ('q, 'r) retry_world \<Rightarrow> 'r CompletionQueueImpl" where
  "retry_queue st = rw_queue (snd (snd st))"

definition retry_waits :: "'r await \<times> ('q, 'p, 'b, 'r) RetryAsyncUnaryRpc \<times> ('q, 'r) retry_world \<Rightarrow> nat set" where
  "retry_waits st = await_tags (fst st)"

text \<open>The result of the call is the one of the last notification, with the location and the reason added to an error.\<close>

fun retry_result :: "string \<Rightarrow> 'r notification \<Rightarrow> 'r status_or \<Rightarrow> bool" where
  "retry_result loc (UnaryValue (Inr r)) v \<longleftrightarrow> v = Inr r"
| "retry_result loc (UnaryValue (Inl status)) v \<longleftrightarrow>
     v \<in> (\<lambda>reason. Inl (failure_status loc reason status)) `
       {''non-idempotent operation failed'', ''permanent failure'', ''retry policy exhausted''}"
| "retry_result loc (TimerValue (Inl status)) v \<longleftrightarrow> v = Inl (failure_status loc ''timer error'' status)"
| "retry_result loc _ v \<longleftrightarrow> False"

definition retry_agrees :: "string \<Rightarrow> 'r notification list \<Rightarrow> 'r await \<times> ('q, 'p, 'b, 'r) RetryAsyncUnaryRpc \<times> ('q, 'r) retry_world \<Rightarrow> bool" where
  "retry_agrees loc ns st \<longleftrightarrow> (case st of (aw, self, w) \<Rightarrow> location self = loc \<and> (case aw of
     Waiting t \<Rightarrow> final_result self = None
   | Ready n \<Rightarrow> final_result self = None \<and> ns \<noteq> [] \<and> last ns = n
   | Finished \<Rightarrow> (\<forall>v. final_result self = Some v \<longrightarrow> ns \<noteq> [] \<and> retry_result loc (last ns) v)))"

abbreviation retry_advances where
  "retry_advances he loc \<equiv> advances he retry_queue retry_waits (retry_agrees loc)"

lemma retry_client_simps [simp]: "retry_queue (aw, self, w) = rw_queue w" "retry_waits (aw, self, w) = await_tags aw"
  by (simp_all add: retry_queue_def retry_waits_def)

definition retry_handle ::
  "bool \<Rightarrow> (Status \<Rightarrow> bool) \<Rightarrow> (int \<Rightarrow> Status \<Rightarrow> 'p \<Rightarrow> fault + bool \<times> 'p) \<Rightarrow> ('b \<Rightarrow> fault + int \<times> 'b) \<Rightarrow> 'r \<Rightarrow> 'r retry_event
    \<Rightarrow> 'r await \<times> ('q, 'p, 'b, 'r) RetryAsyncUnaryRpc \<times> ('q, 'r) retry_world
    \<Rightarrow> (fault + 'r await \<times> ('q, 'p, 'b, 'r) RetryAsyncUnaryRpc \<times> ('q, 'r) retry_world) option" where
  "retry_handle he perm onf bo dr ev st =
     (case st of (Waiting t, self, w) \<Rightarrow> deliver he perm onf bo dr ev t self w | _ \<Rightarrow> Some (Inr st))"

lemma client_run_idle: "(\<forall>t. fst st \<noteq> Waiting t) \<Longrightarrow> client_run (retry_handle he perm onf bo dr) evs st = Some (Inr st)"
  by (induction evs) (auto simp: retry_handle_def split: prod.splits await.splits)

lemma retry_run_Inl: "retry_run he perm onf bo dr evs (Inl e) = Some (Inl e)"
  by (cases evs) auto

lemma retry_run_client: "retry_run he perm onf bo dr evs (Inr st) = client_run (retry_handle he perm onf bo dr) evs st"
proof (induction evs arbitrary: st)
  case (Cons ev evs)
  obtain aw self w where st: "st = (aw, self, w)" by (cases st)
  show ?case
  proof (cases aw)
    case (Waiting t)
    with Cons show ?thesis by (auto simp: st retry_handle_def retry_run_Inl split: option.splits sum.splits)
  qed (use client_run_idle [of st he perm onf bo dr "ev # evs"] in \<open>simp_all add: st del: client_run.simps\<close>)
qed simp

section \<open>The contract\<close>

lemma awaiting_advances:
  assumes "awaiting tag (StartOperation he tag op st q) = Inr (aw, rw_queue w)" "op_started (st op)" "final_result self = None" "location self = loc"
  shows "retry_advances he loc tag q ns (aw, self, w)"
proof -
  obtain x where "StartOperation he tag op st q = (Inr x, rw_queue w)" "await_tags aw = (if x = None then {tag} else {})"
      "retry_agrees loc (ns @ (case x of None \<Rightarrow> [] | Some n \<Rightarrow> [n])) (aw, self, w)"
    using assms(1,3,4) by (auto simp: awaiting_def retry_agrees_def split: prod.splits sum.splits option.splits)
  then show ?thesis using assms(2) by (intro advances_one [where op = op and st = st]) simp_all
qed

lemma StartIteration_advances:
  "StartIteration he dr c self w = Inr st \<Longrightarrow> final_result self = None \<Longrightarrow> location self = loc \<Longrightarrow> retry_advances he loc (rc_tag c) (rw_queue w) ns st"
  by (auto simp: StartIteration_def MakeUnaryRpc_def start_call_def AsyncUnaryRpcFuture_Start_def intro!: awaiting_advances)

lemma finish_advances:
  "finish v self w = Inr st \<Longrightarrow> location self = loc \<Longrightarrow> ns \<noteq> [] \<Longrightarrow> retry_result loc (last ns) v \<Longrightarrow> retry_advances he loc tag (rw_queue w) ns st"
  by (auto simp: finish_def set_final_result_def retry_agrees_def split: if_splits intro!: advances_none)

lemma timer_advances:
  assumes "awaiting tag (MakeRelativeTimer he tag now d q) = Inr (aw, rw_queue w)" "final_result self = None" "location self = loc"
  shows "retry_advances he loc tag q ns (aw, self, w)"
  using assms(1) unfolding MakeRelativeTimer_def MakeDeadlineTimer_def
  by (rule awaiting_advances) (simp_all add: set_deadline_def AsyncTimerFuture_Set_def CreateAlarm_def assms(2,3))

lemma OnCompletion_advances:
  assumes "RetryAsyncUnaryRpc_OnCompletion he perm onf bo c self w v = Inr st" "final_result self = None" "location self = loc"
    "ns \<noteq> []" "last ns = UnaryValue v"
  shows "retry_advances he loc (rc_tag c) (rw_queue w) ns st"
proof (cases v)
  case (Inr r)
  with assms finish_advances [of "Inr r" self w st loc ns] show ?thesis by (simp add: RetryAsyncUnaryRpc_OnCompletion_def)
next
  case (Inl status)
  then consider
      reason self1 where "finish (Inl (DetailedStatus loc reason status)) self1 w = Inr st" "location self1 = loc"
        "reason \<in> {''non-idempotent operation failed'', ''permanent failure'', ''retry policy exhausted''}"
    | aw self1 w1 now d where "st = (aw, self1, w1)" "final_result self1 = None" "location self1 = loc"
        "awaiting (rc_tag c) (MakeRelativeTimer he (rc_tag c) now d (rw_queue w)) = Inr (aw, rw_queue w1)"
    using assms(1-3) by (auto simp: RetryAsyncUnaryRpc_OnCompletion_def Let_def split: if_splits)
  then show ?thesis
  proof cases
    case 1
    have "retry_result loc (last ns) (Inl (DetailedStatus loc reason status))" unfolding assms(5) Inl retry_result.simps DetailedStatus_failure by (rule imageI [OF 1(3)])
    from finish_advances [OF 1(1,2) assms(4) this] show ?thesis .
  next
    case 2
    from timer_advances [OF 2(4,2,3)] show ?thesis by (simp add: 2(1))
  qed
qed

lemma continue_advances:
  assumes "continue he perm onf bo dr c n self w = Inr st" "retry_agrees loc ns (Ready n, self, w)"
  shows "retry_advances he loc (rc_tag c) (rw_queue w) ns st"
proof -
  have ns: "final_result self = None" "location self = loc" "ns \<noteq> []" "last ns = n" using assms(2) by (simp_all add: retry_agrees_def)
  consider v where "n = UnaryValue v" | v where "n = TimerValue v" | "st = (Finished, self, w)"
    using assms(1) by (auto simp: continue_def split: notification.splits)
  then show ?thesis
  proof cases
    case 1
    with assms(1) ns show ?thesis by (intro OnCompletion_advances) (simp_all add: continue_def)
  next
    case 2
    with assms(1) ns StartIteration_advances [of he dr c self w st loc ns] finish_advances [of _ self w st loc ns he "rc_tag c"]
    show ?thesis by (cases v) (auto simp: continue_def OnTimer_def)
  next
    case 3
    with ns(1,2) show ?thesis by (intro advances_none) (simp_all add: retry_agrees_def)
  qed
qed

lemma settle_advances:
  "settle k he perm onf bo dr c (Inr st) = Some (Inr st') \<Longrightarrow> retry_advances he loc (rc_tag c) q ns st \<Longrightarrow> retry_advances he loc (rc_tag c) q ns st'"
proof (induction k arbitrary: st)
  case (Suc k)
  obtain aw self w where st: "st = (aw, self, w)" by (cases st)
  show ?case
  proof (cases "\<exists>n. aw = Ready n")
    case True
    then obtain n where aw: "aw = Ready n" by blast
    with Suc.prems(1) have r: "settle k he perm onf bo dr c (continue he perm onf bo dr c n self w) = Some (Inr st')" by (simp add: st)
    then obtain st1 where c: "continue he perm onf bo dr c n self w = Inr st1"
      by (cases "continue he perm onf bo dr c n self w"; cases k) auto
    have "retry_advances he loc (rc_tag c) q ns st1"
      by (rule advances_trans [OF Suc.prems(2)]) (use continue_advances [OF c] in \<open>simp_all add: st aw\<close>)
    from Suc.IH [OF r [unfolded c] this] show ?thesis .
  next
    case False
    with Suc.prems show ?thesis by (cases aw) (auto simp: st)
  qed
qed simp

lemma keeps_started_write_rpc: "keeps_started (write_rpc ev)"
  by (auto simp: keeps_started_def write_rpc_def split: AsyncGrpcOperation.splits)

lemma deliver_handles:
  assumes "deliver he perm onf bo dr ev t self w = Some (Inr c')" "retry_agrees loc ns (Waiting t, self, w)"
  shows "\<exists>ks. handles he (rc_tag (ev_context ev)) (ev_shutdown ev) (rw_queue w) {t} (retry_queue c') (retry_waits c') ks \<and>
     retry_agrees loc (ns @ map snd ks) c'"
proof -
  obtain aw' self' w' where c': "c' = (aw', self', w')" by (cases c')
  let ?n = "\<lambda>op. snd (Notify (ev_ok ev) (write_rpc ev op))" and ?q = "shut_queue (ev_shutdown ev) (rw_queue w)"
  let ?tag = "rc_tag (ev_context ev)"
  have "shut (ev_shutdown ev) (rw_queue w) = ?q" by (simp add: shut_def shut_queue_def)
  with assms(1) obtain op w1 q where 1: "FindOperation he t (rw_queue w) = Inr op"
    "settle 4 he perm onf bo dr (ev_context ev) (Inr (Ready (?n op), self, w\<lparr>rw_queue := ?q\<rparr>)) = Some (Inr (aw', self', w1))"
    "ForgetOperation he t (rw_queue w1) = Inr q" "w' = w1\<lparr>rw_queue := q\<rparr>"
    by (auto simp: c' deliver_def split: sum.splits)
  have "retry_advances he loc ?tag ?q (ns @ [?n op]) (Ready (?n op), self, w\<lparr>rw_queue := ?q\<rparr>)"
    using assms(2) by (intro advances_none) (simp_all add: retry_agrees_def)
  from settle_advances [OF 1(2) this] obtain ms where ms:
    "started he ?tag ?q (rw_queue w1) (await_tags aw') ms" "retry_agrees loc ((ns @ [?n op]) @ ms) (aw', self', w1)"
    by (auto simp: advances_def)
  have "retry_agrees loc (ns @ map snd ((t, ?n op) # map (Pair ?tag) ms)) c'"
    using ms(2) 1(4) by (simp add: c' retry_agrees_def comp_def)
  moreover have "handles he ?tag (ev_shutdown ev) (rw_queue w) {t} (rw_queue w') (await_tags aw') ((t, ?n op) # map (Pair ?tag) ms)"
    unfolding handles_def using 1(1,3,4) ms(1) keeps_started_write_rpc [of ev] by auto
  ultimately show ?thesis by (auto simp: c')
qed

lemma retry_handle_ok:
  assumes "retry_handle he perm onf bo dr ev c = Some (Inr c')" "retry_agrees loc ns c"
  shows "\<exists>ks. handles he (rc_tag (ev_context ev)) (ev_shutdown ev) (retry_queue c) (retry_waits c) (retry_queue c') (retry_waits c') ks \<and>
     retry_agrees loc (ns @ map snd ks) c'"
proof -
  obtain aw self w where c: "c = (aw, self, w)" by (cases c)
  show ?thesis
  proof (cases "\<exists>t. aw = Waiting t")
    case True
    then obtain t where t: "aw = Waiting t" by blast
    have "deliver he perm onf bo dr ev t self w = Some (Inr c')" using assms(1) by (simp add: c t retry_handle_def)
    from deliver_handles [OF this assms(2) [unfolded c t]] show ?thesis by (simp add: c t)
  next
    case False
    then have "c' = c" using assms(1) by (auto simp: c retry_handle_def split: await.splits)
    with assms(2) show ?thesis by (intro exI [of _ "[]"]) (simp add: handles_def)
  qed
qed

interpretation retry_client: queue_client he retry_queue retry_waits "retry_agrees loc" "retry_handle he perm onf bo dr"
  "\<lambda>ev. rc_tag (ev_context ev)" ev_shutdown
  for he :: bool and loc perm onf bo dr
  by unfold_locales (rule retry_handle_ok)

lemma Start_advances:
  assumes "RetryAsyncUnaryRpc_Start he perm onf bo dr c w loc p b idem req = Some (Inr st)"
  shows "retry_advances he loc (rc_tag c) (rw_queue w) [] st"
proof -
  let ?r = "StartIteration he dr c (mk_RetryAsyncUnaryRpc loc p b idem req) w"
  have s: "settle 4 he perm onf bo dr c ?r = Some (Inr st)" using assms by (simp add: RetryAsyncUnaryRpc_Start_def)
  then obtain st1 where r: "?r = Inr st1" by (cases ?r) (auto simp: numeral_eq_Suc)
  from settle_advances [OF s [unfolded r] StartIteration_advances [OF r, of loc]] show ?thesis by (simp add: mk_RetryAsyncUnaryRpc_def)
qed

section \<open>Properties\<close>

text \<open>
  C15: the asynchronous retry loop on the concurrent event loop. Wherever the event loop is, as long as one
  of its threads polls, a call of \<^verbatim>\<open>StartRetryAsyncUnaryRpc\<close> with the error-count and exponential backoff
  policies is carried through by steps of the event loop: the promise is satisfied after at most
  \<open>2 * maximum + 1\<close> completions, with what the event loop notified last (the location and the reason added to
  an error), no internal assertion of the queue fails, gRPC is not misused, all threads are back where they
  were, exactly the operations pending before are pending after, and every other operation ever started has
  been notified.
\<close>

theorem retry_loop_on_event_loop:
  fixes w :: "('q, 'r) retry_world"
  assumes "uniform_in_range uniform" "scaling_ok m k" "backoff_usable m k b" "0 \<le> maximum" "maximum + 1 < 2 ^ 31"
    "rw_calls w = []" "distinct (rc_tag c # event_tags evs)"
    "set (rc_tag c # event_tags evs) \<inter> fst ` set (pending_ops (rw_queue w)) = {}" "2 * nat maximum + 1 \<le> length evs"
    "(step he)\<^sup>*\<^sup>* (system_init n) s" "Polling \<in> set (sys_threads s)" "sys_impl s = rw_queue w"
  shows "\<exists>st self w' s' v ks.
     RetryAsyncUnaryRpc_Start he perm (count_on_failure perm) (Backoff_Policy.OnCompletion uniform fresh) dr c w
        loc (mk_LimitedErrorCount maximum) b idem req = Some (Inr st) \<and>
     retry_run he perm (count_on_failure perm) (Backoff_Policy.OnCompletion uniform fresh) dr evs (Inr st)
       = Some (Inr (Finished, self, w')) \<and> final_result self = Some v \<and>
     (step he)\<^sup>*\<^sup>* s s' \<and> sys_impl s' = rw_queue w' \<and> sys_threads s' = sys_threads s \<and>
     sys_notified s' = sys_notified s @ ks \<and> ks \<noteq> [] \<and> retry_result loc (snd (last ks)) v \<and>
     (\<forall>e. Threw e \<notin> set (sys_threads s')) \<and> \<not> grpc_misused s' \<and>
     fst ` set (pending_ops (sys_impl s')) = fst ` set (pending_ops (sys_impl s)) \<and>
     (\<forall>t. t \<notin> fst ` set (pending_ops (sys_impl s)) \<longrightarrow>
        count_list (sys_started s') t = count_list (map fst (sys_notified s')) t)"
proof -
  let ?on = "count_on_failure perm" and ?bo = "Backoff_Policy.OnCompletion uniform fresh"
  obtain st self w' v where
    st: "RetryAsyncUnaryRpc_Start he perm ?on ?bo dr c w loc (mk_LimitedErrorCount maximum) b idem req = Some (Inr st)"
    and run: "retry_run he perm ?on ?bo dr evs (Inr st) = Some (Inr (Finished, self, w'))"
    and res: "final_result self = Some v"
    using Start_run_completes [OF assms(1-8), of he perm fresh dr loc idem req] assms(9) by (metis option.exhaust)
  have tags: "rc_tag c \<notin> tags (rw_queue w)" "distinct (map (\<lambda>ev. rc_tag (ev_context ev)) evs)"
      "(\<lambda>ev. rc_tag (ev_context ev)) ` set evs \<inter> (tags (rw_queue w) \<union> {rc_tag c}) = {}"
    using assms(7,8) by (auto simp: event_tags_def)
  obtain i where i: "i < length (sys_threads s)" "sys_threads s ! i = Polling" using assms(11) by (auto simp: in_set_conv_nth)
  obtain ms where ms: "started he (rc_tag c) (rw_queue w) (retry_queue st) (retry_waits st) ms" "retry_agrees loc ms st"
    using Start_advances [OF st] by (auto simp: advances_def)
  obtain s' ks where s': "(step he)\<^sup>*\<^sup>* s s'" "sys_impl s' = rw_queue w'" "sys_threads s' = sys_threads s"
      "tags (rw_queue w') = tags (rw_queue w)" "sys_notified s' = sys_notified s @ ks" "retry_agrees loc (map snd ks) (Finished, self, w')"
    using retry_client.client_started_simulated [OF ms tags(1) assms(12) i run [unfolded retry_run_client] tags(2,3)] by auto
  have ks: "ks \<noteq> []" "retry_result loc (snd (last ks)) v" using s'(6) res by (auto simp: retry_agrees_def last_map)
  have r: "(step he)\<^sup>*\<^sup>* (system_init n) s'" using assms(10) s'(1) by (rule rtranclp_trans)
  from reachable_facts [OF r] s'(1-5) ks assms(12) st run res show ?thesis by metis
qed

theorem retry_loop_on_event_loop_witness:
  "\<exists>st self w' s' v ks.
     RetryAsyncUnaryRpc_Start True (\<lambda>s. False) (count_on_failure (\<lambda>s. False))
       (Backoff_Policy.OnCompletion (\<lambda>a b g. (a, g)) (0 :: nat)) 0 \<lparr>rc_now = 0, rc_tag = 0\<rparr> example_world
        ''loc'' (mk_LimitedErrorCount 1) example_backoff True (5 :: nat) = Some (Inr st) \<and>
     retry_run True (\<lambda>s. False) (count_on_failure (\<lambda>s. False)) (Backoff_Policy.OnCompletion (\<lambda>a b g. (a, g)) (0 :: nat)) 0
       (round_events example_rounds) (Inr st) = Some (Inr (Finished, self, w')) \<and> final_result self = Some v \<and>
     (step True)\<^sup>*\<^sup>* (system_init 2) s' \<and> sys_impl s' = rw_queue w' \<and> sys_threads s' = [Polling, Polling] \<and>
     sys_notified s' = ks \<and> retry_result ''loc'' (snd (last ks)) v \<and> pending_ops (rw_queue w') = []"
proof -
  let ?c = "\<lparr>rc_now = 0, rc_tag = 0\<rparr>" and ?s = "system_init 2 :: int system"
  have s: "sys_impl ?s = rw_queue example_world" "sys_threads ?s = [Polling, Polling]" "sys_notified ?s = []"
    by (simp_all add: system_init_def example_world_def numeral_2_eq_2)
  have "0 \<le> (1::int)" "(1::int) + 1 < 2 ^ 31" "distinct (rc_tag ?c # event_tags (round_events example_rounds))"
    "set (rc_tag ?c # event_tags (round_events example_rounds)) \<inter> fst ` set (pending_ops (rw_queue example_world)) = {}"
    "2 * nat 1 + 1 \<le> length (round_events example_rounds)" "Polling \<in> set (sys_threads ?s)"
    by (simp_all add: example_facts s) (simp add: example_rounds_def round_events_def)
  from retry_loop_on_event_loop [OF example_facts(1-3) this(1,2) example_facts(4) this(3-5) rtranclp.rtrancl_refl this(6) s(1),
      of True "\<lambda>s. False" 0 0 "''loc''" True 5]
  show ?thesis unfolding s example_facts(6) append_Nil by (elim exE conjE) (intro exI conjI; (assumption | simp))
qed

end
