(* ===== verification/Stream_On_Loop.thy ===== *)
theory Stream_On_Loop
  imports Read_Stream Queue_Client
begin

text \<open>
  Read streams on the event loop. A stream is a client of the queue (\<open>queue_client\<close>): in between two of its operations it
  may wait for the user's answer, which arrives on any thread, and starts the next operation from outside the event loop.
\<close>

section \<open>The stream as a client\<close>

text \<open>The operation the stream waits for; none while it waits for the user.\<close>

fun stream_await_tags :: "'r stream_await \<Rightarrow> nat set" where
  "stream_await_tags (Waiting t) = {t}"
| "stream_await_tags _ = {}"

definition stream_queue :: "'r stream_await \<times> AsyncReadStreamImpl \<times> 'r stream_world \<Rightarrow> 'r CompletionQueueImpl" where
  "stream_queue st = sw_queue (snd (snd st))"

definition stream_waits :: "'r stream_await \<times> AsyncReadStreamImpl \<times> 'r stream_world \<Rightarrow> nat set" where
  "stream_waits st = stream_await_tags (fst st)"

text \<open>What the callbacks of the user get from the notifications of the stream's operations.\<close>

fun read_by :: "'r notification \<Rightarrow> 'r list" where
  "read_by (OnRead ok r) = (if ok then [r] else [])"
| "read_by _ = []"

fun finished_by :: "'r notification \<Rightarrow> Status list" where
  "finished_by (OnFinish ok status) = [if ok then status else mk_Status kCancelled ''call cancelled'']"
| "finished_by _ = []"

definition reads :: "'r notification list \<Rightarrow> 'r list" where
  "reads ns = concat (map read_by ns)"

definition finals :: "'r notification list \<Rightarrow> Status list" where
  "finals ns = concat (map finished_by ns)"

lemma view_simps [simp]:
  "reads [] = []" "finals [] = []" "reads [n] = read_by n" "finals [n] = finished_by n"
  "reads (ns @ ms) = reads ns @ reads ms" "finals (ns @ ms) = finals ns @ finals ms"
  by (simp_all add: reads_def finals_def)

text \<open>A notification that the stream has still to be called with.\<close>

fun stream_ready :: "'r stream_await \<Rightarrow> 'r notification list" where
  "stream_ready (Ready n) = [n]"
| "stream_ready _ = []"

definition stream_agrees :: "'r notification list \<Rightarrow> 'r stream_await \<times> AsyncReadStreamImpl \<times> 'r stream_world \<Rightarrow> bool" where
  "stream_agrees ns st \<longleftrightarrow> (case st of (aw, self, w) \<Rightarrow>
     sw_on_read w @ reads (stream_ready aw) = reads ns \<and> sw_on_finish w @ finals (stream_ready aw) = finals ns)"

abbreviation stream_advances where
  "stream_advances he \<equiv> advances he stream_queue stream_waits stream_agrees"

lemma stream_client_simps [simp]: "stream_queue (aw, self, w) = sw_queue w" "stream_waits (aw, self, w) = stream_await_tags aw"
  by (simp_all add: stream_queue_def stream_waits_def)

lemma stream_run_client: "stream_run he dr evs (Inr st) = client_run (stream_deliver he dr) evs st"
proof (induction evs arbitrary: st)
  case (Cons ev evs)
  have "stream_run he dr evs (Inl e) = Some (Inl e)" for e by (cases evs) auto
  with Cons show ?case by (auto simp del: stream_deliver.simps split: option.splits sum.splits)
qed simp

section \<open>The contract\<close>

lemma start_adapter_advances:
  assumes "start_adapter he tag ad call self w = Inr st" "sw_on_read w = reads ns" "sw_on_finish w = finals ns"
  shows "stream_advances he tag (sw_queue w) ns st"
proof -
  obtain x where "StartOperation he tag (StreamOp ad) (\<lambda>op. op) (sw_queue w) = (Inr x, stream_queue st)"
      "stream_waits st = (if x = None then {tag} else {})" "stream_agrees (ns @ (case x of None \<Rightarrow> [] | Some n \<Rightarrow> [n])) st"
    using assms by (auto simp: start_adapter_def stream_agrees_def split: prod.splits sum.splits option.splits if_splits)
  then show ?thesis by (intro advances_one [where op = "StreamOp ad" and st = "\<lambda>op. op"]) simp_all
qed

lemma stream_continue_advances:
  assumes "stream_continue he dr tag n self w = Inr st" "stream_agrees ns (Ready n, self, w)"
  shows "stream_advances he tag (sw_queue w) ns st"
proof -
  consider ad call where "start_adapter he tag ad call self w = Inr st" "read_by n = []" "finished_by n = []"
    | "stream_waits st = {}" "stream_queue st = sw_queue w" "stream_agrees ns st"
    using assms
    by (auto simp: stream_continue_def stream_OnStart_def stream_OnRead_def stream_OnFinish_def stream_OnDiscard_def
        Finish_def Read_def Discard_def stream_agrees_def split: notification.splits if_splits)
  then show ?thesis
  proof cases
    case 1
    with start_adapter_advances [OF 1(1)] assms(2) show ?thesis by (simp add: stream_agrees_def)
  next
    case 2
    then show ?thesis by (intro advances_none)
  qed
qed

lemma OnAnswer_advances:
  assumes "OnAnswer he dr tag answer self w = Inr st" "sw_on_read w = reads ns" "sw_on_finish w = finals ns"
  shows "stream_advances he tag (sw_queue w) ns st"
proof (cases answer)
  case None
  with assms show ?thesis by (intro advances_none) (auto simp: OnAnswer_def stream_agrees_def)
next
  case (Some keep)
  let ?w = "if keep then w else w\<lparr>sw_grpc := sw_grpc w @ [TryCancel]\<rparr>"
  have "start_adapter he tag (if keep then NotifyRead dr else NotifyDiscard dr) ReadCall self ?w = Inr st"
    using assms(1) by (cases keep; cases "context_set self")
      (simp_all add: Some OnAnswer_def AsyncReadStreamImpl_Cancel_def Read_def Discard_def)
  from start_adapter_advances [OF this, of ns] assms(2,3) show ?thesis by (cases keep) simp_all
qed

lemma stream_settle_advances:
  "stream_settle k he dr tag (Inr st) = Some (Inr st') \<Longrightarrow> stream_advances he tag q ns st \<Longrightarrow> stream_advances he tag q ns st'"
proof (induction k arbitrary: st)
  case (Suc k)
  obtain aw self w where st: "st = (aw, self, w)" by (cases st)
  show ?case
  proof (cases "\<exists>n. aw = Ready n")
    case True
    then obtain n where aw: "aw = Ready n" by blast
    with Suc.prems(1) have r: "stream_settle k he dr tag (stream_continue he dr tag n self w) = Some (Inr st')" by (simp add: st)
    then obtain st1 where c: "stream_continue he dr tag n self w = Inr st1"
      by (cases "stream_continue he dr tag n self w"; cases k) auto
    have "stream_advances he tag q ns st1"
      by (rule advances_trans [OF Suc.prems(2)])
        (use stream_continue_advances [OF c] in \<open>simp_all add: st aw\<close>)
    from Suc.IH [OF r [unfolded c] this] show ?thesis .
  next
    case False
    with Suc.prems show ?thesis by (cases aw) (auto simp: st)
  qed
qed simp

lemma stream_settle_result_advances:
  assumes "stream_settle (Suc k) he dr tag r = Some (Inr st')" "\<And>st. r = Inr st \<Longrightarrow> stream_advances he tag q ns st"
  shows "stream_advances he tag q ns st'"
proof -
  obtain st where r: "r = Inr st" using assms(1) by (cases r) auto
  from stream_settle_advances [OF assms(1) [unfolded r] assms(2) [OF r]] show ?thesis .
qed

lemma queue_down_queue [simp]: "sw_queue (queue_down down w) = shut_queue down (sw_queue w)"
  by (simp add: queue_down_def shut_queue_def)

lemma stream_forget_Inr:
  "stream_forget he t r = Inr (aw, self, w') \<Longrightarrow>
     \<exists>w1 q. r = Inr (aw, self, w1) \<and> ForgetOperation he t (sw_queue w1) = Inr q \<and> w' = w1\<lparr>sw_queue := q\<rparr>"
  by (cases r) (auto simp: stream_forget_def bindR_def split: sum.splits)

definition stream_handles where
  "stream_handles he ev c ns c' \<longleftrightarrow>
     (\<exists>ks. handles he (ev_tag ev) (ev_down ev) (stream_queue c) (stream_waits c) (stream_queue c') (stream_waits c') ks \<and>
        stream_agrees (ns @ map snd ks) c')"

lemma keeps_started_write_adapter: "keeps_started (write_adapter r status)"
  by (auto simp: keeps_started_def write_adapter_def split: AsyncGrpcOperation.splits stream_adapter.splits)

lemma completion_ok:
  assumes "stream_deliver he dr (Completion down tag ok r status) (Waiting t, self, w) = Some (Inr c')"
    "stream_agrees ns (Waiting t, self, w)"
  shows "stream_handles he (Completion down tag ok r status) (Waiting t, self, w) ns c'"
proof -
  obtain aw' self' w' where c': "c' = (aw', self', w')" by (cases c')
  let ?n = "\<lambda>op. snd (Notify ok (write_adapter r status op))"
  let ?w = "(queue_down down w)\<lparr>sw_grpc := sw_grpc w @ [Completed ok]\<rparr>"
  obtain op w1 q where 1: "FindOperation he t (sw_queue w) = Inr op"
    "stream_settle 4 he dr tag (Inr (Ready (?n op), self, ?w)) = Some (Inr (aw', self', w1))"
    "ForgetOperation he t (sw_queue w1) = Inr q" "w' = w1\<lparr>sw_queue := q\<rparr>"
    using assms(1) by (auto simp: c' split: sum.splits dest!: stream_forget_Inr)
  have "stream_advances he tag (shut_queue down (sw_queue w)) (ns @ [?n op]) (Ready (?n op), self, ?w)"
    using assms(2) by (intro advances_none) (simp_all add: stream_agrees_def queue_down_def shut_queue_def)
  from stream_settle_advances [OF 1(2) this] obtain ms where ms:
    "started he tag (shut_queue down (sw_queue w)) (sw_queue w1) (stream_await_tags aw') ms" "stream_agrees ((ns @ [?n op]) @ ms) (aw', self', w1)"
    by (auto simp: advances_def)
  have "stream_agrees (ns @ map snd ((t, ?n op) # map (Pair tag) ms)) c'"
    using ms(2) 1(4) by (simp add: c' stream_agrees_def comp_def)
  moreover have "handles he tag down (sw_queue w) {t} (sw_queue w') (stream_await_tags aw') ((t, ?n op) # map (Pair tag) ms)"
    unfolding handles_def using 1(1,3,4) ms(1) keeps_started_write_adapter [of r status] by auto
  ultimately show ?thesis unfolding stream_handles_def by (auto simp: c')
qed

lemma answer_ok:
  assumes "stream_deliver he dr (Answer down tag answer) (AwaitAnswer, self, w) = Some (Inr c')" "stream_agrees ns (AwaitAnswer, self, w)"
  shows "stream_handles he (Answer down tag answer) (AwaitAnswer, self, w) ns c'"
proof -
  have "stream_advances he tag (shut_queue down (sw_queue w)) ns c'"
  proof (rule stream_settle_result_advances)
    show "stream_settle (Suc 3) he dr tag (OnAnswer he dr tag answer self (queue_down down w)) = Some (Inr c')"
      using assms(1) by (simp del: stream_settle.simps)
  next
    fix st
    assume "OnAnswer he dr tag answer self (queue_down down w) = Inr st"
    from OnAnswer_advances [OF this] assms(2) show "stream_advances he tag (shut_queue down (sw_queue w)) ns st"
      by (simp add: stream_agrees_def)
  qed
  then obtain ms where "started he tag (shut_queue down (sw_queue w)) (stream_queue c') (stream_waits c') ms" "stream_agrees (ns @ ms) c'"
    by (auto simp: advances_def)
  then show ?thesis
    by (auto simp: stream_handles_def handles_def comp_def intro!: exI [of _ "map (Pair tag) ms"])
qed

lemma stream_deliver_ok:
  assumes "stream_deliver he dr ev c = Some (Inr c')" "stream_agrees ns c"
  shows "stream_handles he ev c ns c'"
proof -
  obtain aw self w where c: "c = (aw, self, w)" by (cases c)
  have idle: "c' = c \<Longrightarrow> ?thesis" using assms(2) by (auto simp: stream_handles_def handles_def intro!: exI [of _ "[]"])
  show ?thesis
  proof (cases ev)
    case (Completion down tag ok r status)
    show ?thesis
    proof (cases "\<exists>t. aw = Waiting t")
      case True
      then obtain t where t: "aw = Waiting t" by blast
      from completion_ok [OF assms [unfolded Completion c t]] show ?thesis unfolding Completion c t .
    next
      case False
      with assms show ?thesis by (intro idle) (cases aw; simp add: Completion c)
    qed
  next
    case (Answer down tag answer)
    show ?thesis
    proof (cases "aw = AwaitAnswer")
      case True
      from answer_ok [OF assms [unfolded Answer c True]] show ?thesis unfolding Answer c True .
    next
      case False
      with assms show ?thesis by (intro idle) (cases aw; simp add: Answer c)
    qed
  qed
qed

interpretation stream_client: queue_client he stream_queue stream_waits stream_agrees "stream_deliver he dr" ev_tag ev_down
  for he :: bool and dr
  by unfold_locales (use stream_deliver_ok in \<open>simp add: stream_handles_def\<close>)

lemma MakeStreamingReadRpc_advances:
  assumes "MakeStreamingReadRpc he dr t (new_world q) = Some (Inr st)"
  shows "stream_advances he t q [] st"
proof (rule stream_settle_result_advances)
  show "stream_settle (Suc 3) he dr t (AsyncReadStreamImpl_Start he t mk_AsyncReadStreamImpl (new_world q)) = Some (Inr st)"
    using assms by (simp add: MakeStreamingReadRpc_def del: stream_settle.simps)
next
  fix st1
  assume "AsyncReadStreamImpl_Start he t mk_AsyncReadStreamImpl (new_world q) = Inr st1"
  then show "stream_advances he t q [] st1"
    unfolding AsyncReadStreamImpl_Start_def using start_adapter_advances [where w = "new_world q" and ns = "[]"]
    by (simp add: new_world_def)
qed

section \<open>Properties\<close>

text \<open>
  C18: a read stream on the concurrent event loop. Wherever the event loop is, as long as one of its threads polls,
  a call of \<^verbatim>\<open>MakeStreamingReadRpc\<close>, whatever gRPC reports, the user answers and whenever the queue is shut
  down, is carried out by steps of the event loop, during which no internal assertion fails, gRPC is not
  misused, neither by the queue nor by the stream, and all threads come back; \<open>on_read\<close> and \<open>on_finish\<close> got what the
  event loop notified, in its order; of the stream's own operations only the one it waits for
  is left pending, none once \<open>on_finish\<close> was called, and all that are not pending have been notified.
\<close>

theorem read_stream_on_event_loop:
  assumes "distinct (t # map ev_tag evs)" "set (t # map ev_tag evs) \<inter> fst ` set (pending_ops q) = {}"
    "(step he)\<^sup>*\<^sup>* (system_init n) s" "Polling \<in> set (sys_threads s)" "sys_impl s = q"
  shows "\<exists>st aw self w s' ks. MakeStreamingReadRpc he dr t (new_world q) = Some (Inr st) \<and>
     stream_run he dr evs (Inr st) = Some (Inr (aw, self, w)) \<and> protocol (sw_grpc w) \<noteq> None \<and>
     (sw_on_finish w \<noteq> [] \<longleftrightarrow> aw = Finished) \<and>
     (step he)\<^sup>*\<^sup>* s s' \<and> sys_impl s' = sw_queue w \<and> sys_threads s' = sys_threads s \<and>
     sys_notified s' = sys_notified s @ ks \<and> sw_on_read w = reads (map snd ks) \<and> sw_on_finish w = finals (map snd ks) \<and>
     (\<forall>e. Threw e \<notin> set (sys_threads s')) \<and> \<not> grpc_misused s' \<and>
     fst ` set (pending_ops (sys_impl s')) =
       fst ` set (pending_ops (sys_impl s)) \<union> (case aw of Waiting t' \<Rightarrow> {t'} | _ \<Rightarrow> {}) \<and>
     (\<forall>t'. t' \<notin> fst ` set (pending_ops (sys_impl s')) \<longrightarrow>
        count_list (sys_started s') t' = count_list (map fst (sys_notified s')) t')"
proof -
  obtain st aw self w where st: "MakeStreamingReadRpc he dr t (new_world q) = Some (Inr st)"
    and run: "stream_run he dr evs (Inr st) = Some (Inr (aw, self, w))" and ok: "stream_ok (tags q) (aw, self, w)"
    using read_stream_runs [OF assms(1,2), of he dr] by metis
  have fresh: "t \<notin> tags q" "distinct (map ev_tag evs)" "ev_tag ` set evs \<inter> (tags q \<union> {t}) = {}"
    using assms(1,2) by auto
  obtain i where i: "i < length (sys_threads s)" "sys_threads s ! i = Polling" using assms(4) by (auto simp: in_set_conv_nth)
  obtain ms where ms: "started he t q (stream_queue st) (stream_waits st) ms" "stream_agrees ms st"
    using MakeStreamingReadRpc_advances [OF st] by (auto simp: advances_def)
  obtain s' ks where s': "(step he)\<^sup>*\<^sup>* s s'" "sys_impl s' = sw_queue w" "sys_threads s' = sys_threads s"
      "tags (sw_queue w) = tags q \<union> stream_await_tags aw" "sys_notified s' = sys_notified s @ ks" "stream_agrees (map snd ks) (aw, self, w)"
    using stream_client.client_started_simulated [OF ms fresh(1) assms(5) i run [unfolded stream_run_client] fresh(2,3)]
    by (auto simp: stream_queue_def stream_waits_def)
  have waits: "stream_await_tags aw = (case aw of Waiting t' \<Rightarrow> {t'} | _ \<Rightarrow> {})" and "stream_ready aw = []"
    using ok by (cases aw; simp add: stream_ok_def)+
  then have view: "sw_on_read w = reads (map snd ks)" "sw_on_finish w = finals (map snd ks)"
    using s'(6) by (simp_all add: stream_agrees_def)
  have "(step he)\<^sup>*\<^sup>* (system_init n) s'" using assms(3) s'(1) by (rule rtranclp_trans)
  from reachable_facts [OF this] have facts: "\<forall>e. Threw e \<notin> set (sys_threads s')" "\<not> grpc_misused s'"
    "\<forall>t'. t' \<notin> tags (sys_impl s') \<longrightarrow> count_list (sys_started s') t' = count_list (map fst (sys_notified s')) t'" by blast+
  show ?thesis
    by (rule exI [of _ st], rule exI [of _ aw], rule exI [of _ self], rule exI [of _ w], rule exI [of _ s'], rule exI [of _ ks])
      (use st run stream_ok_finishes [OF ok] s' view facts assms(5) waits in simp)
qed

theorem read_stream_on_event_loop_witness:
  "\<exists>st aw self w s' ks. MakeStreamingReadRpc True (0 :: int) 1 (new_world mk_CompletionQueueImpl) = Some (Inr st) \<and>
     stream_run True 0 [Completion False 2 True 0 \<lparr>error_code = GRPC_OK, error_message = []\<rparr>] (Inr st) = Some (Inr (aw, self, w)) \<and>
     (step True)\<^sup>*\<^sup>* (system_init 2) s' \<and> sys_impl s' = sw_queue w \<and> sys_threads s' = [Polling, Polling] \<and>
     sys_notified s' = ks \<and> sw_on_read w = reads (map snd ks) \<and> \<not> grpc_misused s'"
proof -
  let ?s = "system_init 2 :: int system" and ?evs = "[Completion False 2 True (0 :: int) \<lparr>error_code = GRPC_OK, error_message = []\<rparr>]"
  have s: "sys_impl ?s = mk_CompletionQueueImpl" "sys_threads ?s = [Polling, Polling]" "sys_notified ?s = []"
    by (simp_all add: system_init_def numeral_2_eq_2)
  have "distinct (1 # map ev_tag ?evs)" "set (1 # map ev_tag ?evs) \<inter> fst ` set (pending_ops (mk_CompletionQueueImpl :: int CompletionQueueImpl)) = {}"
    "Polling \<in> set (sys_threads ?s)"
    by (simp_all add: mk_CompletionQueueImpl_def s)
  from read_stream_on_event_loop [OF this(1,2) rtranclp.rtrancl_refl this(3) s(1), of True 0]
  show ?thesis unfolding s append_Nil by (elim exE conjE) (intro exI conjI; (assumption | simp))
qed

end
