(* ===== verification/Testing_Util.thy ===== *)
theory Testing_Util
  imports Log_Race Retry_Policy Completion_Queue
begin

text \<open>
  The helpers of the unit tests, \<^verbatim>\<open>testing_util\<close>: the backend that captures log lines, the checks of
  exceptions and statuses, the check of a deadline, the type that counts its special members, and
  the mock of the completion queue. What googletest records is the number of failed expectations.
\<close>

section \<open>Capturing log lines\<close>

abbreviation newline :: char where
  "newline \<equiv> CHR 0x0A"

text \<open>\<^verbatim>\<open>std::getline\<close> on a string stream: it fails when no character is left, and drops the delimiter.\<close>

fun getline :: "string \<Rightarrow> (string \<times> string) option" where
  "getline [] = None"
| "getline s = Some (takeWhile (\<lambda>c. c \<noteq> newline) s, drop 1 (dropWhile (\<lambda>c. c \<noteq> newline) s))"

lemma getline_shorter: "getline s = Some (line, rest) \<Longrightarrow> length rest < length s"
  using length_dropWhile_le [of "\<lambda>c. c \<noteq> newline" s] by (cases s) auto

function capture_loop :: "string \<Rightarrow> string list" where
  "capture_loop is = (case getline is of None \<Rightarrow> [] | Some (line, rest) \<Rightarrow> line # capture_loop rest)"
  by pat_completeness auto
termination
  by (relation "measure length") (auto dest: getline_shorter)

declare capture_loop.simps [simp del]

record CaptureLogLinesBackend =
  log_lines :: "string list"

definition CaptureLogLinesBackend_Process :: "LogRecord \<Rightarrow> CaptureLogLinesBackend \<Rightarrow> CaptureLogLinesBackend" where
  "CaptureLogLinesBackend_Process lr self = self\<lparr>log_lines := log_lines self @ capture_loop (lr_message lr)\<rparr>"

definition CaptureLogLinesBackend_ProcessWithOwnership :: "LogRecord \<Rightarrow> CaptureLogLinesBackend \<Rightarrow> CaptureLogLinesBackend" where
  "CaptureLogLinesBackend_ProcessWithOwnership lr self = CaptureLogLinesBackend_Process lr self"

text \<open>As a backend of the sink: the user's state holds one object per backend.\<close>

definition capture_backend :: "('b, 'b \<Rightarrow> CaptureLogLinesBackend) user_backend" where
  "capture_backend x call w = (case w of (s, c, u) \<Rightarrow>
     Inr (s, c, u(x := (case call of
       Process r \<Rightarrow> CaptureLogLinesBackend_Process r (u x)
     | ProcessWithOwnership r \<Rightarrow> CaptureLogLinesBackend_ProcessWithOwnership r (u x)))))"

lemma capture_loop_Cons: "s \<noteq> [] \<Longrightarrow>
   capture_loop s = takeWhile (\<lambda>c. c \<noteq> newline) s # capture_loop (drop 1 (dropWhile (\<lambda>c. c \<noteq> newline) s))"
  by (subst capture_loop.simps) (cases s; simp)

lemma capture_loop_Nil [simp]: "capture_loop [] = []"
  by (simp add: capture_loop.simps)

lemma capture_loop_no_newline: "line \<in> set (capture_loop s) \<Longrightarrow> newline \<notin> set line"
proof (induction s rule: capture_loop.induct)
  case (1 s)
  show ?case
  proof (cases "s = []")
    case False
    then have "getline s = Some (takeWhile (\<lambda>c. c \<noteq> newline) s, drop 1 (dropWhile (\<lambda>c. c \<noteq> newline) s))" by (cases s) auto
    with 1 show ?thesis by (auto simp: capture_loop_Cons [OF False] dest: set_takeWhileD)
  qed (use 1 in simp)
qed

lemma capture_loop_join:
  "concat (map (\<lambda>line. line @ [newline]) (capture_loop s)) = (if s = [] \<or> last s = newline then s else s @ [newline])"
proof (induction s rule: capture_loop.induct)
  case (1 s)
  let ?line = "takeWhile (\<lambda>c. c \<noteq> newline) s" and ?rest = "dropWhile (\<lambda>c. c \<noteq> newline) s"
  show ?case
  proof (cases "s = []")
    case False
    then have get: "getline s = Some (?line, drop 1 ?rest)" by (cases s) auto
    have ih: "concat (map (\<lambda>line. line @ [newline]) (capture_loop (drop 1 ?rest))) =
        (if drop 1 ?rest = [] \<or> last (drop 1 ?rest) = newline then drop 1 ?rest else drop 1 ?rest @ [newline])"
      using 1 [OF get refl] by simp
    have s: "?line @ ?rest = s" by (rule takeWhile_dropWhile_id)
    show ?thesis
    proof (cases "?rest = []")
      case True
      then have "?line = s" "\<forall>c \<in> set s. c \<noteq> newline" using s by (auto simp: dropWhile_eq_Nil_conv)
      then show ?thesis unfolding capture_loop_Cons [OF False] True using False by simp
    next
      case rest: False
      then have "hd ?rest = newline" using hd_dropWhile [of "\<lambda>c. c \<noteq> newline" s] by simp
      then have "?rest = newline # drop 1 ?rest" using rest by (cases ?rest) auto
      then obtain line more where split: "s = line @ newline # more" "?line = line" "drop 1 ?rest = more" using s by metis
      show ?thesis unfolding capture_loop_Cons [OF False] split(2,3) using ih [unfolded split(3)] by (simp add: split(1))
    qed
  qed simp
qed

section \<open>Expectations\<close>

datatype AssertionResult = AssertionSuccess | AssertionFailure string

definition IsOkPredFormat :: "string \<Rightarrow> Status \<Rightarrow> AssertionResult" where
  "IsOkPredFormat expr status =
     (if Status_ok status then AssertionSuccess
      else AssertionFailure (''Value of: '' @ expr @ [newline] @ ''Expected: is OK'' @ [newline] @ ''Actual: '' @ StatusWhat status))"

definition IsOkPredFormat_StatusOr :: "string \<Rightarrow> 'a StatusOr \<Rightarrow> AssertionResult" where
  "IsOkPredFormat_StatusOr expr status_or =
     (if StatusOr_ok status_or then AssertionSuccess else IsOkPredFormat expr (so_status status_or))"

text \<open>
  A functor under test returns, throws or terminates the program. The pattern for the death of the
  program is met by a message that contains the text, as none of its characters is special.
\<close>

definition ExpectFutureError :: "bool \<Rightarrow> (future_errc \<Rightarrow> string) \<Rightarrow> fault + 'a \<Rightarrow> future_errc \<Rightarrow> nat" where
  "ExpectFutureError have_ex errc_message functor code =
     (if have_ex then
        (case functor of
           Inl (Abn (Thrown (future_error ec))) \<Rightarrow> if ec = code then 0 else 1
         | _ \<Rightarrow> 1)
      else
        (case functor of
           Inl (Abn (Terminated msg)) \<Rightarrow> if sublist (''future_error['' @ errc_message code @ '']'') msg then 0 else 1
         | _ \<Rightarrow> 1))"

text \<open>\<open>is_expected\<close> selects the exceptions of the expected type; \<open>validator\<close> counts its failures.\<close>

definition ExpectException ::
  "bool \<Rightarrow> (cpp_exception \<Rightarrow> bool) \<Rightarrow> (cpp_exception \<Rightarrow> nat) \<Rightarrow> fault + 'a \<Rightarrow> string \<Rightarrow> nat" where
  "ExpectException have_ex is_expected validator expression expected_message =
     (if have_ex then
        (case expression of
           Inl (Abn (Thrown ex)) \<Rightarrow> if is_expected ex then validator ex else 1
         | _ \<Rightarrow> 1)
      else
        (case expression of
           Inl (Abn (Terminated msg)) \<Rightarrow> if sublist expected_message msg then 0 else 1
         | _ \<Rightarrow> 1))"

definition ExpectNoException :: "fault + 'a \<Rightarrow> nat" where
  "ExpectNoException expression = (case expression of Inr _ \<Rightarrow> 0 | Inl _ \<Rightarrow> 1)"

text \<open>\<^verbatim>\<open>MessageDifferencer\<close> of protobuf is an argument: whether two messages are equal, and the report.\<close>

definition CompareProtos :: "('m \<Rightarrow> 'm \<Rightarrow> bool \<times> string) \<Rightarrow> 'm \<Rightarrow> 'm \<Rightarrow> string option" where
  "CompareProtos compare arg value = (let (result, delta) = compare arg value in if result then None else Some delta)"

definition IsProtoEqual :: "('m \<Rightarrow> 'm \<Rightarrow> bool \<times> string) \<Rightarrow> 'm \<Rightarrow> 'm \<Rightarrow> bool" where
  "IsProtoEqual compare value arg = (CompareProtos compare arg value = None)"

text \<open>A \<^verbatim>\<open>StatusOr\<close> passes exactly if it holds a value, and a violated contract of a future is recognised as such.\<close>

lemma IsOkPredFormat_iff: "IsOkPredFormat expr status = AssertionSuccess \<longleftrightarrow> Status_ok status"
  by (simp add: IsOkPredFormat_def)

lemma c_str_append_prefix: "CHR 0x00 \<notin> set a \<Longrightarrow> c_str (a @ b) = a @ c_str b"
  by (simp add: c_str_def takeWhile_append)

lemma ExpectFutureError_ThrowFutureError:
  assumes "\<And>ec. CHR 0x00 \<notin> set (errc_message ec)"
  shows "ExpectFutureError have_ex errc_message (Inl (Abn (ThrowFutureError have_ex errc_message ec msg)) :: fault + 'a) ec = 0"
proof (cases have_ex)
  case False
  have "c_str (''future_error['' @ errc_message ec @ '']: '' @ msg) = (''future_error['' @ errc_message ec @ '']'') @ c_str ('': '' @ msg)"
    using assms [of ec] c_str_append_prefix [of "''future_error['' @ errc_message ec @ '']''" "'': '' @ msg"] by simp
  then show ?thesis using False by (auto simp: ExpectFutureError_def ThrowFutureError_def sublist_def)
qed (simp add: ExpectFutureError_def ThrowFutureError_def)

section \<open>Checking a deadline\<close>

text \<open>
  \<^verbatim>\<open>CheckPredicateBecomesFalse\<close> in a world \<open>'w\<close>, of which the clock, the predicate and \<^verbatim>\<open>sleep_for\<close> are
  arguments. Time points are in nanoseconds, the tolerance is in milliseconds. The fuel bounds the iterations.
\<close>

record check_counts =
  true_count :: int
  false_count :: int
  failed :: nat

definition expect :: "bool \<Rightarrow> check_counts \<Rightarrow> check_counts" where
  "expect b c = (if b then c else c\<lparr>failed := Suc (failed c)\<rparr>)"

fun check_loop ::
  "nat \<Rightarrow> ('w \<Rightarrow> int \<times> 'w) \<Rightarrow> ('w \<Rightarrow> bool \<times> 'w) \<Rightarrow> (int \<Rightarrow> 'w \<Rightarrow> 'w) \<Rightarrow> int \<Rightarrow> int \<Rightarrow> int \<Rightarrow> int \<Rightarrow> check_counts \<Rightarrow> 'w
   \<Rightarrow> (check_counts \<times> 'w) option" where
  "check_loop 0 now predicate sleep_for must_be_true_before must_be_false_after loop_end tolerance c w = None"
| "check_loop (Suc fuel) now predicate sleep_for must_be_true_before must_be_false_after loop_end tolerance c w =
     (let (t, w) = now w in
      if \<not> t < loop_end then Some (c, w)
      else
        let (iteration_start, w) = now w; (actual, w) = predicate w; (iteration_end, w) = now w;
            next = check_loop fuel now predicate sleep_for must_be_true_before must_be_false_after loop_end tolerance;
            sleep = sleep_for (trunc_div tolerance 2 * 1000000)
        in if iteration_end < must_be_true_before then
             let c = expect actual c in
             next (if actual then c\<lparr>true_count := true_count c + 1\<rparr> else c) (sleep w)
           else if must_be_false_after < iteration_start then
             let c = expect (\<not> actual) c in
             if \<not> actual then Some (c\<lparr>false_count := false_count c + 1\<rparr>, w) else next c (sleep w)
           else next c (sleep w))"

definition CheckPredicateBecomesFalse ::
  "nat \<Rightarrow> ('w \<Rightarrow> int \<times> 'w) \<Rightarrow> ('w \<Rightarrow> bool \<times> 'w) \<Rightarrow> (int \<Rightarrow> 'w \<Rightarrow> 'w) \<Rightarrow> int \<Rightarrow> int \<Rightarrow> 'w \<Rightarrow> (check_counts \<times> 'w) option" where
  "CheckPredicateBecomesFalse fuel now predicate sleep_for d tolerance w =
     (let (t, w) = now w; duration = d - t in
      case check_loop fuel now predicate sleep_for (d - tolerance * 1000000) (d + tolerance * 1000000) (d + duration) tolerance
             \<lparr>true_count = 0, false_count = 0, failed = 0\<rparr> w of
        None \<Rightarrow> None
      | Some (c, w) \<Rightarrow> Some (expect (0 \<le> false_count c) (expect (0 \<le> true_count c) c), w))"

text \<open>What the check relies on: the clock does not go back, and sleeping takes at least the time given.\<close>

definition clock_ok :: "('w \<Rightarrow> int) \<Rightarrow> ('w \<Rightarrow> int \<times> 'w) \<Rightarrow> (int \<Rightarrow> 'w \<Rightarrow> 'w) \<Rightarrow> bool" where
  "clock_ok time now sleep_for \<longleftrightarrow>
     (\<forall>w. time w \<le> fst (now w) \<and> fst (now w) \<le> time (snd (now w))) \<and> (\<forall>w d. 0 \<le> d \<longrightarrow> time w + d \<le> time (sleep_for d w))"

text \<open>The predicate of the tests: a time policy, asked about a transient failure.\<close>

definition policy_predicate :: "('w \<Rightarrow> int \<times> 'w) \<Rightarrow> LimitedTime \<Rightarrow> 'w \<Rightarrow> bool \<times> 'w" where
  "policy_predicate now p w =
     (let (t, w) = now w in
      (case OnFailure (\<lambda>status. False) LimitedTime_OnFailureImpl LimitedTime_IsExhausted t () p of
         Inr (retry, p') \<Rightarrow> retry | Inl e \<Rightarrow> False, w))"

lemma policy_predicate_value: "policy_predicate now p w = (fst (now w) < deadline p, snd (now w))"
  by (simp add: policy_predicate_def OnFailure_def LimitedTime_OnFailureImpl_def LimitedTime_IsExhausted_def not_le case_prod_unfold Let_def)

lemma check_loop_policy:
  assumes clock: "clock_ok time now sleep_for" and "\<bar>deadline p - d\<bar> \<le> tolerance * 1000000" "2 \<le> tolerance"
    and "failed c = 0" "0 \<le> true_count c" "0 \<le> false_count c" "loop_end - time w \<le> (int fuel - 1) * 1000000"
    and "0 < fuel"
  shows "\<exists>c' w'. check_loop fuel now (policy_predicate now p) sleep_for (d - tolerance * 1000000) (d + tolerance * 1000000)
      loop_end tolerance c w = Some (c', w') \<and> failed c' = 0 \<and> 0 \<le> true_count c' \<and> 0 \<le> false_count c'"
  using assms(4-)
proof (induction fuel arbitrary: c w)
  case 0
  then show ?case by simp
next
  case (Suc fuel)
  define w1 w2 w3 w4 where "w1 = snd (now w)" and "w2 = snd (now w1)" and "w3 = snd (now w2)" and "w4 = snd (now w3)"
  define t0 t1 t2 t3 where "t0 = fst (now w)" and "t1 = fst (now w1)" and "t2 = fst (now w2)" and "t3 = fst (now w3)"
  note w = w1_def [symmetric] w2_def [symmetric] w3_def [symmetric] w4_def [symmetric]
    and t = t0_def [symmetric] t1_def [symmetric] t2_def [symmetric] t3_def [symmetric]
  have "time v \<le> fst (now v) \<and> fst (now v) \<le> time (snd (now v))" for v using clock by (simp add: clock_ok_def)
  then have order: "time w \<le> t0" "t0 \<le> time w1" "time w1 \<le> t1" "t1 \<le> time w2" "time w2 \<le> t2" "t2 \<le> time w3"
      "time w3 \<le> t3" "t3 \<le> time w4"
    unfolding w1_def w2_def w3_def w4_def t0_def t1_def t2_def t3_def by blast+
  let ?sleep = "trunc_div tolerance 2 * 1000000"
  have half: "1 \<le> trunc_div tolerance 2" using assms(3) by (simp add: trunc_div_def)
  have "time w4 + ?sleep \<le> time (sleep_for ?sleep w4)" using clock half by (simp add: clock_ok_def)
  with half order have later: "time w + 1000000 \<le> time (sleep_for ?sleep w4)" by linarith
  have pv: "policy_predicate now p w2 = (t2 < deadline p, w3)" by (simp add: policy_predicate_value w t)
  show ?case
  proof (cases "t0 < loop_end")
    case False
    with Suc.prems show ?thesis by (simp add: case_prod_unfold Let_def w t)
  next
    case True
    with Suc.prems(4) order(1) have "0 < fuel" by (cases fuel) auto
    moreover have "loop_end - time (sleep_for ?sleep w4) \<le> (int fuel - 1) * 1000000" using Suc.prems(4) later by (simp add: algebra_simps)
    ultimately have next_ok: "\<exists>c'' w'. check_loop fuel now (policy_predicate now p) sleep_for (d - tolerance * 1000000) (d + tolerance * 1000000)
      loop_end tolerance c' (sleep_for ?sleep w4) = Some (c'', w') \<and> failed c'' = 0 \<and> 0 \<le> true_count c'' \<and> 0 \<le> false_count c''"
      if "failed c' = 0" "0 \<le> true_count c'" "0 \<le> false_count c'" for c'
      using that by (intro Suc.IH)
    consider "t3 < d - tolerance * 1000000" "t2 < deadline p" | "\<not> t3 < d - tolerance * 1000000" "d + tolerance * 1000000 < t1" "\<not> t2 < deadline p"
      | "\<not> t3 < d - tolerance * 1000000" "\<not> d + tolerance * 1000000 < t1"
      using order assms(2) by linarith
    then show ?thesis
    proof cases
      case 1
      with True next_ok [of "c\<lparr>true_count := true_count c + 1\<rparr>"] Suc.prems(1-3) show ?thesis
        by (simp add: pv case_prod_unfold Let_def w t expect_def)
    next
      case 2
      with True Suc.prems(1-3) show ?thesis
        by (simp add: pv case_prod_unfold Let_def w t expect_def)
    next
      case 3
      with True next_ok [of c] Suc.prems(1-3) show ?thesis
        by (simp add: pv case_prod_unfold Let_def w t expect_def)
    qed
  qed
qed

text \<open>
  The last two expectations compare a count with zero from above, so they never fail: a run that
  sampled nothing passes too, for example when the deadline lies in the past.
\<close>

lemma CheckPredicateBecomesFalse_vacuous:
  assumes "clock_ok time now sleep_for" "d \<le> time w"
  shows "\<exists>w'. CheckPredicateBecomesFalse (Suc n) now (\<lambda>w. (True, w)) sleep_for d tolerance w
     = Some (\<lparr>true_count = 0, false_count = 0, failed = 0\<rparr>, w')"
proof -
  have "time v \<le> fst (now v) \<and> fst (now v) \<le> time (snd (now v))" for v using assms(1) by (simp add: clock_ok_def)
  from this [of w] this [of "snd (now w)"] assms(2) show ?thesis
    by (simp add: CheckPredicateBecomesFalse_def case_prod_unfold Let_def expect_def)
qed

section \<open>Types for tests\<close>

record NoDefaultConstructor =
  ndc_str :: string

definition mk_NoDefaultConstructor :: "string \<Rightarrow> NoDefaultConstructor" where
  "mk_NoDefaultConstructor x = \<lparr>ndc_str = x\<rparr>"

definition NoDefaultConstructor_eq :: "NoDefaultConstructor \<Rightarrow> NoDefaultConstructor \<Rightarrow> bool" where
  "NoDefaultConstructor_eq lhs rhs \<longleftrightarrow> ndc_str lhs = ndc_str rhs"

definition NoDefaultConstructor_neq :: "NoDefaultConstructor \<Rightarrow> NoDefaultConstructor \<Rightarrow> bool" where
  "NoDefaultConstructor_neq lhs rhs \<longleftrightarrow> \<not> NoDefaultConstructor_eq lhs rhs"

text \<open>The static counters of \<^verbatim>\<open>Observable\<close>; an object is its string.\<close>

record Observable_counters =
  default_constructor :: int
  value_constructor :: int
  copy_constructor :: int
  move_constructor :: int
  copy_assignment :: int
  move_assignment :: int
  destructor :: int

definition reset_counters :: Observable_counters where
  "reset_counters = \<lparr>default_constructor = 0, value_constructor = 0, copy_constructor = 0, move_constructor = 0,
     copy_assignment = 0, move_assignment = 0, destructor = 0\<rparr>"

definition Observable_default :: "Observable_counters \<Rightarrow> string \<times> Observable_counters" where
  "Observable_default k = ([], k\<lparr>default_constructor := default_constructor k + 1\<rparr>)"

definition Observable_value :: "string \<Rightarrow> Observable_counters \<Rightarrow> string \<times> Observable_counters" where
  "Observable_value s k = (s, k\<lparr>value_constructor := value_constructor k + 1\<rparr>)"

definition Observable_copy :: "string \<Rightarrow> Observable_counters \<Rightarrow> string \<times> Observable_counters" where
  "Observable_copy rhs k = (rhs, k\<lparr>copy_constructor := copy_constructor k + 1\<rparr>)"

text \<open>Moving yields the new object and what is left of the source.\<close>

definition Observable_move :: "string \<Rightarrow> Observable_counters \<Rightarrow> string \<times> string \<times> Observable_counters" where
  "Observable_move rhs k = (rhs, ''moved-out'', k\<lparr>move_constructor := move_constructor k + 1\<rparr>)"

definition Observable_assign_copy :: "string \<Rightarrow> string \<Rightarrow> Observable_counters \<Rightarrow> string \<times> Observable_counters" where
  "Observable_assign_copy self rhs k = (rhs, k\<lparr>copy_assignment := copy_assignment k + 1\<rparr>)"

definition Observable_assign_move :: "string \<Rightarrow> string \<Rightarrow> Observable_counters \<Rightarrow> string \<times> string \<times> Observable_counters" where
  "Observable_assign_move self rhs k = (rhs, ''moved-out'', k\<lparr>move_assignment := move_assignment k + 1\<rparr>)"

definition Observable_destroy :: "Observable_counters \<Rightarrow> Observable_counters" where
  "Observable_destroy k = k\<lparr>destructor := destructor k + 1\<rparr>"

text \<open>What a test can do with the objects it holds; assigning an object to itself is left out.\<close>

inductive observable_step :: "string list \<times> Observable_counters \<Rightarrow> string list \<times> Observable_counters \<Rightarrow> bool" where
  "Observable_default k = (x, k') \<Longrightarrow> observable_step (xs, k) (xs @ [x], k')"
| "Observable_value s k = (x, k') \<Longrightarrow> observable_step (xs, k) (xs @ [x], k')"
| "i < length xs \<Longrightarrow> Observable_copy (xs ! i) k = (x, k') \<Longrightarrow> observable_step (xs, k) (xs @ [x], k')"
| "i < length xs \<Longrightarrow> Observable_move (xs ! i) k = (x, y, k') \<Longrightarrow> observable_step (xs, k) (xs[i := y] @ [x], k')"
| "i < length xs \<Longrightarrow> j < length xs \<Longrightarrow> i \<noteq> j \<Longrightarrow> Observable_assign_copy (xs ! i) (xs ! j) k = (x, k') \<Longrightarrow> observable_step (xs, k) (xs[i := x], k')"
| "i < length xs \<Longrightarrow> j < length xs \<Longrightarrow> i \<noteq> j \<Longrightarrow> Observable_assign_move (xs ! i) (xs ! j) k = (x, y, k') \<Longrightarrow> observable_step (xs, k) (xs[i := x, j := y], k')"
| "i < length xs \<Longrightarrow> observable_step (xs, k) (take i xs @ drop (Suc i) xs, Observable_destroy k)"

lemma observable_balance:
  "observable_step\<^sup>*\<^sup>* ([], reset_counters) (xs, k) \<Longrightarrow>
     default_constructor k + value_constructor k + copy_constructor k + move_constructor k = destructor k + int (length xs)"
proof (induction "(xs, k)" arbitrary: xs k rule: rtranclp_induct)
  case base
  then show ?case by (simp add: reset_counters_def)
next
  case (step y)
  obtain xs0 k0 where y: "y = (xs0, k0)" by (cases y)
  from step(2) step(3) [OF y] show ?case unfolding y
    by cases (auto simp: Observable_default_def Observable_value_def Observable_copy_def Observable_move_def
        Observable_assign_copy_def Observable_assign_move_def Observable_destroy_def)
qed

section \<open>The mock queue\<close>

text \<open>The mock overrides \<^verbatim>\<open>CreateAlarm\<close> with a null pointer; its timers only end by a simulated completion.\<close>

definition MockCompletionQueue_CreateAlarm :: bool where
  "MockCompletionQueue_CreateAlarm = False"

definition Mock_MakeDeadlineTimer ::
  "bool \<Rightarrow> nat \<Rightarrow> int \<Rightarrow> 'r CompletionQueueImpl \<Rightarrow> (fault + 'r notification option) \<times> 'r CompletionQueueImpl" where
  "Mock_MakeDeadlineTimer have_ex tag d q =
     StartOperation have_ex tag (TimerOp \<lparr>timer_deadline = 0, timer_alarm = MockCompletionQueue_CreateAlarm\<rparr>) (set_deadline d) q"

lemma Mock_timer_completes:
  assumes "\<not> shutdown q" "tag \<notin> fst ` set (pending_ops q)"
  shows "\<exists>q1. Mock_MakeDeadlineTimer he tag d q = (Inr None, q1) \<and> cq_size q1 = Suc (cq_size q) \<and>
     SimulateCompletion he tag ok q1 =
       Inr (TimerValue (if ok then Inr d else Inl (mk_Status kCancelled ''timer canceled'')), q)"
proof -
  let ?op = "TimerOp \<lparr>timer_deadline = d, timer_alarm = False\<rparr>"
  let ?q = "q\<lparr>pending_ops := pending_ops q @ [(tag, ?op)]\<rparr>"
  have "filter (\<lambda>kv. fst kv \<noteq> tag) (pending_ops q) = pending_ops q" using assms(2) by (force simp: filter_id_conv)
  then have "SimulateCompletion he tag ok ?q = Inr (TimerValue (if ok then Inr d else Inl (mk_Status kCancelled ''timer canceled'')), q)"
    using map_of_snoc [OF assms(2), of ?op]
    by (simp add: SimulateCompletion_def FindOperation_def ForgetOperation_def AsyncTimerFuture_Notify_def)
  then show ?thesis
    using assms by (simp add: Mock_MakeDeadlineTimer_def StartOperation_def map_of_None_iff set_deadline_def AsyncTimerFuture_Set_def
        MockCompletionQueue_CreateAlarm_def cq_size_def)
qed

section \<open>Properties\<close>

text \<open>
  C35: capturing backends of a sink record exactly what is logged. After a call of \<^verbatim>\<open>Log\<close> each of them has
  the lines of the message appended, any other object is as before, no line contains a line break,
  and the lines, each followed by a line break, are the message up to a final one.
\<close>

theorem capture_records_log:
  fixes u :: "'b \<Rightarrow> CaptureLogLinesBackend"
  assumes "ls_backends s = map (\<lambda>(k, x). (k, UserBackend x)) kxs" "distinct (map snd kxs)"
  shows "\<exists>u'. LogSink_Log capture_backend r (s, c, u) = Inr (s, c, u') \<and>
     (\<forall>x. log_lines (u' x) = log_lines (u x) @ (if x \<in> snd ` set kxs then capture_loop (lr_message r) else [])) \<and>
     (\<forall>line \<in> set (capture_loop (lr_message r)). newline \<notin> set line) \<and>
     concat (map (\<lambda>line. line @ [newline]) (capture_loop (lr_message r))) =
       (if lr_message r = [] \<or> last (lr_message r) = newline then lr_message r else lr_message r @ [newline])"
proof -
  have run: "distinct (map snd kxs) \<Longrightarrow>
    \<exists>u'. run_deliveries capture_backend (map (\<lambda>(k, b). (k, b, log_deliver owned r)) (map (\<lambda>(k, x). (k, UserBackend x)) kxs)) (s, c, u) = Inr (s, c, u') \<and>
     (\<forall>x. log_lines (u' x) = log_lines (u x) @ (if x \<in> snd ` set kxs then capture_loop (lr_message r) else []))" for owned u
  proof (induction kxs arbitrary: u)
    case (Cons kx kxs)
    obtain k x where kx: "kx = (k, x)" by (cases kx)
    define u1 where "u1 = u(x := CaptureLogLinesBackend_Process r (u x))"
    from Cons.IH [of u1] Cons.prems obtain u' where
      "run_deliveries capture_backend (map (\<lambda>(k, b). (k, b, log_deliver owned r)) (map (\<lambda>(k, x). (k, UserBackend x)) kxs)) (s, c, u1) = Inr (s, c, u')"
      "\<forall>y. log_lines (u' y) = log_lines (u1 y) @ (if y \<in> snd ` set kxs then capture_loop (lr_message r) else [])" by auto
    moreover have "call_backend capture_backend (UserBackend x) (log_deliver owned r) (s, c, u) = Inr (s, c, u1)"
      by (simp add: call_backend_def capture_backend_def log_deliver_def u1_def CaptureLogLinesBackend_ProcessWithOwnership_def)
    ultimately show ?case
      using Cons.prems by (auto simp: kx u1_def CaptureLogLinesBackend_Process_def)
  qed simp
  show ?thesis
    using run [OF assms(2), of "length kxs = 1" u] capture_loop_no_newline capture_loop_join [of "lr_message r"] assms(1)
    by (simp add: LogSink_Log_deliveries log_deliveries_def)
qed

theorem capture_records_log_witness:
  "\<exists>u'. LogSink_Log capture_backend (example_log_record\<lparr>lr_message := ''a'' @ [newline] @ ''b''\<rparr>)
     (example_sink [(1, UserBackend 7)] 1, \<lparr>clog_out = [], clog_flushed = 0\<rparr>, \<lambda>x. \<lparr>log_lines = []\<rparr>) =
       Inr (example_sink [(1, UserBackend 7)] 1, \<lparr>clog_out = [], clog_flushed = 0\<rparr>, u') \<and> log_lines (u' 7) = [''a'', ''b'']"
proof -
  have lines: "capture_loop (''a'' @ [newline] @ ''b'') = [''a'', ''b'']" by (simp add: capture_loop_Cons)
  have "ls_backends (example_sink [(1, UserBackend 7)] 1) = map (\<lambda>(k, x). (k, UserBackend x)) [(1, 7)]"
    by (simp add: example_sink_def LogSink_new_def)
  from capture_records_log [OF this, where r = "example_log_record\<lparr>lr_message := ''a'' @ [newline] @ ''b''\<rparr>"
      and c = "\<lparr>clog_out = [], clog_flushed = 0\<rparr>" and u = "\<lambda>x. \<lparr>log_lines = []\<rparr>"] lines show ?thesis by fastforce
qed

text \<open>
  \<^verbatim>\<open>CheckPredicateBecomesFalse\<close> ends and accepts a time policy whose deadline is within the tolerance of the
  deadline it is given: the number of iterations is bounded by the time it covers, and
  none of its expectations fails, however long the clock readings and the sleeps take.
\<close>

lemma CheckPredicateBecomesFalse_accepts_policy:
  assumes "clock_ok time now sleep_for" "\<bar>deadline p - d\<bar> \<le> tolerance * 1000000" "2 \<le> tolerance"
    "2 * (d - time w) \<le> (int fuel - 1) * 1000000" "0 < fuel"
  shows "\<exists>c w'. CheckPredicateBecomesFalse fuel now (policy_predicate now p) sleep_for d tolerance w = Some (c, w') \<and> failed c = 0"
proof -
  have "time w \<le> fst (now w)" "fst (now w) \<le> time (snd (now w))" using assms(1) by (simp_all add: clock_ok_def)
  then have "d + (d - fst (now w)) - time (snd (now w)) \<le> 2 * (d - time w)" by (simp add: algebra_simps)
  from order_trans [OF this assms(4)] have "d + (d - fst (now w)) - time (snd (now w)) \<le> (int fuel - 1) * 1000000" .
  from check_loop_policy [OF assms(1-3) _ _ _ this assms(5), of "\<lparr>true_count = 0, false_count = 0, failed = 0\<rparr>"]
  show ?thesis by (auto simp: CheckPredicateBecomesFalse_def case_prod_unfold Let_def expect_def)
qed

lemma CheckPredicateBecomesFalse_accepts_policy_example:
  "\<exists>c w'. CheckPredicateBecomesFalse 101 (\<lambda>w. (w, w + 1)) (policy_predicate (\<lambda>w. (w, w + 1)) \<lparr>maximum_duration = 50, deadline = 50000000\<rparr>)
     (\<lambda>d w. w + d) 50000000 10 (0 :: int) = Some (c, w') \<and> failed c = 0"
  by (rule CheckPredicateBecomesFalse_accepts_policy [where time = "\<lambda>w. w"]) (simp_all add: clock_ok_def)

end
