(* ===== verification/Void_Futures.thy ===== *)
theory Void_Futures
  imports Future_Void Future_Types
begin

text \<open>
  The classes \<^verbatim>\<open>future<void>\<close> and \<^verbatim>\<open>promise<void>\<close> of \<^verbatim>\<open>future_void.h\<close>, with the functions of
  \<^verbatim>\<open>internal/future_impl.h\<close> and \<^verbatim>\<open>internal/future_then_impl.h\<close> that the library writes a second time for
  \<^verbatim>\<open>void\<close>. They work on a store whose states have no value; the states are those of \<open>Future_Void\<close>, with a
  buffer that is never used. Programs over these classes are shown to behave as programs over the
  primary templates with a one-element value type.
\<close>

section \<open>Shared states in the store\<close>

definition void_state_set_value where
  "void_state_set_value exec he i h = on_state exec i (void_set_value_section he) h"

text \<open>The result of \<^verbatim>\<open>void\<close> functions is the one value of the unit type.\<close>

definition void_state_get :: "bool \<Rightarrow> nat \<Rightarrow> (unit, 'f, 'k) fheap \<Rightarrow> (unit fval, (unit, 'f, 'k) fheap) outcome" where
  "void_state_get he i h =
     (case fh_store h i of
        None \<Rightarrow> Some (Inl (UB UseDead), h)
      | Some s \<Rightarrow>
          (case void_get_section he s of
             None \<Rightarrow> None
           | Some (s', r) \<Rightarrow> Some (map_sum (\<lambda>e. e) Plain r, fh_put i s' h)))"

text \<open>Application functors through their adapter, and the unwrapper.\<close>

definition void_call_functor :: "bool \<Rightarrow> (unit, 'f, 'k) functor_call \<Rightarrow> 'f functor_obj \<Rightarrow> nat
    \<Rightarrow> (unit, 'f, 'k) fheap \<Rightarrow> (unit fval, (unit, 'f, 'k) fheap) outcome" where
  "void_call_functor he call fn i h =
     (case fn of
        UserFunctor f \<Rightarrow> Some (call f i (h\<lparr>fh_calls := fh_calls h @ [(f, i)]\<rparr>))
      | GetFunctor \<Rightarrow> void_state_get he i h)"

text \<open>The functor is called for its effect, then \<^verbatim>\<open>output.set_value()\<close>, inside the same handlers.\<close>

definition void_continuation_execute_delegate where
  "void_continuation_execute_delegate exec he call fn inp out h =
     report_exception exec he out
       (bindH (void_call_functor he call fn inp h) (\<lambda>_ h1. void_state_set_value exec he out h1))"

fun void_execute :: "bool \<Rightarrow> (unit, 'f, 'k) functor_call \<Rightarrow> nat \<Rightarrow> (unit, 'f, 'k) executor" where
  "void_execute he call 0 c h = None"
| "void_execute he call (Suc n) (Continuation fn inp out) h =
     (case fh_store h inp of
        None \<Rightarrow>
          (case out of
             None \<Rightarrow> Some (Inl (UB NullDeref), h)
           | Some out' \<Rightarrow> state_set_exception (void_execute he call n) he out' (Some (future_error no_state)) h)
      | Some _ \<Rightarrow>
          (case out of
             None \<Rightarrow> Some (Inl (UB NullDeref), h)
           | Some out' \<Rightarrow>
               bindH (void_continuation_execute_delegate (void_execute he call n) he call fn inp out' h)
                 (\<lambda>_ h1. Some (Inr (), reset_output (Continuation fn inp out) inp h1))))"
| "void_execute he call (Suc n) (UnwrappingContinuation fn inp im out) h =
     (case fh_store h inp of
        None \<Rightarrow> state_set_exception (void_execute he call n) he out (Some (future_error no_state)) h
      | Some _ \<Rightarrow>
          (case void_call_functor he call fn inp h of
             None \<Rightarrow> None
           | Some (Inl (Abn (Thrown ex)), h1) \<Rightarrow>
               state_set_exception (void_execute he call n) he out (Some ex) h1
           | Some (Inl e, h1) \<Rightarrow> Some (Inl e, h1)
           | Some (Inr (FutureVal (Some m)), h1) \<Rightarrow>
               state_set_continuation (void_execute he call n) he m (Continuation GetFunctor m (Some out)) h1
           | Some (Inr _, h1) \<Rightarrow>
               state_set_exception (void_execute he call n) he out (Some (future_error broken_promise)) h1))"

definition void_make_continuation where
  "void_make_continuation he call n self fn unwrap h =
     (case fh_store h self of
        None \<Rightarrow> Some (Inl (UB NullDeref), h)
      | Some s \<Rightarrow>
          (let (cb, s1) = release_cancellation_callback s;
               (out, h1) = fh_alloc (void_state_new cb) (fh_put self s1 h);
               c = (if unwrap then UnwrappingContinuation fn self None out
                    else Continuation fn self (Some out))
           in bindH (state_set_continuation (void_execute he call n) he self c h1)
                (\<lambda>_ h2. Some (Inr out, h2))))"

section \<open>future and promise\<close>

definition void_future_get where
  "void_future_get he fut h =
     (case check_valid he fut of
        Inl e \<Rightarrow> Some (Inl e, fut, h)
      | Inr i \<Rightarrow> map_option (\<lambda>(r, h1). (r, None :: future_ptr, h1)) (void_state_get he i h))"

text \<open>\<open>then_impl\<close>, on success, resets the future; \<open>i\<close> is the state it pointed to.\<close>

definition void_then_impl where
  "void_then_impl he call n fn unwrap i h =
     (case void_make_continuation he call n i fn unwrap h of
        None \<Rightarrow> None
      | Some (Inl e, h1) \<Rightarrow> Some (Inl e, Some i, h1)
      | Some (Inr out, h1) \<Rightarrow> Some (Inr (Some out :: future_ptr), None, h1))"

definition void_future_then where
  "void_future_then he call n fn unwrap fut h =
     (case check_valid he fut of
        Inl e \<Rightarrow> Some (Inl e, fut, h)
      | Inr i \<Rightarrow> void_then_impl he call n fn unwrap i h)"

definition void_promise_new :: "'k option \<Rightarrow> (unit, 'f, 'k) fheap \<Rightarrow> promise_ptr \<times> (unit, 'f, 'k) fheap" where
  "void_promise_new cb h = (case fh_alloc (void_state_new cb) h of (i, h1) \<Rightarrow> (Some i, h1))"

definition void_promise_swap :: "promise_ptr \<Rightarrow> promise_ptr \<Rightarrow> promise_ptr \<times> promise_ptr" where
  "void_promise_swap this other = (other, this)"

text \<open>The destructor is the one of the base class.\<close>

definition void_promise_destroy where
  "void_promise_destroy he call n p h =
     (case p of
        None \<Rightarrow> Some (Inr (), h)
      | Some i \<Rightarrow> state_abandon (void_execute he call n) he i h)"

definition void_promise_assign_move where
  "void_promise_assign_move he call n this rhs h =
     (let (this', tmp) = void_promise_swap this rhs in
      bindH (void_promise_destroy he call n tmp h) (\<lambda>_ h1. Some (Inr (this', None :: promise_ptr), h1)))"

definition void_promise_get_future where
  "void_promise_get_future he p h =
     (case p of
        None \<Rightarrow> (Inl (future_fault he no_state ''mark_retrieved''), h)
      | Some i \<Rightarrow>
          (case fh_store h i of
             None \<Rightarrow> (Inl (UB UseDead), h)
           | Some s \<Rightarrow>
               (case mark_retrieved_section he s of
                  Inl e \<Rightarrow> (Inl e, h)
                | Inr s' \<Rightarrow> (Inr (Some i :: future_ptr), fh_put i s' h))))"

definition void_promise_set_value where
  "void_promise_set_value he call n p h =
     (case p of
        None \<Rightarrow> Some (Inl (future_fault he no_state ''set_value''), h)
      | Some i \<Rightarrow> void_state_set_value (void_execute he call n) he i h)"

definition void_promise_set_exception where
  "void_promise_set_exception he call n p ex h =
     (case p of
        None \<Rightarrow> Some (Inl (future_fault he no_state ''set_exception''), h)
      | Some i \<Rightarrow> state_set_exception (void_execute he call n) he i ex h)"

definition void_make_ready_future where
  "void_make_ready_future he call n cb h =
     (let (p, h1) = void_promise_new cb h in
      bindH (void_promise_set_value he call n p h1) (\<lambda>_ h2.
        (case void_promise_get_future he p h2 of
           (Inl e, h3) \<Rightarrow> Some (Inl e, h3)
         | (Inr fut, h3) \<Rightarrow> bindH (void_promise_destroy he call n p h3) (\<lambda>_ h4. Some (Inr fut, h4)))))"

section \<open>Programs\<close>

text \<open>
  The operations of an application, as in \<open>Future_Types\<close>; \<^verbatim>\<open>future<future<void>>\<close> is not one of the
  specialized classes, so there are none that store or unwrap one. \<open>void_op rf\<close> says which operations
  there are, \<open>rf\<close> which functors return a future.
\<close>

fun void_op :: "('f \<Rightarrow> bool) \<Rightarrow> (unit, 'f, 'k) client_op \<Rightarrow> bool" where
  "void_op rf (SetFuture i j) \<longleftrightarrow> False"
| "void_op rf (Unwrap j) \<longleftrightarrow> False"
| "void_op rf (Then j f unwrap) \<longleftrightarrow> unwrap = rf f"
| "void_op rf _ \<longleftrightarrow> True"

fun void_client_op_run ::
  "bool \<Rightarrow> (unit, 'f, 'k) functor_call \<Rightarrow> nat \<Rightarrow> (unit, 'f, 'k) client_op
    \<Rightarrow> (unit, 'f, 'k) client \<Rightarrow> (unit, (unit, 'f, 'k) client) outcome" where
  "void_client_op_run he call n (NewPromise T cb) cl =
     (case void_promise_new cb (cl_heap cl) of (p, h) \<Rightarrow>
        Some (Inr (), cl\<lparr>cl_heap := h, cl_promises := cl_promises cl @ [p]\<rparr>))"
| "void_client_op_run he call n (GetFuture i) cl =
     (case void_promise_get_future he (cl_promises cl ! i) (cl_heap cl) of
        (Inl e, h) \<Rightarrow> Some (Inl e, cl\<lparr>cl_heap := h\<rparr>)
      | (Inr fut, h) \<Rightarrow> Some (Inr (), cl\<lparr>cl_heap := h, cl_futures := cl_futures cl @ [fut]\<rparr>))"
| "void_client_op_run he call n (SetValue i x) cl =
     on_heap cl (void_promise_set_value he call n (cl_promises cl ! i) (cl_heap cl))"
| "void_client_op_run he call n (SetException i ex) cl =
     on_heap cl (void_promise_set_exception he call n (cl_promises cl ! i) (Some ex) (cl_heap cl))"
| "void_client_op_run he call n (Then j f unwrap) cl =
     replacing_future j cl (void_future_then he call n (UserFunctor f) unwrap (cl_futures cl ! j) (cl_heap cl))"
| "void_client_op_run he call n (Get j) cl =
     map_option (\<lambda>(r, fut, h). let cl' = cl\<lparr>cl_heap := h, cl_futures := (cl_futures cl)[j := fut]\<rparr> in
         case r of Inl e \<Rightarrow> (Inl e, cl') | Inr v \<Rightarrow> (Inr (), cl'\<lparr>cl_values := cl_values cl' @ [v]\<rparr>))
       (void_future_get he (cl_futures cl ! j) (cl_heap cl))"
| "void_client_op_run he call n (DestroyPromise i) cl =
     on_heap (cl\<lparr>cl_promises := (cl_promises cl)[i := None]\<rparr>)
       (void_promise_destroy he call n (cl_promises cl ! i) (cl_heap cl))"
| "void_client_op_run he call n (SetFuture i j) cl = None"
| "void_client_op_run he call n (Unwrap j) cl = None"

fun void_client_run ::
  "bool \<Rightarrow> (unit, 'f, 'k) functor_call \<Rightarrow> nat \<Rightarrow> (unit, 'f, 'k) client_op list
    \<Rightarrow> (unit, 'f, 'k) client \<Rightarrow> (unit, (unit, 'f, 'k) client) outcome" where
  "void_client_run he call n [] cl = Some (Inr (), cl)"
| "void_client_run he call n (op # ops) cl =
     bindH (void_client_op_run he call n op cl) (\<lambda>_ cl'. void_client_run he call n ops cl')"

section \<open>Simulation\<close>

text \<open>The store without the buffers, and the stores of programs over the primary templates.\<close>

definition void_heap :: "(unit, 'f, 'k) fheap \<Rightarrow> (unit, 'f, 'k) fheap" where
  "void_heap h = h\<lparr>fh_store := \<lambda>i. map_option void_state (fh_store h i)\<rparr>"

fun void_cont_ok :: "('f \<Rightarrow> bool) \<Rightarrow> 'f continuation \<Rightarrow> bool" where
  "void_cont_ok rf (Continuation (UserFunctor f) i out) \<longleftrightarrow> \<not> rf f"
| "void_cont_ok rf _ \<longleftrightarrow> True"

definition void_state_ok :: "('f \<Rightarrow> bool) \<Rightarrow> (unit, 'f, 'k) fstate \<Rightarrow> bool" where
  "void_state_ok rf s \<longleftrightarrow> ss_buffer s = (if ss_current_state s = has_value then Live (Plain ()) else Uninit) \<and>
     (\<forall>c. ss_continuation s = Some c \<longrightarrow> void_cont_ok rf c)"

definition void_ok :: "('f \<Rightarrow> bool) \<Rightarrow> (unit, 'f, 'k) fheap \<Rightarrow> bool" where
  "void_ok rf h \<longleftrightarrow> (\<forall>i s. fh_store h i = Some s \<longrightarrow> void_state_ok rf s)"

text \<open>Two outcomes correspond; the store of the first is as it should be.\<close>

definition void_sim ::
  "('f \<Rightarrow> bool) \<Rightarrow> ('a, (unit, 'f, 'k) fheap) outcome \<Rightarrow> ('a, (unit, 'f, 'k) fheap) outcome \<Rightarrow> bool" where
  "void_sim rf m mv \<longleftrightarrow> mv = map_option (map_prod void_result void_heap) m \<and> (\<forall>r h. m = Some (r, h) \<longrightarrow> void_ok rf h)"

definition void_execs :: "('f \<Rightarrow> bool) \<Rightarrow> (unit, 'f, 'k) executor \<Rightarrow> (unit, 'f, 'k) executor \<Rightarrow> bool" where
  "void_execs rf ex exv \<longleftrightarrow> (\<forall>c h. void_ok rf h \<longrightarrow> void_cont_ok rf c \<longrightarrow> void_sim rf (ex c h) (exv c (void_heap h)))"

text \<open>Application functors do the same in both programs, and return a future only where their type says so.\<close>

definition functors_agree :: "('f \<Rightarrow> bool) \<Rightarrow> (unit, 'f, 'k) functor_call \<Rightarrow> (unit, 'f, 'k) functor_call \<Rightarrow> bool" where
  "functors_agree rf call callv \<longleftrightarrow> (\<forall>f i h. void_ok rf h \<longrightarrow>
     void_sim rf (Some (call f i h)) (Some (callv f i (void_heap h))) \<and>
     (\<forall>v. \<not> rf f \<longrightarrow> fst (call f i h) = Inr v \<longrightarrow> v = Plain ()))"

lemma void_heap_simps [simp]:
  "fh_store (void_heap h) i = map_option void_state (fh_store h i)" "fh_next (void_heap h) = fh_next h"
  "fh_calls (void_heap h) = fh_calls h" "void_heap (h\<lparr>fh_calls := cs\<rparr>) = (void_heap h)\<lparr>fh_calls := cs\<rparr>"
  "void_heap (h\<lparr>fh_next := k\<rparr>) = (void_heap h)\<lparr>fh_next := k\<rparr>"
  by (simp_all add: void_heap_def)

lemma void_heap_put [simp]: "void_heap (fh_put i s h) = fh_put i (void_state s) (void_heap h)"
  by (simp add: void_heap_def fh_put_def fun_eq_iff)

lemma void_ok_simps [simp]: "void_ok rf (h\<lparr>fh_calls := cs\<rparr>) = void_ok rf h" "void_ok rf (h\<lparr>fh_next := k\<rparr>) = void_ok rf h"
  by (simp_all add: void_ok_def)

lemma void_ok_put: "void_ok rf h \<Longrightarrow> void_state_ok rf s \<Longrightarrow> void_ok rf (fh_put i s h)"
  by (simp add: void_ok_def)

lemma void_ok_lookup: "void_ok rf h \<Longrightarrow> fh_store h i = Some s \<Longrightarrow> void_state_ok rf s"
  by (simp add: void_ok_def)

lemma void_fault_Thrown [simp]: "void_fault e = Abn (Thrown x) \<longleftrightarrow> e = Abn (Thrown x)"
  by (auto simp: void_fault_def)

lemma void_state_continuation [simp]: "void_state (s\<lparr>ss_continuation := c\<rparr>) = (void_state s)\<lparr>ss_continuation := c\<rparr>"
  by (simp add: void_state_def)

lemma void_state_retrieved [simp]: "void_state (s\<lparr>ss_retrieved := b\<rparr>) = (void_state s)\<lparr>ss_retrieved := b\<rparr>"
  by (simp add: void_state_def)

lemma void_new [simp]: "void_state_ok rf (shared_state_new k)" "void_state (shared_state_new k) = void_state_new k"
  by (simp_all add: void_state_ok_def) (simp add: void_state_new_def void_state_def shared_state_new_def)

lemma void_sim_simps [simp]:
  "void_sim rf None mv \<longleftrightarrow> mv = None"
  "void_sim rf (Some (r, h)) mv \<longleftrightarrow> mv = Some (void_result r, void_heap h) \<and> void_ok rf h"
  by (auto simp: void_sim_def)

lemma void_sim_bind:
  assumes "void_sim rf m mv" "\<And>x h. m = Some (Inr x, h) \<Longrightarrow> void_ok rf h \<Longrightarrow> void_sim rf (f x h) (fv x (void_heap h))"
  shows "void_sim rf (bindH m f) (bindH mv fv)"
proof (cases m)
  case (Some p)
  obtain r h where p: "p = (r, h)" by (cases p)
  with assms Some show ?thesis by (cases r) auto
qed (use assms(1) in simp)

text \<open>A locked section of both classes, and what it leaves to execute.\<close>

definition sections_agree ::
  "('f \<Rightarrow> bool) \<Rightarrow> ((unit, 'f, 'k) fstate \<Rightarrow> fault + (unit, 'f, 'k) fstate \<times> 'f continuation after)
    \<Rightarrow> ((unit, 'f, 'k) fstate \<Rightarrow> fault + (unit, 'f, 'k) fstate \<times> 'f continuation after) \<Rightarrow> bool" where
  "sections_agree rf sect sectv \<longleftrightarrow> (\<forall>s. void_state_ok rf s \<longrightarrow>
     sectv (void_state s) = map_sum void_fault (map_prod void_state (\<lambda>a. a)) (sect s) \<and>
     (\<forall>s' a. sect s = Inr (s', a) \<longrightarrow> void_state_ok rf s' \<and> (\<forall>c. a = Execute c \<longrightarrow> void_cont_ok rf c)))"

lemma on_state_sim:
  assumes "void_execs rf ex exv" "sections_agree rf sect sectv" "void_ok rf h"
  shows "void_sim rf (on_state ex i sect h) (on_state exv i sectv (void_heap h))"
proof (cases "fh_store h i")
  case (Some s)
  with assms(2,3) have agree: "sectv (void_state s) = map_sum void_fault (map_prod void_state (\<lambda>a. a)) (sect s)"
    "\<And>s' a. sect s = Inr (s', a) \<Longrightarrow> void_state_ok rf s' \<and> (\<forall>c. a = Execute c \<longrightarrow> void_cont_ok rf c)"
    using void_ok_lookup [OF assms(3) Some] by (auto simp: sections_agree_def)
  show ?thesis
  proof (cases "sect s")
    case (Inr p)
    obtain s' a where p: "p = (s', a)" by (cases p)
    have "void_ok rf (fh_put i s' h)" using agree(2) Inr p assms(3) by (auto intro: void_ok_put)
    with agree(2) [of s' a] Inr p assms(1) agree(1) show ?thesis
      by (cases a) (auto simp: on_state_def Some perform_def void_execs_def simp flip: void_heap_put)
  qed (use assms(3) agree(1) in \<open>simp add: on_state_def Some\<close>)
qed (use assms(3) in \<open>simp add: on_state_def\<close>)

lemma sections_agree_set_value: "sections_agree rf (set_value_section he (Plain ())) (void_set_value_section he)"
  by (auto simp: sections_agree_def void_state_ok_def future_simps void_set_value_section_def void_set_value_locked_def
      void_state_def split: option.splits)

lemma sections_agree_set_exception: "sections_agree rf (set_exception_section he e) (set_exception_section he e)"
  by (auto simp: sections_agree_def void_state_ok_def future_simps void_state_def split: option.splits)

lemma sections_agree_abandon: "sections_agree rf (abandon_section he) (abandon_section he)"
  by (auto simp: sections_agree_def void_state_ok_def future_simps void_state_def split: option.splits)

lemma sections_agree_set_continuation:
  "void_cont_ok rf c \<Longrightarrow> sections_agree rf (set_continuation_section he c) (set_continuation_section he c)"
  by (auto simp: sections_agree_def void_state_ok_def future_simps void_state_def split: option.splits)

lemmas state_sims = on_state_sim [OF _ sections_agree_set_value, folded state_set_value_def void_state_set_value_def]
  on_state_sim [OF _ sections_agree_set_exception, folded state_set_exception_def]
  on_state_sim [OF _ sections_agree_abandon, folded state_abandon_def]
  on_state_sim [OF _ sections_agree_set_continuation, folded state_set_continuation_def]

lemma same_buffer: "ss_buffer s = b \<Longrightarrow> s\<lparr>ss_buffer := b\<rparr> = s"
  by (cases s) simp

lemma state_get_sim:
  assumes "void_ok rf h"
  shows "void_sim rf (state_get he (\<lambda>v. v) i h) (void_state_get he i (void_heap h)) \<and>
     (\<forall>v h'. state_get he (\<lambda>v. v) i h = Some (Inr v, h') \<longrightarrow> v = Plain ())"
proof (cases "fh_store h i")
  case (Some s)
  note ok = void_ok_lookup [OF assms Some]
  then have "void_ok rf (fh_put i s h)" using assms by (rule void_ok_put [rotated])
  with ok show ?thesis
    by (cases "ss_current_state s"; cases "ss_exception s"; cases he)
      (auto simp: state_get_def void_state_get_def Some get_section_def void_get_section_def is_ready_unlocked_def
        void_state_ok_def void_fault_def same_buffer)
qed (use assms in \<open>simp add: state_get_def void_state_get_def\<close>)

lemma call_functor_sim:
  assumes "functors_agree rf call callv" "void_ok rf h"
  shows "void_sim rf (call_functor he call (\<lambda>v. v) fn i h) (void_call_functor he callv fn i (void_heap h))"
proof (cases fn)
  case (UserFunctor f)
  have "void_ok rf (h\<lparr>fh_calls := fh_calls h @ [(f, i)]\<rparr>)" using assms(2) by simp
  with assms(1) have "void_sim rf (Some (call f i (h\<lparr>fh_calls := fh_calls h @ [(f, i)]\<rparr>)))
      (Some (callv f i (void_heap (h\<lparr>fh_calls := fh_calls h @ [(f, i)]\<rparr>))))"
    unfolding functors_agree_def by blast
  then show ?thesis by (simp add: UserFunctor call_functor_def void_call_functor_def)
next
  case GetFunctor
  with state_get_sim [OF assms(2)] show ?thesis by (simp add: call_functor_def void_call_functor_def)
qed

lemma call_functor_void:
  assumes "functors_agree rf call callv" "void_ok rf h" "call_functor he call (\<lambda>v. v) fn i h = Some (Inr v, h')"
    "void_cont_ok rf (Continuation fn i out)"
  shows "v = Plain ()"
proof (cases fn)
  case (UserFunctor f)
  have "void_ok rf (h\<lparr>fh_calls := fh_calls h @ [(f, i)]\<rparr>)" using assms(2) by simp
  with assms(1) have "\<forall>v. \<not> rf f \<longrightarrow> fst (call f i (h\<lparr>fh_calls := fh_calls h @ [(f, i)]\<rparr>)) = Inr v \<longrightarrow> v = Plain ()"
    unfolding functors_agree_def by blast
  with assms(3,4) show ?thesis by (simp add: UserFunctor call_functor_def)
next
  case GetFunctor
  with state_get_sim [OF assms(2), of he i] assms(3) show ?thesis by (auto simp: call_functor_def)
qed

lemma report_exception_sim:
  assumes "void_execs rf ex exv" "void_sim rf m mv"
  shows "void_sim rf (report_exception ex he out m) (report_exception exv he out mv)"
proof (cases m)
  case (Some p)
  obtain r h where p: "p = (r, h)" by (cases p)
  have mv: "mv = Some (void_result r, void_heap h)" "void_ok rf h" using assms(2) Some p by simp_all
  show ?thesis
  proof (cases "\<exists>x. r = Inl (Abn (Thrown x)) \<and> (\<forall>ec. x \<noteq> future_error ec)")
    case True
    then obtain x where x: "r = Inl (Abn (Thrown x))" "\<forall>ec. x \<noteq> future_error ec" by blast
    have "report_exception ex he out m = state_set_exception ex he out (Some x) h"
      "report_exception exv he out mv = state_set_exception exv he out (Some x) (void_heap h)"
      using x by (cases x; simp add: report_exception_def Some p mv(1))+
    with state_sims(2) [OF assms(1) mv(2)] show ?thesis by simp
  next
    case False
    have "report_exception ex he out m = m"
      using False by (auto simp: report_exception_def Some p split: sum.splits fault.splits abnormal.splits cpp_exception.splits)
    moreover have "report_exception exv he out mv = mv"
      using False by (cases r) (auto simp: report_exception_def Some p mv split: fault.splits abnormal.splits cpp_exception.splits)
    ultimately show ?thesis using assms(2) by simp
  qed
qed (use assms(2) in \<open>simp add: report_exception_def\<close>)

lemma reset_output_sim: "void_ok rf h \<Longrightarrow> void_cont_ok rf c \<Longrightarrow>
    void_heap (reset_output c i h) = reset_output c i (void_heap h) \<and> void_ok rf (reset_output c i h)"
proof (cases "fh_store h i")
  case (Some s)
  assume h: "void_ok rf h" and c: "void_cont_ok rf c"
  show ?thesis
  proof (cases "\<exists>fn j out. c = Continuation fn j out \<and> ss_continuation s = Some c")
    case True
    then obtain fn j out where "c = Continuation fn j out" "ss_continuation s = Some c" by blast
    moreover have "void_state_ok rf (s\<lparr>ss_continuation := Some (Continuation fn j None)\<rparr>)"
      using void_ok_lookup [OF h Some] c calculation by (cases fn) (auto simp: void_state_ok_def)
    ultimately show ?thesis using h Some by (auto simp: reset_output_def intro: void_ok_put)
  next
    case False
    with h Some show ?thesis by (cases c) (auto simp: reset_output_def)
  qed
qed (simp add: reset_output_def)

lemma reset_result_sim: "void_ok rf h \<Longrightarrow> void_cont_ok rf c \<Longrightarrow>
    void_sim rf (Some (Inr (), reset_output c i h)) (Some (Inr (), reset_output c i (void_heap h)))"
  using reset_output_sim [of rf h c i] by simp

lemma delegate_sim:
  assumes "void_execs rf ex exv" "functors_agree rf call callv" "void_ok rf h" "void_cont_ok rf (Continuation fn i o')"
  shows "void_sim rf (continuation_execute_delegate ex he call (\<lambda>v. v) fn i out h)
     (void_continuation_execute_delegate exv he callv fn i out (void_heap h))"
  unfolding continuation_execute_delegate_def void_continuation_execute_delegate_def
proof (rule report_exception_sim [OF assms(1)], rule void_sim_bind [OF call_functor_sim [OF assms(2,3)]])
  fix v h'
  assume "call_functor he call (\<lambda>v. v) fn i h = Some (Inr v, h')" "void_ok rf h'"
  with call_functor_void [OF assms(2,3) this(1) assms(4)] state_sims(1) [OF assms(1)]
  show "void_sim rf (state_set_value ex he out v h') (void_state_set_value exv he out (void_heap h'))" by simp
qed

lemma execute_sim:
  assumes "functors_agree rf call callv"
  shows "void_execs rf (execute he call (\<lambda>v. v) n) (void_execute he callv n)"
proof (induction n)
  case (Suc n)
  let ?ex = "execute he call (\<lambda>v. v) n" and ?exv = "void_execute he callv n"
  have "void_sim rf (execute he call (\<lambda>v. v) (Suc n) c h) (void_execute he callv (Suc n) c (void_heap h))"
    if h: "void_ok rf h" and c: "void_cont_ok rf c" for c h
  proof (cases c)
    case (Continuation fn i out)
    show ?thesis
    proof (cases "fh_store h i = None \<or> out = None")
      case True
      with h state_sims(2) [OF Suc h] show ?thesis by (cases out; cases "fh_store h i") (auto simp: Continuation)
    next
      case False
      then obtain o' s where o: "out = Some o'" "fh_store h i = Some s" by auto
      have "void_sim rf (bindH (continuation_execute_delegate ?ex he call (\<lambda>v. v) fn i o' h)
            (\<lambda>_ h1. Some (Inr (), reset_output c i h1)))
          (bindH (void_continuation_execute_delegate ?exv he callv fn i o' (void_heap h))
            (\<lambda>_ h1. Some (Inr (), reset_output c i h1)))"
        by (rule void_sim_bind [OF delegate_sim [OF Suc assms h c [unfolded Continuation]]]) (rule reset_result_sim [OF _ c])
      then show ?thesis by (simp add: Continuation o)
    qed
  next
    case (UnwrappingContinuation fn i im out)
    show ?thesis
    proof (cases "fh_store h i")
      case None
      with state_sims(2) [OF Suc h] show ?thesis by (simp add: UnwrappingContinuation)
    next
      case (Some s)
      note sim = call_functor_sim [OF assms h, of he fn i]
      show ?thesis
      proof (cases "call_functor he call (\<lambda>v. v) fn i h")
        case None
        with sim Some show ?thesis by (simp add: UnwrappingContinuation)
      next
        case (Some p)
        obtain r h1 where p: "p = (r, h1)" by (cases p)
        have v: "void_call_functor he callv fn i (void_heap h) = Some (void_result r, void_heap h1)" "void_ok rf h1"
          using sim Some p by simp_all
        have "void_cont_ok rf (Continuation GetFunctor m (Some out))" for m by simp
        note sims = state_sims(2) [OF Suc v(2)] state_sims(4) [OF Suc this v(2)]
        show ?thesis using \<open>fh_store h i = Some s\<close> sims v
          by (auto simp: UnwrappingContinuation Some p split: sum.splits fault.splits abnormal.splits fval.splits option.splits)
      qed
    qed
  qed
  then show ?case unfolding void_execs_def by blast
qed (simp add: void_execs_def)

lemma make_continuation_sim:
  assumes "functors_agree rf call callv" "void_ok rf h" "unwrap \<longleftrightarrow> (\<exists>f. fn = UserFunctor f \<and> rf f)"
  shows "void_sim rf (make_continuation he call (\<lambda>v. v) n i fn unwrap h) (void_make_continuation he callv n i fn unwrap (void_heap h))"
proof (cases "fh_store h i")
  case (Some s)
  define s1 where "s1 = snd (release_cancellation_callback s)"
  define h1 where "h1 = snd (fh_alloc (shared_state_new (ss_cancellation_callback s)) (fh_put i s1 h))"
  define c where "c = (if unwrap then UnwrappingContinuation fn i None (fh_next h) else Continuation fn i (Some (fh_next h)))"
  have s1: "void_state_ok rf s1" "snd (release_cancellation_callback (void_state s)) = void_state s1"
      "ss_cancellation_callback (void_state s) = ss_cancellation_callback s"
    using void_ok_lookup [OF assms(2) Some] by (simp_all add: s1_def void_state_ok_def release_cancellation_callback_def void_state_def)
  have h1: "void_ok rf h1" "void_heap h1 = snd (fh_alloc (void_state_new (ss_cancellation_callback s)) (fh_put i (void_state s1) (void_heap h)))"
    using s1(1) assms(2) by (simp_all add: h1_def fh_alloc_def void_ok_put)
  have "void_cont_ok rf c" using assms(3) by (cases fn) (auto simp: c_def)
  from state_sims(4) [OF execute_sim [OF assms(1)] this h1(1), of he n he i] have
    "void_sim rf (bindH (state_set_continuation (execute he call (\<lambda>v. v) n) he i c h1) (\<lambda>_ h2. Some (Inr (fh_next h), h2)))
       (bindH (state_set_continuation (void_execute he callv n) he i c (void_heap h1)) (\<lambda>_ h2. Some (Inr (fh_next h), h2)))"
    by (rule void_sim_bind) simp
  moreover have "make_continuation he call (\<lambda>v. v) n i fn unwrap h =
      bindH (state_set_continuation (execute he call (\<lambda>v. v) n) he i c h1) (\<lambda>_ h2. Some (Inr (fh_next h), h2))"
    by (simp add: make_continuation_def Some h1_def s1_def c_def fh_alloc_def release_cancellation_callback_def)
  moreover have "void_make_continuation he callv n i fn unwrap (void_heap h) =
      bindH (state_set_continuation (void_execute he callv n) he i c (void_heap h1)) (\<lambda>_ h2. Some (Inr (fh_next h), h2))"
    using s1(2) by (simp add: void_make_continuation_def Some h1(2) s1(3) c_def fh_alloc_def release_cancellation_callback_def)
  ultimately show ?thesis by simp
qed (use assms(2) in \<open>simp add: make_continuation_def void_make_continuation_def\<close>)

section \<open>Programs correspond\<close>

definition void_client :: "(unit, 'f, 'k) client \<Rightarrow> (unit, 'f, 'k) client" where
  "void_client cl = cl\<lparr>cl_heap := void_heap (cl_heap cl)\<rparr>"

definition client_sim ::
  "('f \<Rightarrow> bool) \<Rightarrow> (unit, (unit, 'f, 'k) client) outcome \<Rightarrow> (unit, (unit, 'f, 'k) client) outcome \<Rightarrow> bool" where
  "client_sim rf m mv \<longleftrightarrow> mv = map_option (map_prod void_result void_client) m \<and> (\<forall>r cl. m = Some (r, cl) \<longrightarrow> void_ok rf (cl_heap cl))"

lemma void_client_simps [simp]:
  "cl_heap (void_client cl) = void_heap (cl_heap cl)" "cl_promises (void_client cl) = cl_promises cl"
  "cl_futures (void_client cl) = cl_futures cl" "cl_values (void_client cl) = cl_values cl"
  by (simp_all add: void_client_def)

lemma client_sim_simps [simp]:
  "client_sim rf None mv \<longleftrightarrow> mv = None"
  "client_sim rf (Some (r, cl)) mv \<longleftrightarrow> mv = Some (void_result r, void_client cl) \<and> void_ok rf (cl_heap cl)"
  by (auto simp: client_sim_def)

lemma on_heap_sim: "void_sim rf m mv \<Longrightarrow> client_sim rf (on_heap cl m) (on_heap (void_client cl) mv)"
  by (cases m) (auto simp: on_heap_def void_client_def)

lemma then_sim:
  assumes "functors_agree rf call callv" "void_ok rf (cl_heap cl)" "unwrap = rf f"
  shows "client_sim rf (replacing_future j cl (future_then he call (\<lambda>v. v) n (UserFunctor f) unwrap fut (cl_heap cl)))
     (replacing_future j (void_client cl) (void_future_then he callv n (UserFunctor f) unwrap fut (void_heap (cl_heap cl))))"
proof (cases fut)
  case (Some i)
  from make_continuation_sim [OF assms(1,2), of unwrap "UserFunctor f" he n i] assms(3)
  show ?thesis
    by (cases "make_continuation he call (\<lambda>v. v) n i (UserFunctor f) unwrap (cl_heap cl)")
      (auto simp: Some future_then_def void_future_then_def void_then_impl_def check_valid_def replacing_future_def
        Let_def void_client_def split: sum.splits)
qed (use assms(2) in \<open>simp add: future_then_def void_future_then_def check_valid_def replacing_future_def void_client_def\<close>)

lemma get_sim:
  assumes "void_ok rf (cl_heap cl)"
  shows "client_sim rf (client_op_run he call (\<lambda>v. v) n (Get j) cl) (void_client_op_run he callv n (Get j) (void_client cl))"
proof (cases "cl_futures cl ! j")
  case (Some i)
  from state_get_sim [OF assms, of he i] show ?thesis
    by (cases "state_get he (\<lambda>v. v) i (cl_heap cl)")
      (auto simp: Some future_get_def void_future_get_def check_valid_def Let_def void_client_def split: sum.splits)
qed (use assms in \<open>simp add: future_get_def void_future_get_def check_valid_def void_client_def\<close>)

lemma get_future_sim:
  assumes "void_ok rf (cl_heap cl)"
  shows "client_sim rf (client_op_run he call (\<lambda>v. v) n (GetFuture i) cl) (void_client_op_run he callv n (GetFuture i) (void_client cl))"
proof (cases "cl_promises cl ! i")
  case (Some p)
  show ?thesis
  proof (cases "fh_store (cl_heap cl) p")
    case s: (Some s)
    have "void_state_ok rf (s\<lparr>ss_retrieved := True\<rparr>)" using void_ok_lookup [OF assms s] by (simp add: void_state_ok_def)
    with assms have "void_ok rf (fh_put p (s\<lparr>ss_retrieved := True\<rparr>) (cl_heap cl))" by (rule void_ok_put)
    with assms s Some show ?thesis
      by (auto simp: promise_get_future_def void_promise_get_future_def mark_retrieved_section_def void_client_def)
  qed (use assms Some in \<open>simp add: promise_get_future_def void_promise_get_future_def void_client_def\<close>)
qed (use assms in \<open>simp add: promise_get_future_def void_promise_get_future_def void_client_def\<close>)

lemma client_op_sim:
  assumes "functors_agree rf call callv" "void_ok rf (cl_heap cl)" "void_op rf op"
  shows "client_sim rf (client_op_run he call (\<lambda>v. v) n op cl) (void_client_op_run he callv n op (void_client cl))"
proof (cases op)
  case (NewPromise T cb)
  from void_ok_put [OF assms(2) void_new(1)] show ?thesis
    by (simp add: NewPromise promise_new_def void_promise_new_def fh_alloc_def void_client_def)
next
  case (GetFuture i)
  from get_future_sim [OF assms(2)] show ?thesis unfolding GetFuture .
next
  case (SetValue i x)
  from state_sims(1) [OF execute_sim [OF assms(1)] assms(2)] assms(2) show ?thesis
    by (auto simp: SetValue promise_set_value_def void_promise_set_value_def split: option.splits intro!: on_heap_sim)
next
  case (SetException i ex)
  from state_sims(2) [OF execute_sim [OF assms(1)] assms(2)] assms(2) show ?thesis
    by (auto simp: SetException promise_set_exception_def void_promise_set_exception_def split: option.splits intro!: on_heap_sim)
next
  case (Then j f unwrap)
  from then_sim [OF assms(1,2), of unwrap f] assms(3) show ?thesis by (simp add: Then)
next
  case (Get j)
  from get_sim [OF assms(2)] show ?thesis unfolding Get .
next
  case (DestroyPromise i)
  have cl: "void_client cl\<lparr>cl_promises := ps\<rparr> = void_client (cl\<lparr>cl_promises := ps\<rparr>)" for ps by (simp add: void_client_def)
  from state_sims(3) [OF execute_sim [OF assms(1)] assms(2)] assms(2) show ?thesis
    by (auto simp: DestroyPromise cl promise_destroy_def void_promise_destroy_def split: option.splits intro!: on_heap_sim)
qed (use assms(3) in simp_all)

lemma client_run_sim:
  assumes "functors_agree rf call callv" "\<forall>op \<in> set ops. void_op rf op" "void_ok rf (cl_heap cl)"
  shows "client_sim rf (client_run he call (\<lambda>v. v) n ops cl) (void_client_run he callv n ops (void_client cl))"
  using assms(2,3)
proof (induction ops arbitrary: cl)
  case (Cons op ops)
  have sim: "client_sim rf (client_op_run he call (\<lambda>v. v) n op cl) (void_client_op_run he callv n op (void_client cl))"
    using Cons.prems by (intro client_op_sim [OF assms(1)]) simp_all
  show ?case
  proof (cases "client_op_run he call (\<lambda>v. v) n op cl")
    case (Some p)
    obtain r cl' where p: "p = (r, cl')" by (cases p)
    with sim Some Cons.IH [of cl'] Cons.prems(1) show ?thesis by (cases r) auto
  qed (use sim in simp)
qed simp

text \<open>The helpers of the classes that programs do not need separately.\<close>

lemma destroy_sim:
  assumes "functors_agree rf call callv" "void_ok rf h"
  shows "void_sim rf (promise_destroy he call (\<lambda>v. v) n p h) (void_promise_destroy he callv n p (void_heap h))"
  using state_sims(3) [OF execute_sim [OF assms(1)] assms(2)] assms(2)
  by (auto simp: promise_destroy_def void_promise_destroy_def split: option.splits)

lemma assign_move_sim:
  assumes "functors_agree rf call callv" "void_ok rf h"
  shows "void_sim rf (promise_assign_move he call (\<lambda>v. v) n this rhs h) (void_promise_assign_move he callv n this rhs (void_heap h))"
  unfolding promise_assign_move_def void_promise_assign_move_def promise_swap_def void_promise_swap_def Let_def prod.case
  by (rule void_sim_bind [OF destroy_sim [OF assms]]) simp

lemma make_ready_future_value:
  "\<exists>h'. void_make_ready_future he call n cb h = Some (Inr (Some (fh_next h)), h') \<and> void_state_get he (fh_next h) h' = Some (Inr (Plain ()), h')"
  by (simp add: void_make_ready_future_def void_promise_new_def fh_alloc_def void_promise_set_value_def void_state_set_value_def
      on_state_def void_set_value_section_def void_set_value_locked_def void_state_new_def shared_state_new_def notify_now_locked_def
      is_ready_unlocked_def perform_def void_promise_get_future_def mark_retrieved_section_def void_promise_destroy_def state_abandon_def
      abandon_section_def void_state_get_def void_get_section_def fh_put_def)

lemma client_new_facts: "void_client client_new = client_new" "void_ok rf (cl_heap client_new)"
  by (simp_all add: void_client_def client_new_def void_heap_def void_ok_def)

section \<open>Properties\<close>

text \<open>
  C8: programs over \<^verbatim>\<open>promise<void>\<close> and \<^verbatim>\<open>future<void>\<close>, which create and destroy promises, satisfy them,
  attach continuations (with unwrapping or without) and get results, behave as the same programs over the
  primary templates with a one-element value: the same operations return, block or fail, with the
  same exception and up to the class that a termination message names, the same functors are called in the same order,
  and the stores are equal but for the storage of the value.
\<close>

theorem void_clients_equivalent:
  assumes "functors_agree rf call callv" "\<forall>op \<in> set ops. void_op rf op"
  shows "void_client_run he callv n ops client_new =
     map_option (map_prod void_result void_client) (client_run he call (\<lambda>v. v) n ops client_new)"
  using client_run_sim [OF assms client_new_facts(2), of he n] unfolding client_sim_def client_new_facts(1) by blast

text \<open>A functor that calls \<^verbatim>\<open>get()\<close> on its future, which is ready whenever a functor is called.\<close>

definition getter :: "(unit, nat, unit) functor_call" where
  "getter f i h = (case state_get True (\<lambda>v. v) i h of None \<Rightarrow> (Inr (Plain ()), h) | Some p \<Rightarrow> p)"

definition void_getter :: "(unit, nat, unit) functor_call" where
  "void_getter f i h = (case void_state_get True i h of None \<Rightarrow> (Inr (Plain ()), h) | Some p \<Rightarrow> p)"

lemma getters_agree: "functors_agree (\<lambda>f. False) getter void_getter"
proof -
  have "void_sim (\<lambda>f. False) (Some (getter f i h)) (Some (void_getter f i (void_heap h))) \<and>
      (\<forall>v. fst (getter f i h) = Inr v \<longrightarrow> v = Plain ())" if "void_ok (\<lambda>f. False) h" for f i and h :: "(unit, nat, unit) fheap"
    using state_get_sim [OF that, of True i] that
    by (cases "state_get True (\<lambda>v. v) i h") (auto simp: getter_def void_getter_def)
  then show ?thesis unfolding functors_agree_def by blast
qed

theorem void_clients_equivalent_witness:
  "map_option (\<lambda>(r, cl). (r, cl_values cl, fh_calls (cl_heap cl)))
     (void_client_run True void_getter 9 [NewPromise T_void None, GetFuture 0, Then 0 7 False, SetValue 0 (), Get 1] client_new) =
   Some (Inr (), [Plain ()], [(7, 0)])"
proof -
  let ?ops = "[NewPromise T_void None, GetFuture 0, Then 0 7 False, SetValue 0 (), Get 1] :: (unit, nat, unit) client_op list"
  have ops: "\<forall>op \<in> set ?ops. void_op (\<lambda>f. False) op" by simp
  have run: "map_option (\<lambda>(r, cl). (r, cl_values cl, fh_calls (cl_heap cl))) (client_run True getter (\<lambda>v. v) 9 ?ops client_new) =
     Some (Inr (), [Plain ()], [(7, 0)])"
    by code_simp
  show ?thesis
    unfolding void_clients_equivalent [OF getters_agree ops] option.map_comp using run
    by (cases "client_run True getter (\<lambda>v. v) 9 ?ops client_new") auto
qed

end
