(* ===== verification/Operation_Futures.thy ===== *)
theory Operation_Futures
  imports Future Completion_Queue
begin

text \<open>
  Operations of the completion queue together with the futures they satisfy. An operation object holds
  the promise; \<^verbatim>\<open>GetFuture\<close> hands out its future, \<^verbatim>\<open>Notify\<close> satisfies it and so runs the continuations of the
  application, on the thread of the event loop. The promise of a timer has a cancellation callback that calls
  \<^verbatim>\<open>Cancel\<close> on the object by its plain address; the one of an RPC has the callback that does nothing.
\<close>

section \<open>State\<close>

text \<open>Callbacks: \<^verbatim>\<open>[] {}\<close> and \<^verbatim>\<open>[this] { Cancel(); }\<close>, with the address of the object.\<close>

datatype cancel_callback = NoCallback | CallCancel nat

text \<open>
  The live operation objects, by address, with the shared states of their promises; the futures of the
  application; the operations that gRPC was asked to cancel.
\<close>

record ('r, 'f) ops_world =
  ow_queue :: "'r CompletionQueueImpl"
  ow_heap :: "('r notification, 'f, cancel_callback) fheap"
  ow_promises :: "nat \<rightharpoonup> nat"
  ow_futures :: "future_ptr list"
  ow_cancels :: "nat list"

definition mk_ops_world :: "('r, 'f) ops_world" where
  "mk_ops_world = \<lparr>ow_queue = mk_CompletionQueueImpl, ow_heap = \<lparr>fh_next = 0, fh_store = Map.empty, fh_calls = []\<rparr>,
     ow_promises = Map.empty, ow_futures = [], ow_cancels = []\<rparr>"

definition in_heap ::
  "('r, 'f) ops_world \<Rightarrow> ('a, ('r notification, 'f, cancel_callback) fheap) outcome \<Rightarrow> ('a, ('r, 'f) ops_world) outcome" where
  "in_heap w m = map_option (\<lambda>(r, h). (r, w\<lparr>ow_heap := h\<rparr>)) m"

section \<open>Operation objects\<close>

text \<open>The constructors of \<^verbatim>\<open>AsyncTimerFuture\<close> and \<^verbatim>\<open>AsyncUnaryRpcFuture\<close> create the promise.\<close>

definition new_operation :: "cancel_callback \<Rightarrow> nat \<Rightarrow> ('r, 'f) ops_world \<Rightarrow> ('r, 'f) ops_world" where
  "new_operation cb tag w =
     (let (p, h) = promise_new (Some cb) (ow_heap w) in w\<lparr>ow_heap := h, ow_promises := (ow_promises w)(tag := p)\<rparr>)"

definition new_AsyncTimerFuture :: "nat \<Rightarrow> ('r, 'f) ops_world \<Rightarrow> ('r, 'f) ops_world" where
  "new_AsyncTimerFuture tag w = new_operation (CallCancel tag) tag w"

definition new_AsyncUnaryRpcFuture :: "nat \<Rightarrow> ('r, 'f) ops_world \<Rightarrow> ('r, 'f) ops_world" where
  "new_AsyncUnaryRpcFuture tag w = new_operation NoCallback tag w"

definition operation_GetFuture :: "bool \<Rightarrow> nat \<Rightarrow> ('r, 'f) ops_world \<Rightarrow> (future_ptr, ('r, 'f) ops_world) outcome" where
  "operation_GetFuture he tag w =
     (if ow_promises w tag = None then Some (Inl (UB UseDead), w)
      else in_heap w (Some (promise_get_future he (ow_promises w tag) (ow_heap w))))"

text \<open>What \<^verbatim>\<open>Notify\<close> does with the promise; \<open>note\<close> is the value it computed.\<close>

definition notify_promise where
  "notify_promise he call mv n tag note w =
     (if ow_promises w tag = None then Some (Inl (UB UseDead), w)
      else in_heap w (promise_set_value he call mv n (ow_promises w tag) (Plain note) (ow_heap w)))"

text \<open>The last reference to the object goes away; its promise abandons the shared state.\<close>

definition destroy_operation where
  "destroy_operation he call mv n tag w =
     bindH (in_heap w (promise_destroy he call mv n (ow_promises w tag) (ow_heap w)))
       (\<lambda>_ w1. Some (Inr (), w1\<lparr>ow_promises := (ow_promises w1)(tag := None)\<rparr>))"

section \<open>The interface class\<close>

text \<open>
  \<^verbatim>\<open>StartOperation\<close> has notified the operation when the queue was shut down; the queue holds no reference
  then, and the object is destroyed when the function that made it returns.
\<close>

definition make_operation where
  "make_operation he call mv n tag res w =
     (case res of
        (Inl e, q) \<Rightarrow> Some (Inl e, w\<lparr>ow_queue := q\<rparr>)
      | (Inr None, q) \<Rightarrow> operation_GetFuture he tag (w\<lparr>ow_queue := q\<rparr>)
      | (Inr (Some note), q) \<Rightarrow>
          bindH (notify_promise he call mv n tag note (w\<lparr>ow_queue := q\<rparr>)) (\<lambda>_ w1.
          bindH (operation_GetFuture he tag w1) (\<lambda>fut w2.
          bindH (destroy_operation he call mv n tag w2) (\<lambda>_ w3. Some (Inr fut, w3)))))"

definition MakeDeadlineTimer_future where
  "MakeDeadlineTimer_future he call mv n tag d w =
     make_operation he call mv n tag (MakeDeadlineTimer he tag d (ow_queue w)) (new_AsyncTimerFuture tag w)"

definition MakeUnaryRpc_future where
  "MakeUnaryRpc_future he call mv n tag dr w =
     make_operation he call mv n tag (MakeUnaryRpc he tag dr (ow_queue w)) (new_AsyncUnaryRpcFuture tag w)"

text \<open>\<^verbatim>\<open>future::then\<close>: the future is reset, the new one returned.\<close>

definition then_on where
  "then_on he call mv n f unwrap fut w =
     map_option (\<lambda>(r, _, h). (r, w\<lparr>ow_heap := h\<rparr>)) (future_then he call mv n (UserFunctor f) unwrap fut (ow_heap w))"

text \<open>\<^verbatim>\<open>RunAsync\<close>: a timer without delay, and a continuation whose future is dropped.\<close>

definition RunAsync_future where
  "RunAsync_future he call mv n tag now f w =
     bindH (MakeDeadlineTimer_future he call mv n tag (clock_sum now 0) w) (\<lambda>fut w1.
     bindH (then_on he call mv n f False fut w1) (\<lambda>_ w2. Some (Inr (), w2)))"

text \<open>
  A turn of the loop in \<^verbatim>\<open>Run\<close> for an event: \<open>wr\<close> is what gRPC wrote into the operation. The local pointer
  to the object goes away at the end of the turn.
\<close>

definition Run_turn where
  "Run_turn he call mv n tag ok wr w =
     (case FindOperation he tag (ow_queue w) of
        Inl e \<Rightarrow> Some (Inl e, w)
      | Inr op \<Rightarrow>
          (case Notify ok (wr op) of (completed, note) \<Rightarrow>
             bindH (notify_promise he call mv n tag note w) (\<lambda>_ w1.
               if completed
               then (case ForgetOperation he tag (ow_queue w1) of
                       Inl e \<Rightarrow> Some (Inl e, w1)
                     | Inr q \<Rightarrow> destroy_operation he call mv n tag (w1\<lparr>ow_queue := q\<rparr>))
               else Some (Inr (), w1))))"

section \<open>Cancellation\<close>

text \<open>
  Calling a callback: the object at the address may be gone. The alarm of a timer is there from its constructor
  on, whether the timer is pending or not.
\<close>

fun run_callback :: "cancel_callback \<Rightarrow> ('r, 'f) ops_world \<Rightarrow> (fault + unit) \<times> ('r, 'f) ops_world" where
  "run_callback NoCallback w = (Inr (), w)"
| "run_callback (CallCancel tag) w =
     (if ow_promises w tag = None then (Inl (UB UseDead), w)
      else case map_of (pending_ops (ow_queue w)) tag of
             None \<Rightarrow> (Inr (), w\<lparr>ow_cancels := ow_cancels w @ [tag]\<rparr>)
           | Some op \<Rightarrow>
               (case Cancel op of
                  Inl e \<Rightarrow> (Inl e, w)
                | Inr asked \<Rightarrow> (Inr (), if asked then w\<lparr>ow_cancels := ow_cancels w @ [tag]\<rparr> else w)))"

text \<open>\<^verbatim>\<open>future::cancel\<close>: the test, the callback, the store of the flag.\<close>

definition cancel_on :: "future_ptr \<Rightarrow> ('r, 'f) ops_world \<Rightarrow> (bool, ('r, 'f) ops_world) outcome" where
  "cancel_on fut w =
     (case fut of
        None \<Rightarrow> Some (Inl (UB NullDeref), w)
      | Some i \<Rightarrow>
          (case fh_store (ow_heap w) i of
             None \<Rightarrow> Some (Inl (UB UseDead), w)
           | Some s \<Rightarrow>
               (case cancel_with run_callback s w of (r, s', w1) \<Rightarrow>
                  Some (r, if r = Inr True then w1\<lparr>ow_heap := fh_put i s' (ow_heap w1)\<rparr> else w1))))"

definition CancelAll_world :: "('r, 'f) ops_world \<Rightarrow> (unit, ('r, 'f) ops_world) outcome" where
  "CancelAll_world w =
     (case CancelAll (ow_queue w) of
        Inl e \<Rightarrow> Some (Inl e, w)
      | Inr tags \<Rightarrow> Some (Inr (), w\<lparr>ow_cancels := ow_cancels w @ tags\<rparr>))"

section \<open>Programs\<close>

text \<open>
  What the application does, and the events of the loop. Futures are named by their position; \<open>StartTimer\<close>,
  \<open>StartUnary\<close> and \<open>ThenOp\<close> add one.
\<close>

datatype ('r, 'f) fut_op =
    StartTimer nat int
  | StartUnary nat 'r
  | RunAsyncOp nat int 'f
  | ThenOp nat 'f bool
  | CancelOp nat
  | EventOp nat bool "'r AsyncGrpcOperation \<Rightarrow> 'r AsyncGrpcOperation"
  | ShutdownOp
  | CancelAllOp

definition keep_future :: "(future_ptr, ('r, 'f) ops_world) outcome \<Rightarrow> (unit, ('r, 'f) ops_world) outcome" where
  "keep_future m = bindH m (\<lambda>fut w. Some (Inr (), w\<lparr>ow_futures := ow_futures w @ [fut]\<rparr>))"

fun fut_op_run where
  "fut_op_run he call mv n (StartTimer tag d) w = keep_future (MakeDeadlineTimer_future he call mv n tag d w)"
| "fut_op_run he call mv n (StartUnary tag dr) w = keep_future (MakeUnaryRpc_future he call mv n tag dr w)"
| "fut_op_run he call mv n (RunAsyncOp tag now f) w = RunAsync_future he call mv n tag now f w"
| "fut_op_run he call mv n (ThenOp j f unwrap) w =
     bindH (then_on he call mv n f unwrap (ow_futures w ! j) w)
       (\<lambda>fut w1. Some (Inr (), w1\<lparr>ow_futures := (ow_futures w1)[j := None] @ [fut]\<rparr>))"
| "fut_op_run he call mv n (CancelOp j) w = bindH (cancel_on (ow_futures w ! j) w) (\<lambda>_ w1. Some (Inr (), w1))"
| "fut_op_run he call mv n (EventOp tag ok wr) w = Run_turn he call mv n tag ok wr w"
| "fut_op_run he call mv n ShutdownOp w = Some (Inr (), w\<lparr>ow_queue := Shutdown_section (ow_queue w)\<rparr>)"
| "fut_op_run he call mv n CancelAllOp w = CancelAll_world w"

fun fut_run where
  "fut_run he call mv n [] w = Some (Inr (), w)"
| "fut_run he call mv n (op # ops) w = bindH (fut_op_run he call mv n op w) (\<lambda>_ w1. fut_run he call mv n ops w1)"

text \<open>
  What the environment guarantees: a new object has a new address, gRPC reports what was started, and
  the application uses futures that are valid. \<open>unwrap\<close> says whether it may attach functors that return futures.
\<close>

fun op_legal :: "bool \<Rightarrow> ('r, 'f) fut_op \<Rightarrow> ('r, 'f) ops_world \<Rightarrow> bool" where
  "op_legal unwrap (StartTimer tag d) w \<longleftrightarrow> tag \<notin> fst ` set (pending_ops (ow_queue w))"
| "op_legal unwrap (StartUnary tag dr) w \<longleftrightarrow> tag \<notin> fst ` set (pending_ops (ow_queue w))"
| "op_legal unwrap (RunAsyncOp tag now f) w \<longleftrightarrow> tag \<notin> fst ` set (pending_ops (ow_queue w))"
| "op_legal unwrap (ThenOp j f u) w \<longleftrightarrow> j < length (ow_futures w) \<and> ow_futures w ! j \<noteq> None \<and> (u \<longrightarrow> unwrap)"
| "op_legal unwrap (CancelOp j) w \<longleftrightarrow> j < length (ow_futures w) \<and> ow_futures w ! j \<noteq> None"
| "op_legal unwrap (EventOp tag ok wr) w \<longleftrightarrow> tag \<in> fst ` set (pending_ops (ow_queue w))"
| "op_legal unwrap _ w \<longleftrightarrow> True"

fun legal_program where
  "legal_program unwrap he call mv n [] w \<longleftrightarrow> True"
| "legal_program unwrap he call mv n (op # ops) w \<longleftrightarrow> op_legal unwrap op w \<and>
     (case fut_op_run he call mv n op w of
        Some (Inr _, w1) \<Rightarrow> legal_program unwrap he call mv n ops w1
      | _ \<Rightarrow> True)"

section \<open>Invariant\<close>

text \<open>
  The states of a chain of continuations and its end; \<open>chain_ok\<close>: the unsatisfied chain behind the operation at
  \<open>tag\<close>, whose promise has state \<open>i\<close>. The end of the chain has the callback of the operation.
\<close>

definition chain_states :: "nat \<Rightarrow> ('f \<times> nat) list \<Rightarrow> nat set" where
  "chain_states i fs = set (i # map snd fs)"

definition chain_end :: "nat \<Rightarrow> ('f \<times> nat) list \<Rightarrow> nat" where
  "chain_end i fs = last (i # map snd fs)"






lemma chain_simps [simp]:
  "chain_states i [] = {i}" "chain_end i [] = i" "chain_end i (fs @ [(f, j)]) = j"
  "chain_states i (fs @ [(f, j)]) = insert j (chain_states i fs)"
  by (auto simp: chain_states_def chain_end_def)













section \<open>Starting operations\<close>







section \<open>Attaching continuations\<close>





section \<open>Events\<close>




section \<open>Cancelling\<close>






section \<open>Whole programs\<close>












lemmas world_simps = mk_ops_world_def mk_CompletionQueueImpl_def MakeDeadlineTimer_future_def MakeDeadlineTimer_def StartOperation_def
  new_AsyncTimerFuture_def new_operation_def make_operation_def operation_GetFuture_def in_heap_def
  promise_get_future_def keep_future_def set_deadline_def AsyncTimerFuture_Set_def CreateAlarm_def
  then_on_def Run_turn_def FindOperation_def ForgetOperation_def notify_promise_def destroy_operation_def cancel_on_def cancel_with_def
  promise_destroy_def state_abandon_def run_simps mark_retrieved_section_def shared_state_new_def fh_put_def getting_def

text \<open>
  C39: a future that unwraps another one. The output of \<^verbatim>\<open>then\<close> has the cancellation callback of the first timer
  also while it waits for the future that the functor returned. The first timer is complete then, and its object
  is gone: \<^verbatim>\<open>cancel()\<close> calls \<^verbatim>\<open>Cancel\<close> on it, whatever the deadlines are and however the timer ended.
\<close>

theorem unwrapped_cancel_uses_destroyed_timer:
  assumes "t1 \<noteq> t2"
  shows "legal_program True True (getting id (\<lambda>f r. Inr (FutureVal (Some f)))) id (Suc (Suc n))
      [StartTimer t1 d1, StartTimer t2 d2, ThenOp 0 1 True, EventOp t1 ok wr, CancelOp 2] mk_ops_world \<and>
    map_option fst (fut_run True (getting id (\<lambda>f r. Inr (FutureVal (Some f)))) id (Suc (Suc n))
      [StartTimer t1 d1, StartTimer t2 d2, ThenOp 0 1 True, EventOp t1 ok wr, CancelOp 2] mk_ops_world) = Some (Inl (UB UseDead))"
  using assms by (simp add: world_simps case_prod_unfold cancellable_def)

theorem unwrapped_cancel_uses_destroyed_timer_witness:
  "map_option fst (fut_run True (getting id (\<lambda>f r. Inr (FutureVal (Some f)))) id 2
     [StartTimer 1 100, StartTimer 2 200, ThenOp 0 1 True, EventOp 1 True id, CancelOp 2]
     (mk_ops_world :: (nat, nat) ops_world)) = Some (Inl (UB UseDead))"
  using unwrapped_cancel_uses_destroyed_timer [of 1 2 0 100 200 True "id :: nat AsyncGrpcOperation \<Rightarrow> _"]
  by (simp add: numeral_2_eq_2)

text \<open>
  \<^verbatim>\<open>cancel()\<close> tests \<^verbatim>\<open>cancellable()\<close> and calls the callback without a lock. When the loop completes the timer in
  between, the callback runs on the destroyed object.
\<close>

lemma cancel_races_with_completion:
  "\<exists>w1 w2 s. fut_op_run True call mv n (StartTimer tag d) mk_ops_world = Some (Inr (), w1) \<and>
     fh_store (ow_heap w1) 0 = Some s \<and> cancellable s \<and> ss_cancellation_callback s = Some (CallCancel tag) \<and>
     fut_op_run True call mv n (EventOp tag ok wr) w1 = Some (Inr (), w2) \<and>
     run_callback (CallCancel tag) w2 = (Inl (UB UseDead), w2)"
  by (simp add: world_simps case_prod_unfold cancellable_def)

text \<open>The callback of the future of a unary RPC does nothing: \<^verbatim>\<open>cancel()\<close> says that it cancelled, and gRPC is not asked.\<close>

lemma unary_cancel_reaches_nothing:
  assumes "\<not> shutdown (ow_queue w)" "tag \<notin> fst ` set (pending_ops (ow_queue w))"
  shows "\<exists>fut w1 w2. MakeUnaryRpc_future True call mv n tag dr w = Some (Inr fut, w1) \<and>
     cancel_on fut w1 = Some (Inr True, w2) \<and> ow_cancels w2 = ow_cancels w"
  using assms by (simp add: MakeUnaryRpc_future_def MakeUnaryRpc_def new_AsyncUnaryRpcFuture_def world_simps cancellable_def map_of_None_iff)

end
