(* ===== verification/Spec2Isabelle.thy ===== *)
theory Spec2Isabelle
  imports Optional Status_Or Big_Endian Rfc3339 Iam Configuration Log
    Future_Race Future_Void Future Event_Loop Background_Threads Retry_Policy Backoff_Policy Pagination Async_Retry Read_Stream
    Filesystem Utilities Then_Meta Future_Types Log_Race Retry_On_Loop Stream_On_Loop Testing_Util
    Void_Futures Operation_Futures
begin

text \<open>
  \<^bold>\<open>Verification of google-cloud-cpp-common\<close>

  The repository holds the components shared by the Google Cloud C++ client libraries, under
  \<^verbatim>\<open>src/google/cloud\<close>. This development models them as functions and step relations and proves what
  their users rely on. File names below are relative to \<^verbatim>\<open>src/google/cloud\<close>.

  \<^bold>\<open>How the parts interact.\<close> Every fallible call reports a \<^verbatim>\<open>Status\<close>; results are \<^verbatim>\<open>StatusOr<T>\<close>. Where
  a caller breaks a contract the library throws through \<^verbatim>\<open>internal/throw_delegate\<close>, or, without
  exceptions, calls \<^verbatim>\<open>Terminate\<close>. Asynchronous operations are started on a \<^verbatim>\<open>CompletionQueue\<close>; its
  threads take events from gRPC and notify the operations, which satisfy promises and so run the
  continuations of futures. The retry loop and the read streams are chains of such operations. The
  loop asks a retry policy whether to go on and a backoff policy how long to wait. Configuration
  comes from the environment; log records go to the backends of a \<^verbatim>\<open>LogSink\<close>.

  \<^bold>\<open>Conventions.\<close> A result \<open>Inl e\<close> is an abnormal end, \<open>Inr x\<close> a value. A \<open>fault\<close> (\<open>Lifetime\<close>) is undefined
  behaviour of a given kind, an exception, or termination: code that dereferences null or uses a dead
  object has \<open>UB\<close> as its value, so a theorem with \<open>Inr\<close> on the right also says that the code is free of
  it. \<open>have_ex\<close> says whether the library is compiled with exceptions. Machine integers are words, or
  integers with their range checked (\<open>in_int32\<close>, \<open>in_int64\<close>) where overflow would be undefined. Clocks,
  random generators, \<^verbatim>\<open>stat\<close>, the time zone and the service behind a pagination range are arguments. The time zone is a
  function from civil times to offsets, so that a zone may change its offset over the years.

  \<^bold>\<open>Theories.\<close>

  \<^descr> \<open>Prelude\<close>: the result type, decimal conversions, C strings, ranges of integers, the collections
  of simplification rules.

  \<^descr> \<open>Status\<close> (\<^verbatim>\<open>status.{h,cc}\<close>, \<^verbatim>\<open>grpc_error_delegate.{h,cc}\<close>) and \<open>Throw_Delegate\<close>
  (\<^verbatim>\<open>internal/throw_delegate.cc\<close>, \<^verbatim>\<open>terminate_handler.cc\<close>, \<^verbatim>\<open>internal/future_impl.cc\<close>): status codes with
  the values the enum can hold, conversion from both RPC error types, exceptions and the terminate
  handler. Codes print injectively and survive conversion; \<^verbatim>\<open>Terminate\<close> does not return.

  \<^descr> \<open>Lifetime\<close>, \<open>Optional\<close> (\<^verbatim>\<open>optional.h\<close>), \<open>Status_Or\<close> (\<^verbatim>\<open>status_or.h\<close>): values in raw storage, a \<open>cell\<close>
  that is live or not. The locale \<open>tagged_storage\<close> states what assignments and destruction owe to the
  invariant and proves once, for any sequence of assignments, that no lifetime error occurs and the
  last assigned content is seen; both classes interpret it.

  \<^descr> \<open>Big_Endian\<close> (\<^verbatim>\<open>internal/big_endian.h\<close>): the shift loops on words of every width, with round trips.

  \<^descr> \<open>Civil_Time\<close>, \<open>Rfc3339\<close> (\<^verbatim>\<open>internal/parse_rfc3339.cc\<close>, \<^verbatim>\<open>internal/format_time_point.cc\<close>): the
  calendar functions of the C library, the scanner conversions in use, parser and formatters. \<open>timestamp_text\<close> is the grammar of RFC 3339 with the instant each text denotes; the parser
  is compared with it and with the formatters, in any time zone, and lemmas show what happens before the epoch and on texts
  outside the grammar.

  \<^descr> \<open>Std_Containers\<close>, \<open>Iam\<close> (\<^verbatim>\<open>iam_binding.h\<close>, \<^verbatim>\<open>iam_bindings.{h,cc}\<close>, \<^verbatim>\<open>iam_policy.{h,cc}\<close>): \<^verbatim>\<open>std::map\<close>
  and \<^verbatim>\<open>std::set\<close> as ordered lists, with the locale \<open>assoc_container\<close> for the interface the clients use.
  The bindings refine a function from roles to sets of members.

  \<^descr> \<open>Configuration\<close> (\<^verbatim>\<open>internal/getenv.cc\<close>, \<^verbatim>\<open>internal/setenv.cc\<close>, \<^verbatim>\<open>tracing_options.cc\<close>,
  \<^verbatim>\<open>connection_options.{h,cc}\<close>, \<^verbatim>\<open>testing_util/scoped_environment.{h,cc}\<close>): the environment, the parser of
  tracing options and the connection options built from them.

  \<^descr> \<open>Log\<close> (\<^verbatim>\<open>log.{h,cc}\<close>): records and their printing, the sink with its invariant over \<open>sink_step\<close>
  sequences, delivery to backends that call the sink back, and the loop of the \<^verbatim>\<open>GCP_LOG\<close> macro.
  \<open>Log_Race\<close>: calls of \<^verbatim>\<open>Log\<close> by several threads, interleaved with changes of the sink, as \<open>log_step\<close>;
  each of them takes effect at the point where it copies the backends.

  \<^descr> \<open>Future_State\<close>, \<open>Future_Race\<close>, \<open>Future\<close> (\<^verbatim>\<open>internal/future_impl.h\<close>, \<^verbatim>\<open>internal/future_base.h\<close>,
  \<^verbatim>\<open>internal/future_then_impl.h\<close>, \<^verbatim>\<open>future_generic.h\<close>, \<^verbatim>\<open>future_void.h\<close>): the shared state and its locked
  sections; threads that share one state, as the step relation \<open>race_step\<close>, for which safety, progress
  and exactly-once execution of continuations are proved under every schedule; and futures, promises,
  \<^verbatim>\<open>then\<close>, unwrapping and cancellation over a heap of shared states. \<open>Future_Void\<close> models the
  specialization of the shared state for \<^verbatim>\<open>void\<close>, \<open>Void_Futures\<close> the classes \<^verbatim>\<open>future<void>\<close> and \<^verbatim>\<open>promise<void>\<close>
  with their continuations. Programs over them behave as programs over the primary templates with a one-element
  value, which is how the other theories treat \<^verbatim>\<open>void\<close>.

  \<^descr> \<open>Then_Meta\<close> (\<^verbatim>\<open>internal/invoke_result.h\<close>, \<^verbatim>\<open>internal/future_then_meta.h\<close>, \<^verbatim>\<open>internal/conjunction.h\<close>,
  \<^verbatim>\<open>internal/disjunction.h\<close>, \<^verbatim>\<open>internal/utility.h\<close>, \<^verbatim>\<open>internal/tuple.h\<close>): the metafunctions, as functions on a
  datatype of types. \<open>Future_Types\<close>: a typing of the store of shared states with the types these
  functions compute; operations on well-typed stores keep them so and are free of undefined behaviour.

  \<^descr> \<open>Completion_Queue\<close>, \<open>Event_Loop\<close>, \<open>Background_Threads\<close> (\<^verbatim>\<open>completion_queue.{h,cc}\<close>,
  \<^verbatim>\<open>internal/completion_queue_impl.{h,cc}\<close>, \<^verbatim>\<open>internal/background_threads_impl.cc\<close>): the operations of the
  queue, and the step relation \<open>step\<close> of any number of event loop threads, callers and gRPC. An
  invariant gives safety; a weight that no step increases and some step decreases gives completion of
  the shutdown. \<open>Background_Threads\<close> adds the call of \<^verbatim>\<open>AutomaticallyCreatedBackgroundThreads::Shutdown\<close>, step by step
  between those of the queue, and shows that it gets to the join and through it by its own steps and the ones of the loop.

  \<^descr> \<open>Operation_Futures\<close> (the same files, with \<^verbatim>\<open>future_generic.h\<close>): operation objects that hold a promise, over
  the queue of \<open>Completion_Queue\<close> and the store of \<open>Future\<close>. A program is any sequence of calls of the application and
  events of the loop. Behind each pending operation there is a chain of unsatisfied states, the last of which may have
  its cancellation callback. Programs whose functors return no futures and throw no \<^verbatim>\<open>std::future_error\<close> run free of
  faults, and their futures are ready or the end of the chain of a pending operation. With such functors, and when \<^verbatim>\<open>cancel()\<close> races with the completion of a timer,
  the callback reaches a destroyed object.

  \<^descr> \<open>Retry_Policy\<close> (\<^verbatim>\<open>internal/retry_policy.h\<close>), \<open>Backoff_Policy\<close> (\<^verbatim>\<open>internal/backoff_policy.{h,cc}\<close>): the
  virtual interface of the policies is the locale \<open>retry_policy\<close>, interpreted by both policies; delays
  are scaled with the rounding of a double.

  \<^descr> \<open>Async_Retry\<close> (\<^verbatim>\<open>internal/async_retry_unary_rpc.h\<close>): the loop over the queue and the policies. The
  locale \<open>bounded_retry_policy\<close> extends \<open>retry_policy\<close> by what makes the loop end. The loop refines
  \<open>retry_spec\<close>, a function of the outcomes of its attempts.

  \<^descr> \<open>Read_Stream\<close> (\<^verbatim>\<open>internal/async_read_stream_impl.h\<close>): the callbacks of a streaming read; \<open>protocol\<close> is
  the order of calls gRPC requires.

  \<^descr> \<open>Queue_Client\<close>, \<open>Retry_On_Loop\<close>, \<open>Stream_On_Loop\<close>: the composition of both with the event loop. The locale
  \<open>queue_client\<close> is the contract of code that waits for one operation of the queue at a time; what such code does
  for a completion is a sequence of steps of \<open>Event_Loop\<close>, and its state is the result of what the event loop
  notified. The retry loop and the read stream interpret it, so the guarantees on both sides hold together.

  \<^descr> \<open>Pagination\<close> (\<^verbatim>\<open>internal/pagination_range.h\<close>): the range, its iterators, and the loop over them, which ends at
  the first empty page, also where the service has more.

  \<^descr> \<open>Filesystem\<close> (\<^verbatim>\<open>internal/filesystem.{h,cc}\<close>, on POSIX and Windows) and \<open>Utilities\<close>
  (\<^verbatim>\<open>internal/ios_flags_saver.h\<close>, \<^verbatim>\<open>internal/random.{h,cc}\<close>, \<^verbatim>\<open>version.{h,cc}\<close>, \<^verbatim>\<open>internal/compiler_info.cc\<close>).

  \<^descr> \<open>Testing_Util\<close> (\<^verbatim>\<open>testing_util\<close>): the helpers of the unit tests. A capturing backend records what the sink is
  given; the check for deadlines ends and accepts the time policy.

  \<^descr> This theory: log lines and the parser of time stamps together.

  \<^bold>\<open>Fuel.\<close> The \<^verbatim>\<open>for\<close> statement of \<^verbatim>\<open>GCP_LOG\<close> returns with any fuel of at least 2, since the logger is disabled
  after its first turn. Executing continuations takes one unit per functor attached, which
  \<open>future_then_chain\<close> shows to suffice; in \<open>operation_futures_safe\<close> one unit per operation of the program
  is enough. \<open>settle\<close> and \<open>stream_settle\<close> run continuations of futures that are ready already; a queue that is shut down answers at most three operations in a row before the
  loop or stream ends, so 4 is enough, as the theorems show by the value \<open>Some\<close>. \<open>range_for\<close> returns for
  every fuel of at least two more than the number of items.
  The check for deadlines makes one iteration per millisecond at most, hence its fuel.

  \<^bold>\<open>Not modelled.\<close> Memory orders of the relaxed atomics in \<open>Log\<close>, beyond that a stale read may let a call
  start or not. Exceptions that \<open>on_read\<close> and \<open>on_finish\<close> of a read stream throw directly (not through the future).
  The destruction of shared states of futures: they stay in the store, which no operation can tell (see
  \<open>make_continuation\<close>). Undefined behaviour when the deadline of a relative timer overflows the clock: it wraps
  (\<open>clock_sum\<close>). The Windows branch of the environment functions. The gRPC, protobuf and googletest
  libraries, represented by what their documentation promises. Preprocessor configuration, the mocks that googlemock generates, the headers of \<^verbatim>\<open>grpc_utils\<close> that forward to code that moved, build and
  release scripts.
\<close>

section \<open>Time stamps of log lines\<close>

lemma setw_pad0_nat: "setw w (CHR ''0'') (nat_to_dec n) = pad0_nat w n"
  by (simp add: setw_def pad0_nat_def zeros_def)

lemma setw_pad0: "0 \<le> i \<Longrightarrow> setw w (CHR ''0'') (int_to_dec i) = pad0 w i"
  by (simp add: int_to_dec_def pad0_def setw_pad0_nat)

lemma length_nat_to_dec_ge:
  assumes "10 ^ k \<le> n"
  shows "k < length (nat_to_dec n)"
proof (rule ccontr)
  assume "\<not> k < length (nat_to_dec n)"
  then have "digits_val (nat_to_dec n) < 10 ^ k"
    using nat_to_dec_digits
    by (meson digits_val_less le_less_trans less_le_trans not_le power_increasing one_le_numeral)
  with assms show False by simp
qed

text \<open>Between the years 1970 and 2262 the time stamp of a record has the layout of \<^verbatim>\<open>FormatRfc3339\<close>.\<close>

lemma Timestamp_print_fields:
  assumes "0 \<le> tp" "tp < 2 ^ 63" "t = gmtime (tp div ns_per_s)"
  shows "Timestamp_print (mk_Timestamp tp) = fmt_Y t @ ''-'' @ fmt_m t @ ''-'' @ fmt_d t @ ''T'' @ fmt_H t @ '':''
      @ fmt_M t @ '':'' @ fmt_S t @ ((CHR ''.'' # pad0 9 (tp mod ns_per_s)) @ ''Z'')"
proof -
  have "0 \<le> tp div ns_per_s" "tp div ns_per_s \<le> 9223372036"
    using assms(1,2) by (auto simp: ns_per_s_def pos_imp_zdiv_nonneg_iff)
  then have "1970 \<le> tm_year t + 1900" unfolding assms(3) by (rule gmtime_year_clock)
  then have "3 < length (nat_to_dec (nat (tm_year t + 1900)))" "0 \<le> tm_year t + 1900"
    using length_nat_to_dec_ge [of 3 "nat (tm_year t + 1900)"] by simp_all
  then have "setw 4 (CHR '' '') (int_to_dec (tm_year t + 1900)) = fmt_Y t"
    by (simp add: setw_def fmt_Y_def int_to_dec_def)
  moreover have "setw 2 (CHR ''0'') (int_to_dec (int (tm_mon t) + 1)) = fmt_m t"
    by (simp add: fmt_m_def int_to_dec_def setw_pad0_nat nat_add_distrib)
  moreover have "tm_ok t" unfolding assms(3) by (rule gmtime_ok)
  moreover have "tp - tp div ns_per_s * ns_per_s = tp mod ns_per_s" "0 \<le> tp mod ns_per_s"
    by (simp_all add: minus_div_mult_eq_mod ns_per_s_def)
  ultimately show ?thesis
    using assms(1) by (simp add: Timestamp_print_def mk_Timestamp_def Let_def to_time_t_nonneg
        flip: assms(3)) (simp add: setw_pad0 tm_ok_def fmt_d_def fmt_H_def fmt_M_def fmt_S_def)
qed

lemma Timestamp_print_chars:
  assumes "0 \<le> tp" "c \<in> set (Timestamp_print (mk_Timestamp tp))" "tp < 2 ^ 63"
  shows "is_digit c \<or> c \<in> set ''-T:.Z''"
proof -
  have "tm_ok (gmtime (tp div ns_per_s))" by (rule gmtime_ok)
  moreover have "0 \<le> tp div ns_per_s" "tp div ns_per_s \<le> 9223372036" "0 \<le> tp mod ns_per_s"
    using assms by (auto simp: ns_per_s_def pos_imp_zdiv_nonneg_iff)
  moreover from this have "1970 \<le> tm_year (gmtime (tp div ns_per_s)) + 1900" using gmtime_year_clock by blast
  ultimately show ?thesis
    using assms(2) unfolding Timestamp_print_fields [OF assms(1,3) refl]
    by (auto simp: tm_ok_def fmt_Y_def fmt_m_def fmt_d_def fmt_H_def fmt_M_def fmt_S_def int_to_dec_def pad0_def
        dest: nat_to_dec_digits pad0_nat_digits)
qed

text \<open>
  C29: the line printed for a log record starts, up to its first blank, with a time stamp that
  \<^verbatim>\<open>ParseRfc3339\<close> reads back as the time of the record, to the nanosecond, plus the difference between
  the standard-time offset of the local zone when the parser was first called and the one at the
  time of the record; so it is the time of the record exactly when both offsets are equal. The
  record is at or after the epoch (an earlier one prints a minus sign in its
  fraction, \<open>log_line_before_epoch\<close>) and not in the last two days of the range of the clock.
\<close>

theorem log_line_timestamp_parses:
  assumes "LogRecord_print r = Inr line" "0 \<le> lr_timestamp r" "lr_timestamp r + 172801 * ns_per_s < 2 ^ 63"
    "zone_ok zone"
  shows "ParseRfc3339 have_ex zone now (takeWhile (\<lambda>c. c \<noteq> CHR '' '') line)
           = Inr (lr_timestamp r + (zone now - zone (lr_timestamp r div ns_per_s)) * ns_per_s) \<and>
         (ParseRfc3339 have_ex zone now (takeWhile (\<lambda>c. c \<noteq> CHR '' '') line) = Inr (lr_timestamp r)
           \<longleftrightarrow> zone (lr_timestamp r div ns_per_s) = zone now)"
proof -
  let ?tp = "lr_timestamp r"
  let ?stamp = "Timestamp_print (mk_Timestamp ?tp)"
  have below: "?tp < 2 ^ 63" using assms(3) by (simp add: ns_per_s_def)
  have chars: "c \<noteq> CHR '' ''" "c \<noteq> CHR 0x00" if "c \<in> set ?stamp" for c
    using Timestamp_print_chars [OF assms(2) that below] by (auto simp: is_digit_def)
  from assms(1) obtain rest where "line = ?stamp @ CHR '' '' # rest"
    by (auto simp: LogRecord_print_def bindR_def split: sum.splits)
  then have "takeWhile (\<lambda>c. c \<noteq> CHR '' '') line = ?stamp" using chars(1) by (simp add: takeWhile_append)
  moreover have "ParseRfc3339 have_ex zone now ?stamp
      = Inr (?tp + (zone now - zone (?tp div ns_per_s)) * ns_per_s)"
  proof (rule ParseRfc3339_of_fields [OF assms(2-4) Timestamp_print_fields [OF assms(2) below refl] refl])
    show "ParseFractionalSeconds have_ex ((CHR ''.'' # pad0 9 (?tp mod ns_per_s)) @ ''Z'') ts = Inr (?tp mod ns_per_s, ''Z'')" for ts
      using ParseFractional_digits [of "?tp mod ns_per_s" 9] by (simp add: ns_per_s_def scale_fraction_9)
    show "c_str ?stamp = ?stamp" using chars(2) by (intro c_str_no_nul) blast
  qed
  ultimately show ?thesis by (auto simp: ns_per_s_def)
qed

definition example_record :: LogRecord where
  "example_record = \<lparr>lr_severity = GCP_LS_ERROR, lr_function = ''f'', lr_filename = ''a.cc'', lr_lineno = 7,
     lr_timestamp = 1526654523000000042, lr_message = ''failed''\<rparr>"

theorem log_line_timestamp_parses_witness:
  "ParseRfc3339 True (\<lambda>_. 3600) 0 (takeWhile (\<lambda>c. c \<noteq> CHR '' '') (projr (LogRecord_print example_record))) = Inr 1526654523000000042"
proof -
  have "Severity_print GCP_LS_ERROR = Inr ''ERROR''" by code_simp
  then have "LogRecord_print example_record = Inr (projr (LogRecord_print example_record))"
    by (simp add: LogRecord_print_def example_record_def)
  from log_line_timestamp_parses [OF this, of "\<lambda>_. 3600" True 0] show ?thesis
    by (simp add: example_record_def ns_per_s_def zone_ok_def)
qed

lemma log_line_before_epoch:
  "Timestamp_print (mk_Timestamp (- 5)) = ''1970-01-01T00:00:00.0000000-5Z'' \<and>
   ParseRfc3339 True (\<lambda>_. 0) 0 (Timestamp_print (mk_Timestamp (- 5)))
     = Inl (ReportError True ''1970-01-01T00:00:00.0000000-5Z''
         ''Invalid timezone offset, expected [+-]HH:MM.'')"
  by (intro conjI) code_simp+

end
